(* ===== verification/Prelude.thy ===== *)
theory Prelude imports Main "HOL-Library.Word" begin

text \<open>
  Shared ground of the development: the names of the machine integer types, the lemma
  collections the component theories extend, and the generic facts on words, on page
  alignment and on lists that more than one component needs.
\<close>

unbundle bit_operations_syntax

section \<open>Machine types\<close>

text \<open>
  The C types of the source at their widths. A \<open>char\<close> is a byte; where the code relies on
  its sign (\<open>char\<close> is signed on x86\_64) the model says \<open>scast\<close>. A pointer is a \<open>u64\<close>.
\<close>

type_synonym u8 = "8 word"
type_synonym u16 = "16 word"
type_synonym u32 = "32 word"
type_synonym u64 = "64 word"
type_synonym memory = "u64 \<Rightarrow> u8"

section \<open>Lemma collections\<close>

text \<open>
  \<open>keeps_intros\<close> holds the rules that show an invariant is kept by a program, from the
  combinators up to the public operations of each component; \<open>run_simps\<close> holds the
  equations that evaluate a program on a state; \<open>unchanged_intros\<close> holds the rules that show
  a part of the state is never written.
\<close>

named_theorems keeps_intros "introduction rules for invariants kept by programs"
named_theorems run_simps "equations that run a program on a state"
named_theorems stops_intros "introduction rules for programs that never run forever"
named_theorems unchanged_intros "introduction rules for parts of the state a program leaves alone"

section \<open>Literals\<close>

text \<open>The bytes of a C string literal, without its terminating zero.\<close>

definition lit :: "string \<Rightarrow> u8 list" where
  "lit s = map of_char s"

lemma lit_Nil [simp]: "lit [] = []"
  by (simp add: lit_def)

lemma lit_Cons [simp]: "lit (c # s) = of_char c # lit s"
  by (simp add: lit_def)

lemma length_lit [simp]: "length (lit s) = length s"
  by (simp add: lit_def)

section \<open>Lists\<close>

lemma filter_dropWhile_not: "filter P (dropWhile (\<lambda>x. \<not> P x) xs) = filter P xs"
  by (induction xs) auto

lemma take_take_append: "take n (take n xs @ ys) = take n (xs @ ys)"
  by (cases "length xs \<le> n") simp_all

lemma take_min_length: "take (min (length xs) n) xs = take n xs"
  by (simp add: min_def)

section \<open>Counting with words\<close>

lemma unat_plus_one:
  fixes i n :: "'a::len word"
  assumes "i < n"
  shows "unat (i + 1) = Suc (unat i)"
proof -
  have "unat i < unat n" using assms by (simp add: word_less_nat_alt)
  moreover have "unat n < 2 ^ LENGTH('a)" by (rule unsigned_less)
  ultimately have "Suc (unat i) < 2 ^ LENGTH('a)" by arith
  then show ?thesis by (simp add: unat_word_ariths mod_less del: mod_Suc_eq)
qed

lemma unat_add_less:
  fixes a b :: "'a::len word"
  assumes "unat a + unat b < 2 ^ LENGTH('a)"
  shows "unat (a + b) = unat a + unat b"
  using assms by (simp add: unat_word_ariths)

lemma unat_sub_le:
  fixes a b :: "'a::len word"
  assumes "b \<le> a"
  shows "unat (a - b) = unat a - unat b"
  using assms by (simp add: unat_sub)

lemma unat_ucast_up:
  fixes x :: "'a::len word"
  assumes "LENGTH('a) \<le> LENGTH('b)"
  shows "unat (ucast x :: 'b::len word) = unat x"
proof -
  have "unat x < 2 ^ LENGTH('a)" by (rule unsigned_less)
  also have "\<dots> \<le> (2 :: nat) ^ LENGTH('b)" using assms by simp
  finally show ?thesis by (simp add: unsigned_ucast_eq take_bit_eq_mod)
qed

lemma word_of_nat_unat_add:
  fixes a :: "'a::len word"
  shows "word_of_nat (unat a + k) = a + word_of_nat k"
  by simp

section \<open>Signed 64-bit values\<close>

lemma sint_neg_unat: "sint (n :: u64) < 0 \<longleftrightarrow> 2 ^ 63 \<le> unat n"
proof -
  have "sint n < 0 \<longleftrightarrow> bit (unat n) 63"
    using bit_last_iff [of n] by (simp add: bit_unsigned_iff)
  moreover have "unat n div 2 ^ 63 < 2"
    using unsigned_less [of n, where 'a = nat] by (simp add: less_mult_imp_div_less)
  ultimately show ?thesis
    by (auto simp: bit_iff_odd div_eq_0_iff less_2_cases_iff not_less [symmetric])
qed

lemma sint_zero: "sint (n :: u64) = 0 \<longleftrightarrow> n = 0"
  by (rule signed_eq_0_iff)

lemma sint_pos_unat: "0 < sint (n :: u64) \<longleftrightarrow> 0 < unat n \<and> unat n < 2 ^ 63"
proof -
  have "unat n = 0 \<longleftrightarrow> sint n = 0" by (simp only: sint_zero unat_eq_0)
  with sint_neg_unat [of n] show ?thesis by linarith
qed

section \<open>Page alignment\<close>

text \<open>
  \<open>PAGE_SIZE\<close> and the two rounding expressions of the sources,
  \<open>x & ~(PAGE_SIZE - 1)\<close> and \<open>(x + PAGE_SIZE - 1) & ~(PAGE_SIZE - 1)\<close>.
\<close>

definition PAGE_SIZE :: u64 where
  "PAGE_SIZE = 4096"

definition page_down :: "u64 \<Rightarrow> u64" where
  "page_down x = x AND NOT (PAGE_SIZE - 1)"

definition page_up :: "u64 \<Rightarrow> u64" where
  "page_up x = (x + PAGE_SIZE - 1) AND NOT (PAGE_SIZE - 1)"

lemma unat_PAGE_SIZE [simp]: "unat PAGE_SIZE = 4096"
  by (simp add: PAGE_SIZE_def)

lemma unat_and_not_mask:
  fixes x :: "'a::len word"
  shows "unat (x AND NOT (mask n)) = unat x div 2 ^ n * 2 ^ n"
proof -
  have "x AND NOT (mask n) = push_bit n (drop_bit n x)"
    by (rule bit_word_eqI) (auto simp: bit_simps)
  then have "unat (x AND NOT (mask n)) = take_bit LENGTH('a) (push_bit n (drop_bit n (unat x)))"
    by (simp only: unsigned_push_bit_eq unsigned_drop_bit_eq take_bit_eq_mod mod_less [OF unsigned_less])
  also have "\<dots> = unat x div 2 ^ n * 2 ^ n mod 2 ^ LENGTH('a)"
    by (simp only: take_bit_eq_mod push_bit_eq_mult drop_bit_eq_div)
  also have "\<dots> = unat x div 2 ^ n * 2 ^ n"
    by (rule mod_less [OF le_less_trans [OF div_times_less_eq_dividend unsigned_less]])
  finally show ?thesis .
qed

lemma unat_page_down: "unat (page_down x) = unat x div 4096 * 4096"
  using unat_and_not_mask [of x 12]
  by (simp add: page_down_def PAGE_SIZE_def mask_eq_exp_minus_1)

lemma page_up_page_down: "page_up x = page_down (x + 4095)"
  by (simp add: page_up_def page_down_def PAGE_SIZE_def add.commute)

lemma unat_page_up:
  assumes "unat x + 4095 < 2 ^ 64"
  shows "unat (page_up x) = (unat x + 4095) div 4096 * 4096"
  using assms by (simp add: page_up_page_down unat_page_down unat_add_less)

lemma page_down_le: "page_down x \<le> x"
  by (simp add: word_le_nat_alt unat_page_down)

lemma page_down_aligned: "unat (page_down x) mod 4096 = 0"
  by (simp add: unat_page_down)

lemma page_up_aligned: "unat (page_up x) mod 4096 = 0"
  by (simp add: page_up_page_down unat_page_down)

lemma unat_div_page: "unat (x div PAGE_SIZE) = unat x div 4096"
  by (simp add: PAGE_SIZE_def unat_div)

section \<open>Little-endian fields\<close>

text \<open>The value of the \<open>n\<close> bytes at an address, least significant byte first.\<close>

primrec read_le :: "memory \<Rightarrow> u64 \<Rightarrow> nat \<Rightarrow> u64" where
  "read_le m a 0 = 0"
| "read_le m a (Suc n) = ucast (m a) OR push_bit 8 (read_le m (a + 1) n)"

primrec le_bytes :: "nat \<Rightarrow> u64 \<Rightarrow> u8 list" where
  "le_bytes 0 v = []"
| "le_bytes (Suc n) v = ucast v # le_bytes n (drop_bit 8 v)"

lemma length_le_bytes [simp]: "length (le_bytes n v) = n"
  by (induction n arbitrary: v) auto

end
