(* ===== verification/Outcome.thy ===== *)
theory Outcome imports Prelude begin

text \<open>
  The effects of the code. A program is a function from a state to the outcome of running
  it there; \<open>None\<close> means that it never stops (a loop that runs forever), and the loops
  of the source that have no bound are \<open>partial_function\<close>s over it. The other outcomes are
  a normal return, a halted processor, a poll for device input that never came (the scripted
  input of the port is used up), a processor exception with its vector, and undefined
  behaviour of C (an index outside a static or local array, a call through a bad pointer).
\<close>

section \<open>Outcomes and programs\<close>

datatype ('a, 's) outcome =
    Ok 'a 's
  | Halt 's
  | Wait 's
  | Trap u64 's
  | Undef

type_synonym ('a, 's) prog = "'s \<Rightarrow> ('a, 's) outcome option"

definition ret :: "'a \<Rightarrow> ('a, 's) prog" where
  "ret a = (\<lambda>s. Some (Ok a s))"

definition skip :: "(unit, 's) prog" where
  "skip = ret ()"

definition gets :: "('s \<Rightarrow> 'a) \<Rightarrow> ('a, 's) prog" where
  "gets f = (\<lambda>s. Some (Ok (f s) s))"

definition modify :: "('s \<Rightarrow> 's) \<Rightarrow> (unit, 's) prog" where
  "modify f = (\<lambda>s. Some (Ok () (f s)))"

definition halt :: "('a, 's) prog" where
  "halt = (\<lambda>s. Some (Halt s))"

definition undef :: "('a, 's) prog" where
  "undef = (\<lambda>s. Some Undef)"

definition bind :: "('a, 's) prog \<Rightarrow> ('a \<Rightarrow> ('b, 's) prog) \<Rightarrow> ('b, 's) prog" where
  "bind m k = (\<lambda>s. case m s of
       None \<Rightarrow> None
     | Some (Ok a t) \<Rightarrow> k a t
     | Some (Halt t) \<Rightarrow> Some (Halt t)
     | Some (Wait t) \<Rightarrow> Some (Wait t)
     | Some (Trap v t) \<Rightarrow> Some (Trap v t)
     | Some Undef \<Rightarrow> Some Undef)"

definition branch :: "('s \<Rightarrow> bool) \<Rightarrow> ('a, 's) prog \<Rightarrow> ('a, 's) prog \<Rightarrow> ('a, 's) prog" where
  "branch c m k = (\<lambda>s. if c s then m s else k s)"

text \<open>A block of statements, and a loop over a list of values.\<close>

fun seq :: "(unit, 's) prog list \<Rightarrow> (unit, 's) prog" where
  "seq [] = skip"
| "seq (m # ms) = bind m (\<lambda>_. seq ms)"

fun for_each :: "'x list \<Rightarrow> ('x \<Rightarrow> (unit, 's) prog) \<Rightarrow> (unit, 's) prog" where
  "for_each [] f = skip"
| "for_each (x # xs) f = bind (f x) (\<lambda>_. for_each xs f)"

text \<open>\<open>for (uint32_t i = a; i < n; i++) f(i)\<close>, for any unsigned type of the counter.\<close>

function for_word :: "'w::len word \<Rightarrow> 'w word \<Rightarrow> ('w word \<Rightarrow> (unit, 's) prog) \<Rightarrow> (unit, 's) prog" where
  "for_word i n f = (if i < n then bind (f i) (\<lambda>_. for_word (i + 1) n f) else skip)"
  by pat_completeness auto
termination
  by (relation "measure (\<lambda>(i, n, f). unat n - unat i)")
    (auto simp: unat_plus_one word_less_nat_alt)

declare for_word.simps [simp del]

section \<open>Partial functions over programs\<close>

lemma bind_alt: "bind m k = (\<lambda>s. Option.bind (m s) (\<lambda>r. case r of
       Ok a t \<Rightarrow> k a t | Halt t \<Rightarrow> Some (Halt t) | Wait t \<Rightarrow> Some (Wait t)
     | Trap v t \<Rightarrow> Some (Trap v t) | Undef \<Rightarrow> Some Undef))"
  by (auto simp: bind_def fun_eq_iff split: option.splits outcome.splits)

lemma bind_prog_mono [partial_function_mono]:
  assumes m: "mono_option (\<lambda>f. m f s)"
    and k: "\<And>a t. mono_option (\<lambda>f. k f a t)"
  shows "mono_option (\<lambda>f. bind (m f) (k f) s)"
proof -
  have "mono_option (\<lambda>f. case r of
       Ok a t \<Rightarrow> k f a t | Halt t \<Rightarrow> Some (Halt t) | Wait t \<Rightarrow> Some (Wait t)
     | Trap v t \<Rightarrow> Some (Trap v t) | Undef \<Rightarrow> Some Undef)" for r
    by (cases r) (simp_all add: k option.const_mono)
  then have "mono_option (\<lambda>f. Option.bind (m f s) (\<lambda>r. case r of
       Ok a t \<Rightarrow> k f a t | Halt t \<Rightarrow> Some (Halt t) | Wait t \<Rightarrow> Some (Wait t)
     | Trap v t \<Rightarrow> Some (Trap v t) | Undef \<Rightarrow> Some Undef))"
    by (rule Partial_Function.bind_mono [OF m])
  then show ?thesis by (simp add: bind_alt)
qed

lemma if_prog_mono [partial_function_mono]:
  assumes "mono_option (\<lambda>f. m f s)" and "mono_option (\<lambda>f. k f s)"
  shows "mono_option (\<lambda>f. (if c then m f else k f) s)"
  using assms by (cases c) simp_all

lemma branch_prog_mono [partial_function_mono]:
  assumes "mono_option (\<lambda>f. m f s)" and "mono_option (\<lambda>f. k f s)"
  shows "mono_option (\<lambda>f. branch c (m f) (k f) s)"
  using assms by (cases "c s") (simp_all add: branch_def)

lemma seq_mono [partial_function_mono]:
  assumes "mono_option (\<lambda>f. bind (m f) (\<lambda>_. seq (ms f)) s)"
  shows "mono_option (\<lambda>f. seq (m f # ms f) s)"
  using assms by simp

lemma case_prod_prog_mono [partial_function_mono]:
  assumes "\<And>a b. p = (a, b) \<Longrightarrow> mono_option (\<lambda>f. m f a b s)"
  shows "mono_option (\<lambda>f. (case p of (a, b) \<Rightarrow> m f a b) s)"
  using assms by (cases p) simp

lemma case_prod_prog_mono2 [partial_function_mono]:
  assumes "\<And>a b. p = (a, b) \<Longrightarrow> mono_option (\<lambda>f. m f a b x s)"
  shows "mono_option (\<lambda>f. (case p of (a, b) \<Rightarrow> m f a b) x s)"
  using assms by (cases p) simp

lemma case_prod_prog_mono3 [partial_function_mono]:
  assumes "\<And>a b. p = (a, b) \<Longrightarrow> mono_option (\<lambda>f. m f a b x y s)"
  shows "mono_option (\<lambda>f. (case p of (a, b) \<Rightarrow> m f a b) x y s)"
  using assms by (cases p) simp

lemma let_prog_mono [partial_function_mono]:
  assumes "mono_option (\<lambda>f. m f v s)"
  shows "mono_option (\<lambda>f. (let x = v in m f x) s)"
  using assms by simp

section \<open>Running\<close>

lemma ret_run [run_simps]: "ret a s = Some (Ok a s)"
  by (simp add: ret_def)

lemma skip_run [run_simps]: "skip s = Some (Ok () s)"
  by (simp add: skip_def ret_def)

lemma gets_run [run_simps]: "gets f s = Some (Ok (f s) s)"
  by (simp add: gets_def)

lemma modify_run [run_simps]: "modify f s = Some (Ok () (f s))"
  by (simp add: modify_def)

lemma halt_run [run_simps]: "halt s = Some (Halt s)"
  by (simp add: halt_def)

lemma undef_run [run_simps]: "undef s = Some Undef"
  by (simp add: undef_def)

lemma branch_run [run_simps]: "branch c m k s = (if c s then m s else k s)"
  by (simp add: branch_def)

lemma bind_run [run_simps]: "bind m k s = (case m s of
       None \<Rightarrow> None
     | Some (Ok a t) \<Rightarrow> k a t
     | Some (Halt t) \<Rightarrow> Some (Halt t)
     | Some (Wait t) \<Rightarrow> Some (Wait t)
     | Some (Trap v t) \<Rightarrow> Some (Trap v t)
     | Some Undef \<Rightarrow> Some Undef)"
  by (simp add: bind_def)

lemma bind_ret [simp]: "bind (ret a) k = k a"
  by (simp add: bind_def ret_def)

lemma bind_skip [simp]: "bind skip k = k ()"
  by (simp add: skip_def)

lemma bind_skip_right [simp]: "bind m (\<lambda>_. skip) = (m :: (unit, 's) prog)"
  by (auto simp: bind_def fun_eq_iff skip_run split: option.splits outcome.splits)

lemma bind_assoc: "bind (bind m f) g = bind m (\<lambda>a. bind (f a) g)"
  by (auto simp: bind_def fun_eq_iff split: option.splits outcome.splits)

lemma bind_OkD:
  assumes "bind m k s = Some (Ok b u)"
  obtains a t where "m s = Some (Ok a t)" and "k a t = Some (Ok b u)"
  using assms by (auto simp: bind_def split: option.splits outcome.splits)

lemma bind_cong:
  assumes "\<And>a u. m s = Some (Ok a u) \<Longrightarrow> k a u = k' a u"
  shows "bind m k s = bind m k' s"
  using assms by (auto simp: bind_def split: option.splits outcome.splits)

lemma bind_cong_at:
  assumes "m s = m' s" and "\<And>a u. m s = Some (Ok a u) \<Longrightarrow> k a u = k' a u"
  shows "bind m k s = bind m' k' s"
  using assms by (auto simp: bind_def split: option.splits outcome.splits)

lemma seq_append: "seq (ms @ ns) = bind (seq ms) (\<lambda>_. seq ns)"
  by (induction ms) (simp_all add: bind_assoc)

lemma for_each_append: "for_each (xs @ ys) f = bind (for_each xs f) (\<lambda>_. for_each ys f)"
  by (induction xs) (simp_all add: bind_assoc)

lemma for_each_map: "for_each (map g xs) f = for_each xs (\<lambda>x. f (g x))"
  by (induction xs) simp_all

lemma for_each_cong:
  "xs = ys \<Longrightarrow> (\<And>x. x \<in> set ys \<Longrightarrow> f x = g x) \<Longrightarrow> for_each xs f = for_each ys g"
  by (induction xs arbitrary: ys) auto

text \<open>The counting loop is a loop over the list of its counters.\<close>

lemma for_word_for_each:
  "for_word i n f = for_each (map word_of_nat [unat i..<unat n]) f"
proof (induction i n f rule: for_word.induct)
  case (1 i n f)
  show ?case
  proof (cases "i < n")
    case True
    then have "[unat i..<unat n] = unat i # [unat (i + 1)..<unat n]"
      by (simp add: unat_plus_one upt_conv_Cons word_less_nat_alt)
    with True 1 show ?thesis by (subst for_word.simps) simp
  next
    case False
    then show ?thesis by (subst for_word.simps) (simp add: word_less_nat_alt)
  qed
qed

text \<open>
  The rule for a counting loop: \<open>g k\<close> is the state before the round \<open>k\<close>.
\<close>

lemma for_each_upt:
  assumes "a \<le> b" and "\<And>k. a \<le> k \<Longrightarrow> k < b \<Longrightarrow> f k (g k) = Some (Ok () (g (Suc k)))"
  shows "for_each [a..<b] f (g a) = Some (Ok () (g b))"
  using assms
proof (induction b)
  case 0
  then show ?case by (simp add: skip_run)
next
  case (Suc b)
  show ?case
  proof (cases "a = Suc b")
    case True
    then show ?thesis by (simp add: skip_run)
  next
    case False
    with Suc have "a \<le> b" and "for_each [a..<b] f (g a) = Some (Ok () (g b))"
      and "f b (g b) = Some (Ok () (g (Suc b)))" by simp_all
    then show ?thesis by (simp add: for_each_append bind_run skip_run)
  qed
qed

text \<open>A loop whose body is a pure update of the state is a fold.\<close>

lemma for_each_fold:
  assumes "\<And>x t. x \<in> set xs \<Longrightarrow> I t \<Longrightarrow> f x t = Some (Ok () (g x t)) \<and> I (g x t)"
    and "I s"
  shows "for_each xs f s = Some (Ok () (fold g xs s)) \<and> I (fold g xs s)"
  using assms
proof (induction xs arbitrary: s)
  case Nil
  then show ?case by (simp add: skip_run)
next
  case (Cons x xs)
  then have "f x s = Some (Ok () (g x s))" and "I (g x s)" by simp_all
  with Cons.IH [of "g x s"] Cons.prems(1) show ?case by (simp add: bind_run)
qed

section \<open>Contracts\<close>

text \<open>
  \<open>spec P m Q H\<close>: from every state in \<open>P\<close> the program \<open>m\<close> stops, without an exception and
  without undefined behaviour; a normal return satisfies \<open>Q\<close>, and where it halts or waits
  for input the state satisfies \<open>H\<close>. \<open>keeps I m\<close> is the contract of an invariant.
\<close>

fun good :: "('a \<Rightarrow> 's \<Rightarrow> bool) \<Rightarrow> ('s \<Rightarrow> bool) \<Rightarrow> ('a, 's) outcome \<Rightarrow> bool" where
  "good Q H (Ok a t) = Q a t"
| "good Q H (Halt t) = H t"
| "good Q H (Wait t) = H t"
| "good Q H (Trap v t) = False"
| "good Q H Undef = False"

definition spec :: "('s \<Rightarrow> bool) \<Rightarrow> ('a, 's) prog \<Rightarrow> ('a \<Rightarrow> 's \<Rightarrow> bool) \<Rightarrow> ('s \<Rightarrow> bool) \<Rightarrow> bool" where
  "spec P m Q H \<longleftrightarrow> (\<forall>s. P s \<longrightarrow> (case m s of None \<Rightarrow> False | Some r \<Rightarrow> good Q H r))"

definition keeps :: "('s \<Rightarrow> bool) \<Rightarrow> ('a, 's) prog \<Rightarrow> bool" where
  "keeps I m \<longleftrightarrow> spec I m (\<lambda>_. I) I"

lemma specI:
  assumes "\<And>s. P s \<Longrightarrow> \<exists>r. m s = Some r \<and> good Q H r"
  shows "spec P m Q H"
  using assms by (fastforce simp: spec_def)

lemma specE:
  assumes "spec P m Q H" and "P s"
  obtains r where "m s = Some r" and "good Q H r"
  using assms by (force simp: spec_def split: option.splits)

lemma keepsI:
  assumes "\<And>s. I s \<Longrightarrow> \<exists>r. m s = Some r \<and> good (\<lambda>_. I) I r"
  shows "keeps I m"
  using assms by (simp add: keeps_def specI)

lemma keepsE:
  assumes "keeps I m" and "I s"
  obtains (Ok) a t where "m s = Some (Ok a t)" and "I t"
    | (Halt) t where "m s = Some (Halt t)" and "I t"
    | (Wait) t where "m s = Some (Wait t)" and "I t"
proof -
  from assms obtain r where "m s = Some r" and "good (\<lambda>_. I) I r"
    by (auto simp: keeps_def elim: specE)
  then show thesis by (cases r) (auto intro: that)
qed

lemma keeps_OkD: "keeps I m \<Longrightarrow> I s \<Longrightarrow> m s = Some (Ok a t) \<Longrightarrow> I t"
  by (fastforce elim: keepsE)

lemma spec_bind:
  assumes "spec P m R H" and "\<And>a. spec (R a) (k a) Q H"
  shows "spec P (bind m k) Q H"
proof (rule specI)
  fix s assume "P s"
  with assms(1) obtain r where r: "m s = Some r" "good R H r" by (rule specE)
  show "\<exists>r. bind m k s = Some r \<and> good Q H r"
  proof (cases r)
    case (Ok a t)
    with r have "R a t" by simp
    with assms(2) obtain r' where "k a t = Some r'" "good Q H r'" by (rule specE)
    with Ok r show ?thesis by (simp add: bind_run)
  qed (use r in \<open>simp_all add: bind_run\<close>)
qed

lemma spec_conseq:
  assumes "spec P m Q H"
    and "\<And>s. P' s \<Longrightarrow> P s" and "\<And>a s. Q a s \<Longrightarrow> Q' a s" and "\<And>s. H s \<Longrightarrow> H' s"
  shows "spec P' m Q' H'"
proof (rule specI)
  fix s assume "P' s"
  then have "P s" by (rule assms(2))
  with assms(1) obtain r where "m s = Some r" "good Q H r" by (rule specE)
  then show "\<exists>r. m s = Some r \<and> good Q' H' r"
    by (cases r) (auto intro: assms(3,4))
qed

lemma spec_seq_Cons: "spec P m (\<lambda>_. R) H \<Longrightarrow> spec R (seq ms) Q H \<Longrightarrow> spec P (seq (m # ms)) Q H"
  by (simp add: spec_bind)

lemma spec_seq_keeps: "keeps P m \<Longrightarrow> (\<And>s. P s \<Longrightarrow> H s) \<Longrightarrow> spec P (seq ms) Q H \<Longrightarrow> spec P (seq (m # ms)) Q H"
  unfolding keeps_def by (rule spec_seq_Cons) (auto elim: spec_conseq)

lemma spec_if: "(c \<Longrightarrow> spec P m Q H) \<Longrightarrow> (\<not> c \<Longrightarrow> spec P k Q H) \<Longrightarrow> spec P (if c then m else k) Q H"
  by simp

lemma spec_modify: "(\<And>s. P s \<Longrightarrow> Q () (f s)) \<Longrightarrow> spec P (modify f) Q H"
  by (rule specI) (simp add: modify_run)

lemma spec_skip: "(\<And>s. P s \<Longrightarrow> Q () s) \<Longrightarrow> spec P skip Q H"
  by (rule specI) (simp add: skip_run)

lemma spec_halt: "(\<And>s. P s \<Longrightarrow> H s) \<Longrightarrow> spec P halt Q H"
  by (rule specI) (simp add: halt_run)

lemma keeps_weaken: "keeps P m \<Longrightarrow> (\<And>s. P s \<Longrightarrow> H s) \<Longrightarrow> spec P m (\<lambda>_. P) H"
  unfolding keeps_def by (auto elim: spec_conseq)

lemma keeps_bind [keeps_intros]:
  assumes "keeps I m" and "\<And>a. keeps I (k a)"
  shows "keeps I (bind m k)"
  using assms by (auto simp: keeps_def intro: spec_bind)

lemma keeps_ret [keeps_intros]: "keeps I (ret a)"
  by (rule keepsI) (simp add: ret_run)

lemma keeps_skip [keeps_intros]: "keeps I skip"
  by (simp add: skip_def keeps_ret)

lemma keeps_gets [keeps_intros]: "keeps I (gets f)"
  by (rule keepsI) (simp add: gets_run)

lemma keeps_halt [keeps_intros]: "keeps I halt"
  by (rule keepsI) (simp add: halt_run)

lemma keeps_modify [keeps_intros]: "(\<And>s. I s \<Longrightarrow> I (f s)) \<Longrightarrow> keeps I (modify f)"
  by (rule keepsI) (simp add: modify_run)

lemma keeps_if [keeps_intros]:
  "(c \<Longrightarrow> keeps I m) \<Longrightarrow> (\<not> c \<Longrightarrow> keeps I k) \<Longrightarrow> keeps I (if c then m else k)"
  by simp

lemma keeps_branch [keeps_intros]:
  "keeps I m \<Longrightarrow> keeps I k \<Longrightarrow> keeps I (branch c m k)"
  by (simp add: keeps_def spec_def branch_def)

lemma keeps_seq_Nil [keeps_intros]: "keeps I (seq [])"
  by (simp add: keeps_skip)

lemma keeps_seq_Cons [keeps_intros]: "keeps I m \<Longrightarrow> keeps I (seq ms) \<Longrightarrow> keeps I (seq (m # ms))"
  by (simp add: keeps_bind)

lemma keeps_for_each [keeps_intros]:
  "(\<And>x. x \<in> set xs \<Longrightarrow> keeps I (f x)) \<Longrightarrow> keeps I (for_each xs f)"
  by (induction xs) (auto intro: keeps_intros)

lemma keeps_for_word [keeps_intros]:
  fixes i n :: "'w::len word"
  assumes f: "\<And>x. i \<le> x \<Longrightarrow> x < n \<Longrightarrow> keeps I (f x)"
  shows "keeps I (for_word i n f)"
proof (unfold for_word_for_each, rule keeps_for_each)
  fix x :: "'w word" assume "x \<in> set (map word_of_nat [unat i..<unat n])"
  then obtain k where k: "x = word_of_nat k" "unat i \<le> k" "k < unat n" by auto
  have "k < 2 ^ LENGTH('w)"
    using k(3) unsigned_less [of n] by (rule less_trans)
  then have "unat x = k" using k(1) by (simp add: unat_of_nat)
  then show "keeps I (f x)" using k by (intro f) (simp_all add: word_le_nat_alt word_less_nat_alt)
qed

section \<open>Programs that stop\<close>

text \<open>\<open>stops m\<close>: from no state does \<open>m\<close> run forever.\<close>

definition stops :: "('a, 's) prog \<Rightarrow> bool" where
  "stops m \<longleftrightarrow> (\<forall>s. m s \<noteq> None)"

lemma bind_stops_at:
  "m s \<noteq> None \<Longrightarrow> (\<And>a t. m s = Some (Ok a t) \<Longrightarrow> k a t \<noteq> None) \<Longrightarrow> bind m k s \<noteq> None"
  by (auto simp: bind_run split: outcome.split)

lemma stops_bind [stops_intros]:
  assumes "stops m" and "\<And>a. stops (k a)"
  shows "stops (bind m k)"
  unfolding stops_def
proof
  fix s
  have "m t \<noteq> None" and "k a t \<noteq> None" for a t
    using assms unfolding stops_def by blast+
  then show "bind m k s \<noteq> None"
    by (intro bind_stops_at)
qed

lemma stops_ret [stops_intros]: "stops (ret a)"
  by (simp add: stops_def ret_run)

lemma stops_skip [stops_intros]: "stops skip"
  by (simp add: stops_def skip_run)

lemma stops_gets [stops_intros]: "stops (gets f)"
  by (simp add: stops_def gets_run)

lemma stops_modify [stops_intros]: "stops (modify f)"
  by (simp add: stops_def modify_run)

lemma stops_undef [stops_intros]: "stops undef"
  by (simp add: stops_def undef_run)

lemma stops_if [stops_intros]: "(c \<Longrightarrow> stops m) \<Longrightarrow> (\<not> c \<Longrightarrow> stops k) \<Longrightarrow> stops (if c then m else k)"
  by simp

lemma stops_branch [stops_intros]: "stops m \<Longrightarrow> stops k \<Longrightarrow> stops (branch c m k)"
  by (simp add: stops_def branch_run)

lemma stops_seq_Nil [stops_intros]: "stops (seq [])"
  by (simp add: stops_skip)

lemma stops_seq_Cons [stops_intros]: "stops m \<Longrightarrow> stops (seq ms) \<Longrightarrow> stops (seq (m # ms))"
  by (simp add: stops_bind)

lemma stops_for_each [stops_intros]: "(\<And>x. x \<in> set xs \<Longrightarrow> stops (f x)) \<Longrightarrow> stops (for_each xs f)"
  by (induction xs) (auto intro: stops_intros)

section \<open>Frames\<close>

text \<open>
  \<open>unchanged f m\<close>: whatever the outcome of \<open>m\<close>, the part \<open>f\<close> of the state is the one it
  started with.
\<close>

fun leaves :: "('s \<Rightarrow> 'f) \<Rightarrow> 's \<Rightarrow> ('a, 's) outcome \<Rightarrow> bool" where
  "leaves f s (Ok a t) = (f t = f s)"
| "leaves f s (Halt t) = (f t = f s)"
| "leaves f s (Wait t) = (f t = f s)"
| "leaves f s (Trap v t) = (f t = f s)"
| "leaves f s Undef = True"

definition unchanged :: "('s \<Rightarrow> 'f) \<Rightarrow> ('a, 's) prog \<Rightarrow> bool" where
  "unchanged f m \<longleftrightarrow> (\<forall>s r. m s = Some r \<longrightarrow> leaves f s r)"

lemma unchangedI: "(\<And>s r. m s = Some r \<Longrightarrow> leaves f s r) \<Longrightarrow> unchanged f m"
  by (simp add: unchanged_def)

lemma unchangedD: "unchanged f m \<Longrightarrow> m s = Some r \<Longrightarrow> leaves f s r"
  by (simp add: unchanged_def)

lemma unchanged_OkD: "unchanged f m \<Longrightarrow> m s = Some (Ok a t) \<Longrightarrow> f t = f s"
  by (fastforce simp: unchanged_def)

lemma leaves_trans: "f t = f s \<Longrightarrow> leaves f t r = leaves f s r"
  by (cases r) simp_all

lemma leaves_bind:
  assumes "bind m k s = Some r" and "\<And>r. m s = Some r \<Longrightarrow> leaves f s r"
    and "\<And>a t r. k a t = Some r \<Longrightarrow> leaves f t r"
  shows "leaves f s r"
proof -
  from assms(1) obtain r' where r': "m s = Some r'" by (auto simp: bind_run split: option.splits)
  show ?thesis
  proof (cases r')
    case (Ok a t)
    with r' assms have "k a t = Some r" "f t = f s" by (auto simp: bind_run)
    with assms(3) leaves_trans show ?thesis by metis
  qed (use r' assms(1) assms(2) [OF r'] in \<open>auto simp: bind_run\<close>)
qed

lemma unchanged_comp:
  assumes "unchanged f m"
  shows "unchanged (\<lambda>s. h (f s)) m"
proof (rule unchangedI)
  fix s r assume "m s = Some r"
  with assms have "leaves f s r" by (rule unchangedD)
  then show "leaves (\<lambda>s. h (f s)) s r" by (cases r) simp_all
qed

text \<open>What a program leaves alone may be added to an invariant it keeps.\<close>

lemma spec_unchanged:
  assumes "spec P m Q H" and "unchanged J m"
  shows "spec (\<lambda>s. P s \<and> J s) m (\<lambda>a s. Q a s \<and> J s) (\<lambda>s. H s \<and> J s)"
proof (rule specI)
  fix s assume s: "P s \<and> J s"
  with assms(1) obtain r where r: "m s = Some r" "good Q H r" by (blast elim: specE)
  moreover from assms(2) r(1) have "leaves J s r" by (rule unchangedD)
  ultimately show "\<exists>r. m s = Some r \<and> good (\<lambda>a s. Q a s \<and> J s) (\<lambda>s. H s \<and> J s) r"
    using s by (cases r) auto
qed

lemma keeps_unchanged: "keeps I m \<Longrightarrow> unchanged J m \<Longrightarrow> keeps (\<lambda>s. I s \<and> J s) m"
  unfolding keeps_def by (rule spec_unchanged)

lemma keeps_branch_cond:
  assumes "keeps (\<lambda>s. I s \<and> c s) m" and "keeps (\<lambda>s. I s \<and> \<not> c s) k"
  shows "keeps I (branch c m k)"
proof (rule keepsI)
  fix s assume "I s"
  then show "\<exists>r. branch c m k s = Some r \<and> good (\<lambda>_. I) I r"
    using assms by (cases "c s") (fastforce simp: branch_run elim: keepsE [of _ _ s])+
qed

lemma keeps_cong: "(\<And>s. I s = J s) \<Longrightarrow> keeps I m = keeps J m"
  by (simp add: ext [of I J])

text \<open>A test that the branches do not disturb may be done once for a whole block.\<close>

lemma branch_bind:
  assumes m: "unchanged c m" and k: "unchanged c k"
  shows "bind (branch c m k) (\<lambda>a. branch c (m' a) (k' a)) = branch c (bind m m') (bind k k')"
proof
  fix s
  show "bind (branch c m k) (\<lambda>a. branch c (m' a) (k' a)) s = branch c (bind m m') (bind k k') s"
  proof (cases "c s")
    case True
    then have "bind (branch c m k) (\<lambda>a. branch c (m' a) (k' a)) s = bind m (\<lambda>a. branch c (m' a) (k' a)) s"
      by (simp add: bind_def branch_def)
    also have "\<dots> = bind m m' s"
    proof (rule bind_cong)
      fix a u assume "m s = Some (Ok a u)"
      then have "c u = c s" by (rule unchanged_OkD [OF m])
      with True show "branch c (m' a) (k' a) u = m' a u" by (simp add: branch_def)
    qed
    finally show ?thesis using True by (simp add: branch_def)
  next
    case False
    then have "bind (branch c m k) (\<lambda>a. branch c (m' a) (k' a)) s = bind k (\<lambda>a. branch c (m' a) (k' a)) s"
      by (simp add: bind_def branch_def)
    also have "\<dots> = bind k k' s"
    proof (rule bind_cong)
      fix a u assume "k s = Some (Ok a u)"
      then have "c u = c s" by (rule unchanged_OkD [OF k])
      with False show "branch c (m' a) (k' a) u = k' a u" by (simp add: branch_def)
    qed
    finally show ?thesis using False by (simp add: branch_def)
  qed
qed

lemma branch_same [simp]: "branch c m m = m"
  by (simp add: branch_def fun_eq_iff)

lemma for_each_branch:
  assumes m: "\<And>x. unchanged c (m x)" and k: "\<And>x. unchanged c (k x)"
  shows "for_each xs (\<lambda>x. branch c (m x) (k x)) = branch c (for_each xs m) (for_each xs k)"
  by (induction xs) (simp_all add: branch_bind [OF m k])

lemma unchanged_bind [unchanged_intros]:
  "unchanged f m \<Longrightarrow> (\<And>a. unchanged f (k a)) \<Longrightarrow> unchanged f (bind m k)"
  by (rule unchangedI, erule leaves_bind) (blast intro: unchangedD)+

lemma unchanged_ret [unchanged_intros]: "unchanged f (ret a)"
  by (auto simp: unchanged_def ret_run)

lemma unchanged_skip [unchanged_intros]: "unchanged f skip"
  by (simp add: skip_def unchanged_ret)

lemma unchanged_gets [unchanged_intros]: "unchanged f (gets g)"
  by (auto simp: unchanged_def gets_run)

lemma unchanged_halt [unchanged_intros]: "unchanged f halt"
  by (auto simp: unchanged_def halt_run)

lemma unchanged_undef [unchanged_intros]: "unchanged f undef"
  by (auto simp: unchanged_def undef_run)

lemma unchanged_modify [unchanged_intros]: "(\<And>s. f (g s) = f s) \<Longrightarrow> unchanged f (modify g)"
  by (auto simp: unchanged_def modify_run)

lemma unchanged_if [unchanged_intros]:
  "(c \<Longrightarrow> unchanged f m) \<Longrightarrow> (\<not> c \<Longrightarrow> unchanged f k) \<Longrightarrow> unchanged f (if c then m else k)"
  by simp

lemma unchanged_branch [unchanged_intros]:
  "unchanged f m \<Longrightarrow> unchanged f k \<Longrightarrow> unchanged f (branch c m k)"
  by (auto simp: unchanged_def branch_run)

lemma unchanged_case_prod [unchanged_intros]:
  "(\<And>a b. p = (a, b) \<Longrightarrow> unchanged f (m a b)) \<Longrightarrow> unchanged f (case p of (a, b) \<Rightarrow> m a b)"
  by (cases p) simp

lemma unchanged_seq_Nil [unchanged_intros]: "unchanged f (seq [])"
  by (simp add: unchanged_skip)

lemma unchanged_seq_Cons [unchanged_intros]:
  "unchanged f m \<Longrightarrow> unchanged f (seq ms) \<Longrightarrow> unchanged f (seq (m # ms))"
  by (simp add: unchanged_bind)

lemma unchanged_for_each [unchanged_intros]:
  "(\<And>x. x \<in> set xs \<Longrightarrow> unchanged f (g x)) \<Longrightarrow> unchanged f (for_each xs g)"
  by (induction xs) (auto intro: unchanged_intros)

lemma unchanged_for_word [unchanged_intros]:
  "(\<And>x. unchanged f (g x)) \<Longrightarrow> unchanged f (for_word i n g)"
  by (simp add: for_word_for_each unchanged_for_each)

end
