(* ===== verification/Hw.thy ===== *)
theory Hw imports Outcome begin

text \<open>
  The machine the code runs on: identity-mapped memory, I/O ports and the interrupt flag,
  with the inline assembly of the drivers (\<open>inb\<close>, \<open>outb\<close>, \<open>hlt\<close>, \<open>cli\<close>, \<open>sti\<close>) as
  operations. Every later state record extends this one with the static variables of its
  translation unit, so an operation here runs on the state of every component.
\<close>

section \<open>State\<close>

text \<open>
  \<open>port_in\<close> is the script of the devices: the bytes the next reads of each port will
  deliver. A read past the end of a script is a wait that does not end. \<open>port_out\<close> is the
  trace of the bytes written to the ports, oldest first. \<open>resident\<close> tells the addresses where
  the linker and the loader put the code, the stack and the static variables of the kernel and
  of the shell: the state has these variables in its other fields, so \<open>mem\<close> is not their value.
\<close>

record hw =
  mem :: memory
  port_in :: "u16 \<Rightarrow> u8 list"
  port_out :: "(u16 \<times> u8) list"
  intr_enabled :: bool
  resident :: "u64 \<Rightarrow> bool"

definition outb :: "u16 \<Rightarrow> u8 \<Rightarrow> (unit, 'z hw_scheme) prog" where
  "outb port v = modify (\<lambda>s. s\<lparr>port_out := port_out s @ [(port, v)]\<rparr>)"

definition inb :: "u16 \<Rightarrow> (u8, 'z hw_scheme) prog" where
  "inb port s = (case port_in s port of
       [] \<Rightarrow> Some (Wait s)
     | v # vs \<Rightarrow> Some (Ok v (s\<lparr>port_in := (port_in s)(port := vs)\<rparr>)))"

definition hal_cpu_halt :: "('a, 'z hw_scheme) prog" where
  "hal_cpu_halt = halt"

definition hal_cpu_disable_interrupts :: "(unit, 'z hw_scheme) prog" where
  "hal_cpu_disable_interrupts = modify (\<lambda>s. s\<lparr>intr_enabled := False\<rparr>)"

definition hal_cpu_enable_interrupts :: "(unit, 'z hw_scheme) prog" where
  "hal_cpu_enable_interrupts = modify (\<lambda>s. s\<lparr>intr_enabled := True\<rparr>)"

text \<open>\<open>while (!(inb(port) & mask));\<close>, the poll of every driver.\<close>

partial_function (option) poll :: "u16 \<Rightarrow> u8 \<Rightarrow> (unit, 'z hw_scheme) prog" where
  "poll port bits s = bind (inb port) (\<lambda>v. if v AND bits = 0 then poll port bits else skip) s"

section \<open>Memory\<close>

text \<open>
  \<open>boot.S\<close> maps 64 huge pages of 2 MB, virtual to the same physical address: the first
  128 MB. An access beyond them is a page fault, vector 14, or a general protection fault,
  vector 13, when it touches an address that is not canonical (bits 63 to 47 not all equal).
\<close>

definition MAP_LIMIT :: u64 where
  "MAP_LIMIT = 0x8000000"

definition canonical :: "u64 \<Rightarrow> bool" where
  "canonical a \<longleftrightarrow> a < 0x800000000000 \<or> 0xFFFF800000000000 \<le> a"

definition fault_vector :: "u64 \<Rightarrow> nat \<Rightarrow> u64" where
  "fault_vector a n = (if canonical a \<and> canonical (a + of_nat n - 1) then 14 else 13)"

definition load8 :: "u64 \<Rightarrow> (u8, 'z hw_scheme) prog" where
  "load8 a s = (if a < MAP_LIMIT then Some (Ok (mem s a) s) else Some (Trap (fault_vector a 1) s))"

definition store8 :: "u64 \<Rightarrow> u8 \<Rightarrow> (unit, 'z hw_scheme) prog" where
  "store8 a v s = (if a < MAP_LIMIT then Some (Ok () (s\<lparr>mem := (mem s)(a := v)\<rparr>))
     else Some (Trap (fault_vector a 1) s))"

text \<open>A load of an \<open>n\<close>-byte field (a packed, little-endian struct member).\<close>

definition mapped :: "u64 \<Rightarrow> nat \<Rightarrow> bool" where
  "mapped a n \<longleftrightarrow> unat a + n \<le> unat MAP_LIMIT"

definition load :: "nat \<Rightarrow> u64 \<Rightarrow> (u64, 'z hw_scheme) prog" where
  "load n a s = (if mapped a n then Some (Ok (read_le (mem s) a n) s) else Some (Trap (fault_vector a n) s))"

section \<open>C strings\<close>

text \<open>
  A \<open>const char *\<close> points into a literal, a local buffer or a static array (\<open>Lit\<close>: the
  bytes from the pointer on, the terminator after the last) or into memory (\<open>Ptr\<close>).
\<close>

datatype cstr = Lit "u8 list" | Ptr u64

fun deref :: "cstr \<Rightarrow> (u8, 'z hw_scheme) prog" where
  "deref (Lit []) = ret 0"
| "deref (Lit (c # cs)) = ret c"
| "deref (Ptr p) = load8 p"

fun adv :: "cstr \<Rightarrow> cstr" where
  "adv (Lit cs) = Lit (tl cs)"
| "adv (Ptr p) = Ptr (p + 1)"

abbreviation str :: "string \<Rightarrow> cstr" where
  "str s \<equiv> Lit (lit s)"

text \<open>\<open>while (*str) putchar(*str++);\<close>, the print loop of both consoles.\<close>

partial_function (option) put_string ::
  "(u8 \<Rightarrow> (unit, 'z hw_scheme) prog) \<Rightarrow> cstr \<Rightarrow> (unit, 'z hw_scheme) prog" where
  "put_string put c s = bind (deref c) (\<lambda>x. if x = 0 then skip
     else bind (put x) (\<lambda>_. put_string put (adv c))) s"

text \<open>\<open>str_eq\<close> of \<open>kernel/modules.c\<close>, and the same text in \<open>command_kern/main.c\<close>.\<close>

partial_function (option) str_eq :: "cstr \<Rightarrow> cstr \<Rightarrow> (bool, 'z hw_scheme) prog" where
  "str_eq a b s = bind (deref a) (\<lambda>x. bind (deref b) (\<lambda>y.
     if x \<noteq> 0 \<and> y \<noteq> 0 then (if x \<noteq> y then ret False else str_eq (adv a) (adv b))
     else ret (x = y))) s"

text \<open>The abstract value of a C string: the bytes up to a terminator, all of them mapped.\<close>

fun peek :: "memory \<Rightarrow> cstr \<Rightarrow> u8 option" where
  "peek m (Lit []) = Some 0"
| "peek m (Lit (c # cs)) = Some c"
| "peek m (Ptr p) = (if p < MAP_LIMIT then Some (m p) else None)"

fun denotes :: "memory \<Rightarrow> cstr \<Rightarrow> u8 list \<Rightarrow> bool" where
  "denotes m c [] = (peek m c = Some 0)"
| "denotes m c (x # xs) = (x \<noteq> 0 \<and> peek m c = Some x \<and> denotes m (adv c) xs)"

section \<open>Running the hardware\<close>

lemma outb_run [run_simps]: "outb port v s = Some (Ok () (s\<lparr>port_out := port_out s @ [(port, v)]\<rparr>))"
  by (simp add: outb_def modify_run)

lemma hal_cpu_halt_run [run_simps]: "hal_cpu_halt s = Some (Halt s)"
  by (simp add: hal_cpu_halt_def halt_run)

lemma hal_cpu_disable_interrupts_run [run_simps]:
  "hal_cpu_disable_interrupts s = Some (Ok () (s\<lparr>intr_enabled := False\<rparr>))"
  by (simp add: hal_cpu_disable_interrupts_def modify_run)

lemma inb_Cons: "port_in s port = v # vs \<Longrightarrow>
    inb port s = Some (Ok v (s\<lparr>port_in := (port_in s)(port := vs)\<rparr>))"
  by (simp add: inb_def)

lemma inb_Nil: "port_in s port = [] \<Longrightarrow> inb port s = Some (Wait s)"
  by (simp add: inb_def)

text \<open>
  A poll drops the reads of the script where the bit is clear and the one where it is set;
  it never runs forever on a script, it waits at most.
\<close>

definition poll_result :: "u16 \<Rightarrow> u8 \<Rightarrow> 'z hw_scheme \<Rightarrow> (unit, 'z hw_scheme) outcome" where
  "poll_result port bits s = (case dropWhile (\<lambda>v. v AND bits = 0) (port_in s port) of
       [] \<Rightarrow> Wait (s\<lparr>port_in := (port_in s)(port := [])\<rparr>)
     | v # vs \<Rightarrow> Ok () (s\<lparr>port_in := (port_in s)(port := vs)\<rparr>))"

lemma poll_run [run_simps]: "poll port bits s = Some (poll_result port bits s)"
proof (induction "port_in s port" arbitrary: s)
  case Nil
  then have "s\<lparr>port_in := (port_in s)(port := [])\<rparr> = s"
    by (metis (no_types) fun_upd_triv hw.surjective hw.update_convs(2))
  with Nil show ?case
    by (subst poll.simps) (simp add: bind_run inb_Nil poll_result_def)
next
  case (Cons v vs)
  show ?case
  proof (cases "v AND bits = 0")
    case True
    with Cons show ?thesis
      by (subst poll.simps) (simp add: bind_run inb_Cons [OF Cons.hyps(2) [symmetric]]
          poll_result_def Cons.hyps(2) [symmetric] del: dropWhile_eq_Nil_conv split: list.split)
  next
    case False
    with Cons.hyps(2) show ?thesis
      by (subst poll.simps) (simp add: bind_run inb_Cons [OF Cons.hyps(2) [symmetric]]
          poll_result_def skip_run Cons.hyps(2) [symmetric])
  qed
qed

lemma poll_ready:
  assumes "port_in s port = v # vs" and "v AND bits \<noteq> 0"
  shows "poll port bits s = Some (Ok () (s\<lparr>port_in := (port_in s)(port := vs)\<rparr>))"
  using assms by (simp add: poll_run poll_result_def)

lemma load8_run: "a < MAP_LIMIT \<Longrightarrow> load8 a s = Some (Ok (mem s a) s)"
  by (simp add: load8_def)

lemma store8_run: "a < MAP_LIMIT \<Longrightarrow> store8 a v s = Some (Ok () (s\<lparr>mem := (mem s)(a := v)\<rparr>))"
  by (simp add: store8_def)

lemma load_run: "mapped a n \<Longrightarrow> load n a s = Some (Ok (read_le (mem s) a n) s)"
  by (simp add: load_def)

lemma mapped_less: "mapped a n \<Longrightarrow> k \<le> n \<Longrightarrow> mapped a k"
  by (simp add: mapped_def)

lemma mapped_offset: "mapped a n \<Longrightarrow> k + i \<le> n \<Longrightarrow> mapped (a + of_nat i) k"
proof -
  assume a: "mapped a n" and k: "k + i \<le> n"
  then have "unat a + i \<le> unat MAP_LIMIT" by (simp add: mapped_def)
  then have "unat (a + of_nat i) = unat a + i"
    by (simp add: unat_word_ariths MAP_LIMIT_def unat_of_nat)
  with a k show ?thesis by (simp add: mapped_def)
qed

text \<open>A field is the same wherever its bytes are.\<close>

lemma read_le_cong:
  "(\<And>i. i < n \<Longrightarrow> m (a + of_nat i) = m' (a + of_nat i)) \<Longrightarrow> read_le m a n = read_le m' a n"
proof (induction n arbitrary: a)
  case (Suc n)
  have "read_le m (a + 1) n = read_le m' (a + 1) n"
    using Suc.prems [of "Suc i" for i] by (intro Suc.IH) (simp add: ac_simps)
  with Suc.prems [of 0] show ?case by simp
qed simp

text \<open>The exception of a dereference, which only a pointer into memory can raise.\<close>

fun deref_fault :: "cstr \<Rightarrow> u64" where
  "deref_fault (Ptr p) = fault_vector p 1"
| "deref_fault (Lit cs) = 14"

lemma deref_run: "deref c s = (case peek (mem s) c of
    Some x \<Rightarrow> Some (Ok x s) | None \<Rightarrow> Some (Trap (deref_fault c) s))"
  by (cases c rule: deref.cases) (auto simp: ret_run load8_def)

lemma denotes_peek: "denotes m c xs \<Longrightarrow> peek m c = Some (case xs of [] \<Rightarrow> 0 | x # _ \<Rightarrow> x)"
  by (cases xs) simp_all

lemma denotes_Lit: "0 \<notin> set xs \<Longrightarrow> denotes m (Lit xs) xs"
  by (induction xs) auto

lemma denotes_Lit_zero: "0 \<notin> set xs \<Longrightarrow> denotes m (Lit (xs @ 0 # ys)) xs"
  by (induction xs) auto

lemma denotes_unique: "denotes m c xs \<Longrightarrow> denotes m c ys \<Longrightarrow> xs = ys"
proof (induction xs arbitrary: c ys)
  case Nil
  then show ?case by (cases ys) auto
next
  case (Cons x xs)
  then show ?case by (cases ys) auto
qed

lemma denotes_no_zero: "denotes m c xs \<Longrightarrow> 0 \<notin> set xs"
  by (induction xs arbitrary: c) auto

text \<open>Printing a string puts its characters one by one, whatever the output device.\<close>

lemma put_string_run:
  assumes "denotes (mem s) c xs"
    and put: "\<And>x. unchanged mem (put x)"
  shows "put_string put c s = for_each xs put s"
  using assms(1)
proof (induction xs arbitrary: c s)
  case Nil
  then show ?case by (subst put_string.simps) (simp add: bind_run deref_run)
next
  case (Cons x xs)
  have "put_string put c s = bind (put x) (\<lambda>_. put_string put (adv c)) s"
    using Cons.prems by (subst put_string.simps) (simp add: bind_def deref_run)
  also have "\<dots> = bind (put x) (\<lambda>_. for_each xs put) s"
  proof (rule bind_cong)
    fix a u assume "put x s = Some (Ok a u)"
    then have "mem u = mem s" by (rule unchanged_OkD [OF put])
    with Cons.prems have "denotes (mem u) (adv c) xs" by simp
    then show "put_string put (adv c) u = for_each xs put u" by (rule Cons.IH)
  qed
  finally show ?case by simp
qed

lemma str_eq_run:
  assumes "denotes (mem s) a xs" and "denotes (mem s) b ys"
  shows "str_eq a b s = Some (Ok (xs = ys) s)"
  using assms
proof (induction xs arbitrary: a b ys)
  case Nil
  then show ?case
    by (subst str_eq.simps) (auto simp: bind_run deref_run ret_run denotes_peek split: list.splits)
next
  case (Cons x xs)
  show ?case
  proof (cases ys)
    case Nil
    with Cons.prems show ?thesis
      by (subst str_eq.simps) (auto simp: bind_run deref_run ret_run)
  next
    case (Cons y ys')
    with Cons.prems have "denotes (mem s) (adv a) xs" "denotes (mem s) (adv b) ys'" by simp_all
    with Cons.IH have "str_eq (adv a) (adv b) s = Some (Ok (xs = ys') s)" by blast
    with Cons Cons.prems show ?thesis
      by (subst str_eq.simps) (auto simp: bind_run deref_run ret_run)
  qed
qed

section \<open>Contracts\<close>

lemma keeps_outb [keeps_intros]:
  "(\<And>s. I s \<Longrightarrow> I (s\<lparr>port_out := port_out s @ [(port, v)]\<rparr>)) \<Longrightarrow> keeps I (outb port v)"
  by (rule keepsI) (simp add: outb_run)

lemma keeps_hal_cpu_halt [keeps_intros]: "keeps I hal_cpu_halt"
  by (simp add: hal_cpu_halt_def keeps_halt)

lemma keeps_inb:
  assumes "\<And>s vs. I s \<Longrightarrow> I (s\<lparr>port_in := (port_in s)(port := vs)\<rparr>)"
  shows "keeps I (inb port)"
  by (rule keepsI) (auto simp: inb_def assms split: list.splits)

lemma keeps_poll:
  assumes "\<And>s vs. I s \<Longrightarrow> I (s\<lparr>port_in := (port_in s)(port := vs)\<rparr>)"
  shows "keeps I (poll port bits)"
  by (rule keepsI) (auto simp: poll_run poll_result_def assms split: list.splits)

lemma stops_load8 [stops_intros]: "stops (load8 a)"
  by (simp add: stops_def load8_def)

lemma stops_store8 [stops_intros]: "stops (store8 a v)"
  by (simp add: stops_def store8_def)

lemma stops_load [stops_intros]: "stops (load n a)"
  by (simp add: stops_def load_def)

lemma stops_poll [stops_intros]: "stops (poll port bits)"
  by (simp add: stops_def poll_run)

section \<open>Frames\<close>

lemma unchanged_outb [unchanged_intros]:
  "(\<And>s x. f (s\<lparr>port_out := x\<rparr>) = f s) \<Longrightarrow> unchanged f (outb port v)"
  by (simp add: outb_def unchanged_modify)

lemma unchanged_inb [unchanged_intros]:
  "(\<And>s x. f (s\<lparr>port_in := (port_in s)(port := x)\<rparr>) = f s) \<Longrightarrow> unchanged f (inb port)"
  by (auto simp: unchanged_def inb_def split: list.splits)

lemma unchanged_poll [unchanged_intros]:
  "(\<And>s x. f (s\<lparr>port_in := (port_in s)(port := x)\<rparr>) = f s) \<Longrightarrow> unchanged f (poll port bits)"
  by (auto simp: unchanged_def poll_run poll_result_def split: list.splits)

lemma unchanged_load8 [unchanged_intros]: "unchanged f (load8 a)"
  by (auto simp: unchanged_def load8_def)

lemma unchanged_load [unchanged_intros]: "unchanged f (load n a)"
  by (auto simp: unchanged_def load_def)

lemma unchanged_store8 [unchanged_intros]:
  "(\<And>s x. f (s\<lparr>mem := x\<rparr>) = f s) \<Longrightarrow> unchanged f (store8 a v)"
  by (auto simp: unchanged_def store8_def)

lemma unchanged_deref [unchanged_intros]: "unchanged f (deref c)"
  by (auto simp: unchanged_def deref_run split: option.splits)

lemma unchanged_hal_cpu_halt [unchanged_intros]: "unchanged f hal_cpu_halt"
  by (simp add: hal_cpu_halt_def unchanged_halt)

lemma unchanged_put_string [unchanged_intros]:
  assumes "\<And>x. unchanged f (put x)"
  shows "unchanged f (put_string put c)"
proof (rule unchangedI)
  fix s r assume ret: "put_string put c s = Some r"
  have "(\<forall>x. unchanged f (put x)) \<longrightarrow> leaves f s r"
  proof (rule put_string.raw_induct [where P = "\<lambda>put c s r. (\<forall>x. unchanged f (put x)) \<longrightarrow> leaves f s r", OF _ ret], rule impI)
    fix rec put c s r
    assume IH: "\<And>put c s r. rec put c s = Some r \<Longrightarrow> (\<forall>x. unchanged f (put x)) \<longrightarrow> leaves f s r"
      and eq: "bind (deref c) (\<lambda>x. if x = 0 then skip else bind (put x) (\<lambda>_. rec put (adv c))) s = Some r"
      and put: "\<forall>x. unchanged f (put x)"
    have rec: "unchanged f (rec put (adv c))"
      using IH put by (blast intro: unchangedI)
    have "unchanged f (bind (deref c) (\<lambda>x. if x = 0 then skip else bind (put x) (\<lambda>_. rec put (adv c))))"
      using put rec by (intro unchanged_intros) blast+
    then show "leaves f s r" using eq by (rule unchangedD)
  qed
  with assms show "leaves f s r" by blast
qed

end
