(* ===== verification/Vga.thy ===== *)
theory Vga imports Hw begin

text \<open>
  The text-mode display driver, \<open>kernel/arch/x86_64/vga.c\<close> with the constants of
  \<open>vga.h\<close>. The page of the display adapter is 2000 cells of 16 bits, kept apart from the
  memory (nothing but this driver points into it). The driver is shown to implement an
  abstract terminal: a grid of cells and a cursor that is always on the grid.
\<close>

section \<open>State and constants\<close>

definition VGA_COLS :: nat where
  "VGA_COLS = 80"

definition VGA_ROWS :: nat where
  "VGA_ROWS = 25"

definition VGA_BUFFER :: u64 where
  "VGA_BUFFER = 0xB8000"

definition VGA_CRTC_ADDR :: u16 where
  "VGA_CRTC_ADDR = 0x3D4"

definition VGA_CRTC_DATA :: u16 where
  "VGA_CRTC_DATA = 0x3D5"

datatype vga_color =
    VGA_BLACK | VGA_BLUE | VGA_GREEN | VGA_CYAN | VGA_RED | VGA_MAGENTA | VGA_BROWN
  | VGA_LIGHT_GREY | VGA_DARK_GREY | VGA_LIGHT_BLUE | VGA_LIGHT_GREEN | VGA_LIGHT_CYAN
  | VGA_LIGHT_RED | VGA_LIGHT_MAGENTA | VGA_YELLOW | VGA_WHITE

primrec color_code :: "vga_color \<Rightarrow> u8" where
  "color_code VGA_BLACK = 0"
| "color_code VGA_BLUE = 1"
| "color_code VGA_GREEN = 2"
| "color_code VGA_CYAN = 3"
| "color_code VGA_RED = 4"
| "color_code VGA_MAGENTA = 5"
| "color_code VGA_BROWN = 6"
| "color_code VGA_LIGHT_GREY = 7"
| "color_code VGA_DARK_GREY = 8"
| "color_code VGA_LIGHT_BLUE = 9"
| "color_code VGA_LIGHT_GREEN = 10"
| "color_code VGA_LIGHT_CYAN = 11"
| "color_code VGA_LIGHT_RED = 12"
| "color_code VGA_LIGHT_MAGENTA = 13"
| "color_code VGA_YELLOW = 14"
| "color_code VGA_WHITE = 15"

text \<open>
  The static variables: the pointer \<open>buffer\<close> (null until \<open>vga_init\<close>), the cursor and the
  colour. \<open>vram\<close> is the page the pointer points to once it is set.
\<close>

record vga = hw +
  vram :: "u16 list"
  buffer :: u64
  cursor_row :: int
  cursor_col :: int
  current_color :: u8

section \<open>Operations\<close>

text \<open>\<open>buffer[i]\<close>, read and written; an index off the page or a null \<open>buffer\<close> is undefined.\<close>

definition on_page :: "int \<Rightarrow> 'z vga_scheme \<Rightarrow> bool" where
  "on_page i s \<longleftrightarrow> buffer s = VGA_BUFFER \<and> 0 \<le> i \<and> nat i < length (vram s)"

definition vga_cell :: "int \<Rightarrow> (u16, 'z vga_scheme) prog" where
  "vga_cell i s = (if on_page i s then Some (Ok (vram s ! nat i) s) else Some Undef)"

definition vga_set_cell :: "int \<Rightarrow> u16 \<Rightarrow> (unit, 'z vga_scheme) prog" where
  "vga_set_cell i v s =
     (if on_page i s then Some (Ok () (s\<lparr>vram := (vram s)[nat i := v]\<rparr>)) else Some Undef)"

definition cursor_pos :: "'z vga_scheme \<Rightarrow> u16" where
  "cursor_pos s = word_of_int (cursor_row s * int VGA_COLS + cursor_col s)"

definition vga_update_cursor :: "(unit, 'z vga_scheme) prog" where
  "vga_update_cursor = bind (gets cursor_pos) (\<lambda>pos. seq [
     outb VGA_CRTC_ADDR 0x0F,
     outb VGA_CRTC_DATA (ucast (pos AND 0xFF)),
     outb VGA_CRTC_ADDR 0x0E,
     outb VGA_CRTC_DATA (ucast (drop_bit 8 pos))])"

definition make_color :: "vga_color \<Rightarrow> vga_color \<Rightarrow> u8" where
  "make_color fg bg = push_bit 4 (color_code bg) OR color_code fg"

text \<open>\<open>(uint16_t)c\<close> widens a signed \<open>char\<close>.\<close>

definition make_entry :: "u8 \<Rightarrow> u8 \<Rightarrow> u16" where
  "make_entry c color = scast c OR push_bit 8 (ucast color)"

definition vga_clear :: "(unit, 'z vga_scheme) prog" where
  "vga_clear = seq [
     for_each [0..<VGA_ROWS] (\<lambda>row. for_each [0..<VGA_COLS] (\<lambda>col.
       bind (gets current_color) (\<lambda>color.
         vga_set_cell (int (row * VGA_COLS + col)) (make_entry 0x20 color)))),
     modify (\<lambda>s. s\<lparr>cursor_row := 0, cursor_col := 0\<rparr>),
     vga_update_cursor]"

definition vga_init :: "(unit, 'z vga_scheme) prog" where
  "vga_init = seq [
     modify (\<lambda>s. s\<lparr>buffer := VGA_BUFFER, cursor_row := 0, cursor_col := 0,
       current_color := make_color VGA_WHITE VGA_BLACK\<rparr>),
     vga_clear]"

definition vga_set_color :: "vga_color \<Rightarrow> vga_color \<Rightarrow> (unit, 'z vga_scheme) prog" where
  "vga_set_color fg bg = modify (\<lambda>s. s\<lparr>current_color := make_color fg bg\<rparr>)"

definition scroll :: "(unit, 'z vga_scheme) prog" where
  "scroll = seq [
     for_each [1..<VGA_ROWS] (\<lambda>row. for_each [0..<VGA_COLS] (\<lambda>col.
       bind (vga_cell (int (row * VGA_COLS + col)))
         (vga_set_cell (int ((row - 1) * VGA_COLS + col))))),
     for_each [0..<VGA_COLS] (\<lambda>col. bind (gets current_color) (\<lambda>color.
       vga_set_cell (int ((VGA_ROWS - 1) * VGA_COLS + col)) (make_entry 0x20 color))),
     modify (\<lambda>s. s\<lparr>cursor_row := int VGA_ROWS - 1\<rparr>)]"

text \<open>\<open>vga_putchar\<close>, after the switch on the character: wrap, scroll, move the cursor.\<close>

definition vga_settle :: "(unit, 'z vga_scheme) prog" where
  "vga_settle = seq [
     branch (\<lambda>s. cursor_col s \<ge> int VGA_COLS)
       (modify (\<lambda>s. s\<lparr>cursor_col := 0, cursor_row := cursor_row s + 1\<rparr>)) skip,
     branch (\<lambda>s. cursor_row s \<ge> int VGA_ROWS) scroll skip,
     vga_update_cursor]"

definition vga_putchar :: "u8 \<Rightarrow> (unit, 'z vga_scheme) prog" where
  "vga_putchar c = seq [
     (if c = 0x0A then modify (\<lambda>s. s\<lparr>cursor_col := 0, cursor_row := cursor_row s + 1\<rparr>)
      else if c = 0x0D then modify (\<lambda>s. s\<lparr>cursor_col := 0\<rparr>)
      else if c = 0x09 then modify (\<lambda>s. s\<lparr>cursor_col := (cursor_col s + 4) AND NOT 3\<rparr>)
      else if c = 0x08 then modify (\<lambda>s.
        if cursor_col s > 0 then s\<lparr>cursor_col := cursor_col s - 1\<rparr>
        else if cursor_row s > 0
          then s\<lparr>cursor_row := cursor_row s - 1, cursor_col := int VGA_COLS - 1\<rparr>
        else s)
      else seq [
        bind (gets (\<lambda>s. (cursor_row s * int VGA_COLS + cursor_col s, current_color s)))
          (\<lambda>(i, color). vga_set_cell i (make_entry c color)),
        modify (\<lambda>s. s\<lparr>cursor_col := cursor_col s + 1\<rparr>)]),
     vga_settle]"

definition vga_print :: "cstr \<Rightarrow> (unit, 'z vga_scheme) prog" where
  "vga_print = put_string vga_putchar"

text \<open>
  The digit buffer of both \<open>print_hex\<close> functions: \<open>buf[15]\<close> down to \<open>buf[0]\<close>, each from
  the low four bits of what is left of the value.
\<close>

definition hex_digit :: "u64 \<Rightarrow> u8" where
  "hex_digit digit = (if digit < 10 then 0x30 + ucast digit else 0x41 + ucast digit - 10)"

fun hex_buf :: "nat \<Rightarrow> u64 \<Rightarrow> u8 list" where
  "hex_buf 0 value = []"
| "hex_buf (Suc i) value = hex_buf i (drop_bit 4 value) @ [hex_digit (value AND 0xF)]"

definition vga_print_hex :: "u64 \<Rightarrow> (unit, 'z vga_scheme) prog" where
  "vga_print_hex value = seq [vga_print (str ''0x''), vga_print (Lit (hex_buf 16 value))]"

section \<open>The loops over cells\<close>

definition vga_inv :: "'z vga_scheme \<Rightarrow> bool" where
  "vga_inv s \<longleftrightarrow> buffer s = VGA_BUFFER \<and> length (vram s) = VGA_ROWS * VGA_COLS
     \<and> 0 \<le> cursor_row s \<and> cursor_row s < int VGA_ROWS
     \<and> 0 \<le> cursor_col s \<and> cursor_col s < int VGA_COLS"

lemma vga_set_cell_run:
  assumes "buffer s = VGA_BUFFER" and "i < length (vram s)"
  shows "vga_set_cell (int i) v s = Some (Ok () (s\<lparr>vram := (vram s)[i := v]\<rparr>))"
  using assms by (simp add: vga_set_cell_def on_page_def)

lemma vga_cell_run:
  assumes "buffer s = VGA_BUFFER" and "i < length (vram s)"
  shows "vga_cell (int i) s = Some (Ok (vram s ! i) s)"
  using assms by (simp add: vga_cell_def on_page_def)

lemma fill_step:
  "b + n < length v \<Longrightarrow> (take b v @ replicate n x @ drop (b + n) v)[b + n := x]
     = take b v @ replicate (Suc n) x @ drop (b + Suc n) v"
  by (simp add: list_update_append Cons_nth_drop_Suc [symmetric] replicate_app_Cons_same)

lemma fill_cells_run:
  assumes "buffer s = VGA_BUFFER" and "b + n \<le> length (vram s)"
  shows "for_each [0..<n] (\<lambda>col. bind (gets current_color) (\<lambda>color.
      vga_set_cell (int (b + col)) (f color))) s
    = Some (Ok () (s\<lparr>vram := take b (vram s) @ replicate n (f (current_color s)) @ drop (b + n) (vram s)\<rparr>))"
proof -
  let ?g = "\<lambda>k. s\<lparr>vram := take b (vram s) @ replicate k (f (current_color s)) @ drop (b + k) (vram s)\<rparr>"
  let ?f = "\<lambda>col. bind (gets current_color) (\<lambda>color. vga_set_cell (int (b + col)) (f color))"
  have "?f k (?g k) = Some (Ok () (?g (Suc k)))" if "k < n" for k
    using that assms fill_step [of b k "vram s" "f (current_color s)"]
    by (simp add: bind_run gets_run vga_set_cell_run del: of_nat_add)
  then have "for_each [0..<n] ?f (?g 0) = Some (Ok () (?g n))"
    by (intro for_each_upt) simp_all
  then show ?thesis by simp
qed

lemma fill_rows_run:
  assumes "buffer s = VGA_BUFFER" and "r * VGA_COLS \<le> length (vram s)"
  shows "for_each [0..<r] (\<lambda>row. for_each [0..<VGA_COLS] (\<lambda>col. bind (gets current_color) (\<lambda>color.
      vga_set_cell (int (row * VGA_COLS + col)) (f color)))) s
    = Some (Ok () (s\<lparr>vram := replicate (r * VGA_COLS) (f (current_color s)) @ drop (r * VGA_COLS) (vram s)\<rparr>))"
proof -
  let ?g = "\<lambda>k. s\<lparr>vram := replicate (k * VGA_COLS) (f (current_color s)) @ drop (k * VGA_COLS) (vram s)\<rparr>"
  let ?f = "\<lambda>row. for_each [0..<VGA_COLS] (\<lambda>col. bind (gets current_color) (\<lambda>color.
      vga_set_cell (int (row * VGA_COLS + col)) (f color)))"
  have "?f k (?g k) = Some (Ok () (?g (Suc k)))" if "k < r" for k
  proof -
    have "Suc k * VGA_COLS \<le> r * VGA_COLS" using that by (intro mult_le_mono1) simp
    then have "k * VGA_COLS + VGA_COLS \<le> length (vram s)" using assms(2) by simp
    then show ?thesis
      using assms(1) by (simp add: fill_cells_run replicate_add add.commute [of VGA_COLS] del: of_nat_add)
  qed
  then have "for_each [0..<r] ?f (?g 0) = Some (Ok () (?g r))"
    by (intro for_each_upt) simp_all
  then show ?thesis by simp
qed

lemma copy_step:
  assumes "d + n < b" and "b + n < length v"
  shows "(take d v @ take n (drop b v) @ drop (d + n) v)[d + n := v ! (b + n)]
     = take d v @ take (Suc n) (drop b v) @ drop (d + Suc n) v"
proof -
  have "drop (d + n) v = v ! (d + n) # drop (d + Suc n) v"
    using assms by (simp add: Cons_nth_drop_Suc)
  moreover have "take (Suc n) (drop b v) = take n (drop b v) @ [v ! (b + n)]"
    using assms by (simp add: take_Suc_conv_app_nth)
  moreover have "length (take n (drop b v)) = n" "length (take d v) = d"
    using assms by simp_all
  ultimately show ?thesis by (simp add: list_update_append)
qed

lemma copy_cells_run:
  assumes "buffer s = VGA_BUFFER" and "d + n \<le> b" and "b + n \<le> length (vram s)"
  shows "for_each [0..<n] (\<lambda>col. bind (vga_cell (int (b + col))) (vga_set_cell (int (d + col)))) s
    = Some (Ok () (s\<lparr>vram := take d (vram s) @ take n (drop b (vram s)) @ drop (d + n) (vram s)\<rparr>))"
proof -
  let ?g = "\<lambda>k. s\<lparr>vram := take d (vram s) @ take k (drop b (vram s)) @ drop (d + k) (vram s)\<rparr>"
  let ?f = "\<lambda>col. bind (vga_cell (int (b + col))) (vga_set_cell (int (d + col)))"
  have "?f k (?g k) = Some (Ok () (?g (Suc k)))" if "k < n" for k
  proof -
    have "(take d (vram s) @ take k (drop b (vram s)) @ drop (d + k) (vram s)) ! (b + k) = vram s ! (b + k)"
      using that assms(2,3) by (auto simp: nth_append min_def)
    then show ?thesis
      using that assms copy_step [of d k b "vram s"]
      by (simp add: bind_run vga_set_cell_run vga_cell_run min_def del: of_nat_add)
  qed
  then have "for_each [0..<n] ?f (?g 0) = Some (Ok () (?g n))"
    by (intro for_each_upt) simp_all
  then show ?thesis by simp
qed

lemma copy_rows_run:
  assumes "buffer s = VGA_BUFFER" and "Suc r * VGA_COLS \<le> length (vram s)"
  shows "for_each [1..<Suc r] (\<lambda>row. for_each [0..<VGA_COLS] (\<lambda>col.
      bind (vga_cell (int (row * VGA_COLS + col)))
        (vga_set_cell (int ((row - 1) * VGA_COLS + col))))) s
    = Some (Ok () (s\<lparr>vram := take (r * VGA_COLS) (drop VGA_COLS (vram s)) @ drop (r * VGA_COLS) (vram s)\<rparr>))"
proof -
  let ?v = "\<lambda>k. take (k * VGA_COLS) (drop VGA_COLS (vram s)) @ drop (k * VGA_COLS) (vram s)"
  let ?f = "\<lambda>row. for_each [0..<VGA_COLS] (\<lambda>col. bind (vga_cell (int (row * VGA_COLS + col)))
        (vga_set_cell (int ((row - 1) * VGA_COLS + col))))"
  have step: "?f (Suc k) (s\<lparr>vram := ?v k\<rparr>) = Some (Ok () (s\<lparr>vram := ?v (Suc k)\<rparr>))" if "k < r" for k
  proof -
    have le: "Suc k * VGA_COLS + VGA_COLS \<le> length (vram s)"
      using mult_le_mono1 [of "Suc (Suc k)" "Suc r" VGA_COLS] that assms(2) by simp
    then have tk: "take (k * VGA_COLS) (?v k) = take (k * VGA_COLS) (drop VGA_COLS (vram s))"
      and dk: "drop (Suc k * VGA_COLS) (?v k) = drop (Suc k * VGA_COLS) (vram s)"
      and len: "length (?v k) = length (vram s)"
      by (auto simp: min_def)
    have "?f (Suc k) (s\<lparr>vram := ?v k\<rparr>) = Some (Ok () (s\<lparr>vram := take (k * VGA_COLS) (?v k)
        @ take VGA_COLS (drop (Suc k * VGA_COLS) (?v k)) @ drop (Suc k * VGA_COLS) (?v k)\<rparr>))"
      using copy_cells_run [of "s\<lparr>vram := ?v k\<rparr>" "k * VGA_COLS" VGA_COLS "Suc k * VGA_COLS"] assms(1) le len
      by (simp add: add.commute)
    also have "take (k * VGA_COLS) (?v k) @ take VGA_COLS (drop (Suc k * VGA_COLS) (?v k))
        @ drop (Suc k * VGA_COLS) (?v k) = ?v (Suc k)"
      unfolding tk dk by (simp add: add.commute [of VGA_COLS] take_add)
    finally show ?thesis .
  qed
  have "?f k (s\<lparr>vram := ?v (k - 1)\<rparr>) = Some (Ok () (s\<lparr>vram := ?v (Suc k - 1)\<rparr>))"
    if "1 \<le> k" "k < Suc r" for k
  proof -
    obtain m where k: "k = Suc m" and m: "m < r" using \<open>1 \<le> k\<close> \<open>k < Suc r\<close> by (cases k) auto
    show ?thesis using step [OF m] unfolding k diff_Suc_1 .
  qed
  then have "for_each [1..<Suc r] ?f (s\<lparr>vram := ?v (1 - 1)\<rparr>) = Some (Ok () (s\<lparr>vram := ?v (Suc r - 1)\<rparr>))"
    by (intro for_each_upt [where g = "\<lambda>k. s\<lparr>vram := ?v (k - 1)\<rparr>"]) (simp, blast)
  then show ?thesis by simp
qed

section \<open>The abstract terminal\<close>

text \<open>
  What the driver promises: a grid of \<open>VGA_ROWS\<close> by \<open>VGA_COLS\<close> cells with a cursor on it.
  \<open>term_put\<close> says what a character does to it, without scrolling loops and without a cursor
  that leaves the grid in between.
\<close>

record terminal =
  cells :: "u16 list"
  row :: nat
  col :: nat
  attr :: u8

definition term_newline :: "terminal \<Rightarrow> terminal" where
  "term_newline t = (if Suc (row t) < VGA_ROWS then t\<lparr>row := Suc (row t), col := 0\<rparr>
     else t\<lparr>cells := drop VGA_COLS (cells t) @ replicate VGA_COLS (make_entry 0x20 (attr t)), col := 0\<rparr>)"

definition term_advance :: "nat \<Rightarrow> terminal \<Rightarrow> terminal" where
  "term_advance c t = (if c < VGA_COLS then t\<lparr>col := c\<rparr> else term_newline t)"

definition term_put :: "u8 \<Rightarrow> terminal \<Rightarrow> terminal" where
  "term_put c t =
     (if c = 0x0A then term_newline t
      else if c = 0x0D then t\<lparr>col := 0\<rparr>
      else if c = 0x09 then term_advance ((col t + 4) div 4 * 4) t
      else if c = 0x08 then
        (if 0 < col t then t\<lparr>col := col t - 1\<rparr>
         else if 0 < row t then t\<lparr>row := row t - 1, col := VGA_COLS - 1\<rparr> else t)
      else term_advance (Suc (col t))
        (t\<lparr>cells := (cells t)[row t * VGA_COLS + col t := make_entry c (attr t)]\<rparr>))"

definition term_clear :: "terminal \<Rightarrow> terminal" where
  "term_clear t = t\<lparr>cells := replicate (VGA_ROWS * VGA_COLS) (make_entry 0x20 (attr t)), row := 0, col := 0\<rparr>"

definition vga_abs :: "'z vga_scheme \<Rightarrow> terminal" where
  "vga_abs s = \<lparr>cells = vram s, row = nat (cursor_row s), col = nat (cursor_col s), attr = current_color s\<rparr>"

text \<open>
  The four port writes that move the hardware cursor, and what an operation of the driver
  leaves alone: memory, the input scripts, the interrupt flag and every later component.
\<close>

definition crtc_writes :: "nat \<Rightarrow> (u16 \<times> u8) list" where
  "crtc_writes p = [(VGA_CRTC_ADDR, 0x0F), (VGA_CRTC_DATA, word_of_nat (p mod 256)),
     (VGA_CRTC_ADDR, 0x0E), (VGA_CRTC_DATA, word_of_nat (p div 256))]"

definition vga_frame :: "'z vga_scheme \<Rightarrow> 'z vga_scheme \<Rightarrow> bool" where
  "vga_frame s t \<longleftrightarrow> mem t = mem s \<and> resident t = resident s \<and> port_in t = port_in s \<and> intr_enabled t = intr_enabled s
     \<and> vga.more t = vga.more s"

text \<open>\<open>implements f m\<close>: \<open>m\<close> does on the driver's state what \<open>f\<close> does on the terminal.\<close>

definition implements :: "(terminal \<Rightarrow> terminal) \<Rightarrow> (unit, 'z vga_scheme) prog \<Rightarrow> bool" where
  "implements f m \<longleftrightarrow> (\<forall>s. vga_inv s \<longrightarrow> (\<exists>t. m s = Some (Ok () t) \<and> vga_inv t
     \<and> vga_abs t = f (vga_abs s) \<and> vga_frame s t
     \<and> port_out t = port_out s @ crtc_writes (row (f (vga_abs s)) * VGA_COLS + col (f (vga_abs s)))))"

lemma scroll_run:
  assumes "buffer s = VGA_BUFFER" and "length (vram s) = VGA_ROWS * VGA_COLS"
  shows "scroll s = Some (Ok () (s\<lparr>cursor_row := int VGA_ROWS - 1,
    vram := drop VGA_COLS (vram s) @ replicate VGA_COLS (make_entry 0x20 (current_color s))\<rparr>))"
proof -
  let ?b = "(VGA_ROWS - 1) * VGA_COLS"
  have rows: "[1..<VGA_ROWS] = [1..<Suc 24]" by (simp add: VGA_ROWS_def)
  have b: "24 * VGA_COLS = ?b" "?b + VGA_COLS = length (vram s)"
    using assms(2) by (simp_all add: VGA_ROWS_def VGA_COLS_def)
  have v: "take ?b (drop VGA_COLS (vram s)) = drop VGA_COLS (vram s)"
    using b(2) by simp
  have copy: "for_each [1..<VGA_ROWS] (\<lambda>row. for_each [0..<VGA_COLS] (\<lambda>col.
       bind (vga_cell (int (row * VGA_COLS + col)))
         (vga_set_cell (int ((row - 1) * VGA_COLS + col))))) s
     = Some (Ok () (s\<lparr>vram := drop VGA_COLS (vram s) @ drop ?b (vram s)\<rparr>))"
    using copy_rows_run [of s 24] assms b v unfolding rows by (simp add: VGA_COLS_def)
  have "take ?b (drop VGA_COLS (vram s) @ drop ?b (vram s)) = drop VGA_COLS (vram s)"
    using b(2) by simp
  then show ?thesis
    using assms b(2) fill_cells_run [of "s\<lparr>vram := drop VGA_COLS (vram s) @ drop ?b (vram s)\<rparr>" ?b VGA_COLS
        "make_entry 0x20"] copy
    by (simp add: scroll_def bind_run modify_run skip_run)
qed

lemma word_of_nat_bytes:
  assumes "p < 65536"
  shows "ucast ((word_of_nat p :: u16) AND 0xFF) = (word_of_nat (p mod 256) :: u8)"
    and "ucast (drop_bit 8 (word_of_nat p :: u16)) = (word_of_nat (p div 256) :: u8)"
proof -
  have u: "unat (word_of_nat p :: u16) = p" using assms by (simp add: unat_of_nat)
  have "unat ((word_of_nat p :: u16) AND mask 8) = p mod 256"
    by (simp only: take_bit_eq_mask [symmetric] unsigned_take_bit_eq u) (simp add: take_bit_eq_mod)
  moreover have "(mask 8 :: u16) = 0xFF" by (simp add: mask_eq_exp_minus_1)
  ultimately show "ucast ((word_of_nat p :: u16) AND 0xFF) = (word_of_nat (p mod 256) :: u8)"
    by (metis of_nat_unat)
  have "unat (drop_bit 8 (word_of_nat p :: u16)) = p div 256"
    by (simp only: unsigned_drop_bit_eq u) (use assms in \<open>simp add: drop_bit_eq_div take_bit_eq_mod\<close>)
  then show "ucast (drop_bit 8 (word_of_nat p :: u16)) = (word_of_nat (p div 256) :: u8)"
    by (metis of_nat_unat)
qed

lemma vga_update_cursor_run:
  assumes "cursor_row s = int r" and "cursor_col s = int c" and "r * VGA_COLS + c < 65536"
  shows "vga_update_cursor s = Some (Ok () (s\<lparr>port_out := port_out s @ crtc_writes (r * VGA_COLS + c)\<rparr>))"
proof -
  have "cursor_pos s = word_of_nat (r * VGA_COLS + c)"
    unfolding cursor_pos_def assms(1,2) by simp
  then show ?thesis
    using word_of_nat_bytes [OF assms(3)]
    by (simp add: vga_update_cursor_def bind_run gets_run outb_run skip_run crtc_writes_def)
qed

lemma int_and_not_3: "(x :: int) AND NOT 3 = x div 4 * 4"
proof -
  have "x AND NOT (mask 2) = push_bit 2 (drop_bit 2 x)"
    by (rule bit_eqI) (auto simp: bit_simps not_less dest!: le_Suc_ex)
  then show ?thesis by (simp add: mask_eq_exp_minus_1 push_bit_eq_mult drop_bit_eq_div)
qed

section \<open>The driver implements the terminal\<close>

text \<open>A cursor inside the columns, with the row possibly one past the last.\<close>

definition settled :: "nat \<Rightarrow> nat \<Rightarrow> 'z vga_scheme \<Rightarrow> 'z vga_scheme" where
  "settled r c s = (if r < VGA_ROWS then s
     else s\<lparr>cursor_row := int VGA_ROWS - 1,
       vram := drop VGA_COLS (vram s) @ replicate VGA_COLS (make_entry 0x20 (current_color s))\<rparr>)
       \<lparr>port_out := port_out s @ crtc_writes (min r (VGA_ROWS - 1) * VGA_COLS + c)\<rparr>"

lemma vga_settle_run:
  assumes "buffer s = VGA_BUFFER" and "length (vram s) = VGA_ROWS * VGA_COLS"
    and "cursor_row s = int r" and "cursor_col s = int c" and "r \<le> VGA_ROWS" and "c < VGA_COLS"
  shows "vga_settle s = Some (Ok () (settled r c s))"
proof (cases "r < VGA_ROWS")
  case True
  then have "r * VGA_COLS + c < 65536"
    using assms(6) by (simp add: VGA_ROWS_def VGA_COLS_def)
  with True assms show ?thesis
    by (simp add: vga_settle_def bind_run branch_run skip_run vga_update_cursor_run settled_def)
next
  case False
  let ?t = "s\<lparr>cursor_row := int VGA_ROWS - 1,
    vram := drop VGA_COLS (vram s) @ replicate VGA_COLS (make_entry 0x20 (current_color s))\<rparr>"
  have "vga_update_cursor ?t = Some (Ok () (?t\<lparr>port_out := port_out ?t @ crtc_writes ((VGA_ROWS - 1) * VGA_COLS + c)\<rparr>))"
    using assms by (intro vga_update_cursor_run) (simp_all add: VGA_ROWS_def VGA_COLS_def)
  with False assms show ?thesis
    by (simp add: vga_settle_def bind_run branch_run skip_run scroll_run settled_def)
qed

lemma vga_settle_wrap:
  assumes "cursor_col s \<ge> int VGA_COLS"
  shows "vga_settle s = vga_settle (s\<lparr>cursor_col := 0, cursor_row := cursor_row s + 1\<rparr>)"
  using assms by (simp add: vga_settle_def bind_run branch_run skip_run modify_run VGA_COLS_def)

lemma vga_inv_cases:
  assumes "vga_inv s"
  obtains r c where "cursor_row s = int r" and "cursor_col s = int c" and "r < VGA_ROWS"
    and "c < VGA_COLS" and "buffer s = VGA_BUFFER" and "length (vram s) = VGA_ROWS * VGA_COLS"
  using assms that [of "nat (cursor_row s)" "nat (cursor_col s)"] by (auto simp: vga_inv_def)

text \<open>The state after \<open>vga_settle\<close> shows the terminal after moving to a column.\<close>

lemma vga_settle_advance:
  assumes "buffer s = VGA_BUFFER" and "length (vram s) = VGA_ROWS * VGA_COLS"
    and "cursor_row s = int r" and "cursor_col s = int c" and "r < VGA_ROWS"
  shows "\<exists>t. vga_settle s = Some (Ok () t) \<and> vga_inv t \<and> vga_frame s t
     \<and> vga_abs t = term_advance c (vga_abs s)
     \<and> port_out t = port_out s @ crtc_writes (row (vga_abs t) * VGA_COLS + col (vga_abs t))"
proof (cases "c < VGA_COLS")
  case True
  with assms show ?thesis
    by (simp add: vga_settle_run settled_def vga_inv_def vga_frame_def vga_abs_def term_advance_def)
next
  case False
  let ?s = "s\<lparr>cursor_col := 0, cursor_row := cursor_row s + 1\<rparr>"
  have "vga_settle s = vga_settle ?s"
    using assms False by (intro vga_settle_wrap) simp
  also have "\<dots> = Some (Ok () (settled (Suc r) 0 ?s))"
    using assms by (intro vga_settle_run) (simp_all add: VGA_COLS_def)
  finally show ?thesis
    using assms False
    by (simp add: settled_def vga_inv_def vga_frame_def vga_abs_def term_advance_def term_newline_def
        VGA_ROWS_def VGA_COLS_def nat_add_distrib)
qed

lemma vga_settle_newline:
  assumes "buffer s = VGA_BUFFER" and "length (vram s) = VGA_ROWS * VGA_COLS"
    and "cursor_row s = int r" and "r < VGA_ROWS"
  shows "\<exists>t. vga_settle (s\<lparr>cursor_col := 0, cursor_row := cursor_row s + 1\<rparr>) = Some (Ok () t)
     \<and> vga_inv t \<and> vga_frame s t \<and> vga_abs t = term_newline (vga_abs s)
     \<and> port_out t = port_out s @ crtc_writes (row (vga_abs t) * VGA_COLS + col (vga_abs t))"
proof -
  let ?s = "s\<lparr>cursor_col := 0, cursor_row := cursor_row s + 1\<rparr>"
  have "vga_settle ?s = Some (Ok () (settled (Suc r) 0 ?s))"
    using assms by (intro vga_settle_run) (simp_all add: VGA_COLS_def)
  with assms show ?thesis
    by (simp add: settled_def vga_inv_def vga_frame_def vga_abs_def term_newline_def
        VGA_ROWS_def VGA_COLS_def nat_add_distrib)
qed

lemma implementsI:
  assumes "\<And>s. vga_inv s \<Longrightarrow> \<exists>t. m s = Some (Ok () t) \<and> vga_inv t \<and> vga_frame s t
     \<and> vga_abs t = f (vga_abs s)
     \<and> port_out t = port_out s @ crtc_writes (row (vga_abs t) * VGA_COLS + col (vga_abs t))"
  shows "implements f m"
  using assms unfolding implements_def by metis

lemma int_tab: "int c + 4 AND - 4 = int ((c + 4) div 4 * 4)"
  using int_and_not_3 [of "int c + 4"] by (simp add: of_nat_div)

lemma vga_putchar_control:
  assumes inv: "vga_inv s" and c: "c = 0x0A \<or> c = 0x0D \<or> c = 0x09 \<or> c = 0x08"
  shows "\<exists>t. vga_putchar c s = Some (Ok () t) \<and> vga_inv t \<and> vga_frame s t
     \<and> vga_abs t = term_put c (vga_abs s)
     \<and> port_out t = port_out s @ crtc_writes (row (vga_abs t) * VGA_COLS + col (vga_abs t))"
proof -
  from inv obtain i j where ij: "cursor_row s = int i" "cursor_col s = int j" "i < VGA_ROWS" "j < VGA_COLS"
    and buf: "buffer s = VGA_BUFFER" "length (vram s) = VGA_ROWS * VGA_COLS" by (rule vga_inv_cases)
  have a: "vga_abs s = \<lparr>cells = vram s, row = i, col = j, attr = current_color s\<rparr>"
    using ij by (simp add: vga_abs_def)
  consider "c = 0x0A" | "c = 0x0D" | "c = 0x09" | "c = 0x08" "0 < j" | "c = 0x08" "j = 0" "0 < i"
    | "c = 0x08" "j = 0" "i = 0" using c by blast
  then show ?thesis
  proof cases
    case 1
    then show ?thesis using vga_settle_newline [OF buf ij(1,3)]
      by (simp add: vga_putchar_def bind_run modify_run term_put_def)
  next
    case 2
    then show ?thesis using vga_settle_advance [of "s\<lparr>cursor_col := 0\<rparr>" i 0] buf ij
      by (auto simp: vga_putchar_def bind_run modify_run skip_run term_put_def term_advance_def
          vga_abs_def vga_frame_def VGA_COLS_def)
  next
    case 3
    then show ?thesis
      using vga_settle_advance [of "s\<lparr>cursor_col := int ((j + 4) div 4 * 4)\<rparr>" i "(j + 4) div 4 * 4"] buf ij
      by (auto simp: vga_putchar_def bind_run modify_run skip_run term_put_def int_tab a
          vga_frame_def term_advance_def term_newline_def vga_abs_def simp del: of_nat_mult)
  next
    case 4
    moreover from 4 ij(4) have "j - Suc 0 < VGA_COLS" by simp
    ultimately show ?thesis using vga_settle_advance [of "s\<lparr>cursor_col := cursor_col s - 1\<rparr>" i "j - 1"] buf ij
      by (auto simp: vga_putchar_def bind_run modify_run skip_run term_put_def term_advance_def
          vga_abs_def vga_frame_def of_nat_diff)
  next
    case 5
    moreover from 5 ij(3) have "i - Suc 0 < VGA_ROWS" "nat (int i - 1) = i - Suc 0" by simp_all
    ultimately show ?thesis
      using vga_settle_advance [of "s\<lparr>cursor_row := cursor_row s - 1, cursor_col := int VGA_COLS - 1\<rparr>" "i - 1" "VGA_COLS - 1"] buf ij
      by (auto simp: vga_putchar_def bind_run modify_run skip_run term_put_def term_advance_def
          vga_abs_def vga_frame_def VGA_COLS_def of_nat_diff)
  next
    case 6
    then show ?thesis using vga_settle_advance [of s 0 0] buf ij
      by (auto simp: vga_putchar_def bind_run modify_run skip_run term_put_def term_advance_def
          vga_abs_def vga_frame_def VGA_COLS_def)
  qed
qed

lemma vga_putchar_glyph:
  assumes inv: "vga_inv s" and c: "c \<noteq> 0x0A" "c \<noteq> 0x0D" "c \<noteq> 0x09" "c \<noteq> 0x08"
  shows "\<exists>t. vga_putchar c s = Some (Ok () t) \<and> vga_inv t \<and> vga_frame s t
     \<and> vga_abs t = term_put c (vga_abs s)
     \<and> port_out t = port_out s @ crtc_writes (row (vga_abs t) * VGA_COLS + col (vga_abs t))"
proof -
  from inv obtain i j where ij: "cursor_row s = int i" "cursor_col s = int j" "i < VGA_ROWS" "j < VGA_COLS"
    and buf: "buffer s = VGA_BUFFER" "length (vram s) = VGA_ROWS * VGA_COLS" by (rule vga_inv_cases)
  let ?s = "s\<lparr>vram := (vram s)[i * VGA_COLS + j := make_entry c (current_color s)], cursor_col := int (Suc j)\<rparr>"
  have lt: "i * VGA_COLS + j < VGA_ROWS * VGA_COLS"
    using ij(3,4) by (simp add: VGA_ROWS_def VGA_COLS_def)
  have "vga_set_cell (int (i * VGA_COLS + j)) (make_entry c (current_color s)) s
      = Some (Ok () (s\<lparr>vram := (vram s)[i * VGA_COLS + j := make_entry c (current_color s)]\<rparr>))"
    using buf lt by (intro vga_set_cell_run) simp_all
  then have "vga_putchar c s = bind vga_settle (\<lambda>_. skip) ?s"
    using c ij by (simp add: vga_putchar_def bind_run gets_run modify_run skip_run add.commute)
  moreover have "\<exists>t. vga_settle ?s = Some (Ok () t) \<and> vga_inv t \<and> vga_frame ?s t
     \<and> vga_abs t = term_advance (Suc j) (vga_abs ?s)
     \<and> port_out t = port_out ?s @ crtc_writes (row (vga_abs t) * VGA_COLS + col (vga_abs t))"
    using buf ij lt by (intro vga_settle_advance) simp_all
  ultimately show ?thesis
    using c ij by (auto simp: bind_run skip_run term_put_def term_advance_def term_newline_def vga_abs_def vga_frame_def)
qed

lemma vga_putchar_implements: "implements (term_put c) (vga_putchar c)"
  using vga_putchar_control vga_putchar_glyph by (intro implementsI) blast

lemma vga_clear_implements: "implements term_clear vga_clear"
proof (rule implementsI)
  fix s :: "'z vga_scheme" assume "vga_inv s"
  then have buf: "buffer s = VGA_BUFFER" "length (vram s) = VGA_ROWS * VGA_COLS"
    by (simp_all add: vga_inv_def)
  let ?t = "s\<lparr>vram := replicate (VGA_ROWS * VGA_COLS) (make_entry 0x20 (current_color s)),
    cursor_row := 0, cursor_col := 0\<rparr>"
  have "vga_update_cursor ?t = Some (Ok () (?t\<lparr>port_out := port_out ?t @ crtc_writes (0 * VGA_COLS + 0)\<rparr>))"
    by (intro vga_update_cursor_run) simp_all
  then have "vga_clear s = Some (Ok () (?t\<lparr>port_out := port_out ?t @ crtc_writes (0 * VGA_COLS + 0)\<rparr>))"
    using buf fill_rows_run [of s VGA_ROWS "make_entry 0x20"]
    by (simp add: vga_clear_def bind_run modify_run skip_run)
  then show "\<exists>t. vga_clear s = Some (Ok () t) \<and> vga_inv t \<and> vga_frame s t
     \<and> vga_abs t = term_clear (vga_abs s)
     \<and> port_out t = port_out s @ crtc_writes (row (vga_abs t) * VGA_COLS + col (vga_abs t))"
    using buf by (simp add: vga_inv_def vga_frame_def vga_abs_def term_clear_def VGA_ROWS_def VGA_COLS_def)
qed

section \<open>Contracts\<close>

lemma implements_keeps:
  assumes "implements f m" and I: "\<And>s t. vga_inv s \<Longrightarrow> I s \<Longrightarrow> vga_frame s t \<Longrightarrow> I t"
  shows "keeps (\<lambda>s. vga_inv s \<and> I s) m"
proof (rule keepsI)
  fix s assume "vga_inv s \<and> I s"
  with assms(1) obtain t where "m s = Some (Ok () t)" "vga_inv t" "vga_frame s t"
    unfolding implements_def by blast
  with I \<open>vga_inv s \<and> I s\<close> show "\<exists>r. m s = Some r \<and> good (\<lambda>_ s. vga_inv s \<and> I s) (\<lambda>s. vga_inv s \<and> I s) r"
    by auto
qed

text \<open>Printing never fails, and does to the terminal what its characters do one by one.\<close>

lemma vga_for_each_run:
  assumes "vga_inv s"
  shows "\<exists>t. for_each xs vga_putchar s = Some (Ok () t) \<and> vga_inv t \<and> vga_frame s t
     \<and> vga_abs t = fold term_put xs (vga_abs s)"
  using assms
proof (induction xs arbitrary: s)
  case Nil
  then show ?case by (simp add: skip_run vga_frame_def)
next
  case (Cons x xs)
  from vga_putchar_implements [of x] Cons.prems obtain t where
    t: "vga_putchar x s = Some (Ok () t)" "vga_inv t" "vga_abs t = term_put x (vga_abs s)" "vga_frame s t"
    unfolding implements_def by blast
  from Cons.IH [OF t(2)] t show ?case
    by (auto simp: bind_run vga_frame_def)
qed

section \<open>Frames\<close>

text \<open>
  What the driver writes is its own variables and the port trace, in every state: any part
  of the state that those updates do not touch is unchanged.
\<close>

definition vga_local :: "('z vga_scheme \<Rightarrow> 'f) \<Rightarrow> bool" where
  "vga_local f \<longleftrightarrow> (\<forall>s x. f (s\<lparr>port_out := x\<rparr>) = f s) \<and> (\<forall>s x. f (s\<lparr>vram := x\<rparr>) = f s)
     \<and> (\<forall>s x. f (s\<lparr>buffer := x\<rparr>) = f s) \<and> (\<forall>s x. f (s\<lparr>cursor_row := x\<rparr>) = f s)
     \<and> (\<forall>s x. f (s\<lparr>cursor_col := x\<rparr>) = f s) \<and> (\<forall>s x. f (s\<lparr>current_color := x\<rparr>) = f s)"

text \<open>The same without the colour, which only \<open>vga_init\<close> and \<open>vga_set_color\<close> write.\<close>

definition vga_free :: "('z vga_scheme \<Rightarrow> 'f) \<Rightarrow> bool" where
  "vga_free f \<longleftrightarrow> (\<forall>s x. f (s\<lparr>port_out := x\<rparr>) = f s) \<and> (\<forall>s x. f (s\<lparr>vram := x\<rparr>) = f s)
     \<and> (\<forall>s x. f (s\<lparr>buffer := x\<rparr>) = f s) \<and> (\<forall>s x. f (s\<lparr>cursor_row := x\<rparr>) = f s)
     \<and> (\<forall>s x. f (s\<lparr>cursor_col := x\<rparr>) = f s)"

lemma vga_local_free [simp]: "vga_local f \<Longrightarrow> vga_free f"
  by (simp add: vga_local_def vga_free_def)

lemma unchanged_vga_cell [unchanged_intros]: "unchanged f (vga_cell i)"
  by (auto simp: unchanged_def vga_cell_def split: if_splits)

lemma unchanged_vga_set_cell [unchanged_intros]: "vga_free f \<Longrightarrow> unchanged f (vga_set_cell i v)"
  by (auto simp: unchanged_def vga_set_cell_def vga_free_def)

lemma unchanged_vga_update_cursor [unchanged_intros]: "vga_free f \<Longrightarrow> unchanged f vga_update_cursor"
  unfolding vga_update_cursor_def by (intro unchanged_intros) (simp_all add: vga_free_def)

lemma unchanged_scroll [unchanged_intros]: "vga_free f \<Longrightarrow> unchanged f scroll"
  unfolding scroll_def by (intro unchanged_intros) (simp_all add: vga_free_def)

lemma unchanged_vga_settle [unchanged_intros]: "vga_free f \<Longrightarrow> unchanged f vga_settle"
  unfolding vga_settle_def by (intro unchanged_intros) (simp_all add: vga_free_def)

lemma unchanged_vga_putchar [unchanged_intros]: "vga_free f \<Longrightarrow> unchanged f (vga_putchar c)"
  unfolding vga_putchar_def by (intro unchanged_intros) (simp_all add: vga_free_def)

lemma unchanged_vga_clear [unchanged_intros]: "vga_free f \<Longrightarrow> unchanged f vga_clear"
  unfolding vga_clear_def by (intro unchanged_intros) (simp_all add: vga_free_def)

lemma unchanged_vga_init [unchanged_intros]: "vga_local f \<Longrightarrow> unchanged f vga_init"
  unfolding vga_init_def by (intro unchanged_intros) (simp_all add: vga_local_def)

lemma unchanged_vga_set_color [unchanged_intros]: "vga_local f \<Longrightarrow> unchanged f (vga_set_color fg bg)"
  unfolding vga_set_color_def by (intro unchanged_intros) (simp_all add: vga_local_def)

lemma vga_local_mem [simp]: "vga_local mem"
  by (simp add: vga_local_def)

lemma vga_print_run:
  assumes "denotes (mem s) c xs"
  shows "vga_print c s = for_each xs vga_putchar s"
  using assms unfolding vga_print_def by (rule put_string_run) (simp add: unchanged_vga_putchar)

section \<open>Hexadecimal digits\<close>

text \<open>
  The value a list of hexadecimal digits stands for, most significant first: the parser
  \<open>print_hex\<close> is the printer of.
\<close>

definition hex_value :: "u8 \<Rightarrow> nat" where
  "hex_value c = (if c < 0x41 then unat c - 0x30 else unat c - 0x41 + 10)"

definition hex_parse :: "u8 list \<Rightarrow> nat" where
  "hex_parse cs = foldl (\<lambda>n c. n * 16 + hex_value c) 0 cs"

lemma length_hex_buf [simp]: "length (hex_buf n v) = n"
  by (induction n arbitrary: v) simp_all

lemma hex_parse_snoc: "hex_parse (cs @ [c]) = hex_parse cs * 16 + hex_value c"
  by (simp add: hex_parse_def)

lemma hex_digit_nat:
  assumes "k < 16"
  shows "hex_value (hex_digit (word_of_nat k)) = k" and "hex_digit (word_of_nat k) \<noteq> 0"
proof -
  have "k = 0 \<or> k = 1 \<or> k = 2 \<or> k = 3 \<or> k = 4 \<or> k = 5 \<or> k = 6 \<or> k = 7 \<or> k = 8 \<or> k = 9
      \<or> k = 10 \<or> k = 11 \<or> k = 12 \<or> k = 13 \<or> k = 14 \<or> k = 15"
    using assms by arith
  then show "hex_value (hex_digit (word_of_nat k)) = k" and "hex_digit (word_of_nat k) \<noteq> 0"
    by (elim disjE; simp add: hex_digit_def hex_value_def)+
qed

lemma and_15_nat: "v AND 0xF = (word_of_nat (unat v mod 16) :: u64)"
proof -
  have "unat (v AND mask 4) = unat v mod 16"
    by (simp only: take_bit_eq_mask [symmetric] unsigned_take_bit_eq) (simp add: take_bit_eq_mod)
  moreover have "(mask 4 :: u64) = 0xF" by (simp add: mask_eq_exp_minus_1)
  ultimately show ?thesis by (metis of_nat_unat ucast_id)
qed

lemma unat_drop_nibble: "unat (drop_bit 4 (v :: u64)) = unat v div 16"
  by (simp add: drop_bit_eq_div unat_div)

lemma hex_parse_buf: "hex_parse (hex_buf n v) = unat v mod 16 ^ n"
proof (induction n arbitrary: v)
  case 0
  then show ?case by (simp add: hex_parse_def)
next
  case (Suc n)
  have "unat v mod 16 ^ Suc n = unat v div 16 mod 16 ^ n * 16 + unat v mod 16"
    by (simp add: mod_mult2_eq)
  with Suc show ?case
    by (simp add: hex_parse_snoc and_15_nat hex_digit_nat unat_drop_nibble)
qed

lemma hex_buf_no_zero: "0 \<notin> set (hex_buf n v)"
proof (induction n arbitrary: v)
  case (Suc n)
  have "hex_digit (word_of_nat (unat v mod 16)) \<noteq> 0" by (rule hex_digit_nat) simp
  with Suc show ?case by (simp add: and_15_nat)
qed simp

end
