(* ===== verification/Char_Device.thy ===== *)
theory Char_Device imports Vga begin

text \<open>
  The interface of an output device: a character operation and a string operation that
  puts the characters of a C string one by one, with an invariant of the device. The VGA
  driver, the serial port and the console of the kernel provide it; the facts on strings
  and hexadecimal numbers are proved once, from the interface.
\<close>

section \<open>The interface\<close>

locale char_device =
  fixes putchar :: "u8 \<Rightarrow> (unit, 'z hw_scheme) prog"
    and print :: "cstr \<Rightarrow> (unit, 'z hw_scheme) prog"
    and print_hex :: "u64 \<Rightarrow> (unit, 'z hw_scheme) prog"
    and inv :: "'z hw_scheme \<Rightarrow> bool"
  assumes putchar_keeps: "keeps inv (putchar x)"
    and putchar_mem: "unchanged mem (putchar x)"
    and print_puts: "denotes (mem s) c xs \<Longrightarrow> print c s = for_each xs putchar s"
    and print_hex_digits: "print_hex v s = seq [print (str ''0x''), print (Lit (hex_buf 16 v))] s"
begin

lemma print_Lit: "print (Lit xs) s = for_each (takeWhile (\<lambda>x. x \<noteq> 0) xs) putchar s"
proof (rule print_puts)
  show "denotes (mem s) (Lit xs) (takeWhile (\<lambda>x. x \<noteq> 0) xs)"
    by (induction xs) auto
qed

lemma print_hex_puts: "print_hex v s = for_each (lit ''0x'' @ hex_buf 16 v) putchar s"
proof -
  have d: "denotes (mem t) (str ''0x'') (lit ''0x'')" "denotes (mem t) (Lit (hex_buf 16 v)) (hex_buf 16 v)"
    for t :: "'a hw_scheme"
    by (rule denotes_Lit, simp) (rule denotes_Lit [OF hex_buf_no_zero])
  have "print (str ''0x'') = for_each (lit ''0x'') putchar"
    and "print (Lit (hex_buf 16 v)) = for_each (hex_buf 16 v) putchar"
    by (rule ext, rule print_puts, rule d)+
  then show ?thesis
    by (simp only: print_hex_digits seq.simps for_each_append bind_skip_right)
qed

lemma keeps_print_Lit: "keeps inv (print (Lit xs))"
proof (rule keepsI)
  fix s assume "inv s"
  have "keeps inv (for_each (takeWhile (\<lambda>x. x \<noteq> 0) xs) putchar)"
    by (intro keeps_intros putchar_keeps)
  then show "\<exists>r. print (Lit xs) s = Some r \<and> good (\<lambda>_. inv) inv r"
    unfolding print_Lit using \<open>inv s\<close> by (fastforce elim: keepsE)
qed

lemma keeps_print_hex: "keeps inv (print_hex v)"
proof (rule keepsI)
  fix s assume "inv s"
  have "keeps inv (for_each (lit ''0x'' @ hex_buf 16 v) putchar)"
    by (intro keeps_intros putchar_keeps)
  then show "\<exists>r. print_hex v s = Some r \<and> good (\<lambda>_. inv) inv r"
    unfolding print_hex_puts using \<open>inv s\<close> by (fastforce elim: keepsE)
qed

text \<open>A string in memory: it stays where it is while it is printed.\<close>

lemma print_spec:
  "spec (\<lambda>s. inv s \<and> denotes (mem s) c xs) (print c) (\<lambda>_ s. inv s \<and> denotes (mem s) c xs) inv"
proof (rule specI)
  fix s assume s: "inv s \<and> denotes (mem s) c xs"
  have k: "keeps inv (for_each xs putchar)" by (intro keeps_intros putchar_keeps)
  have u: "unchanged mem (for_each xs putchar)" by (intro unchanged_intros putchar_mem)
  from s print_puts have eq: "print c s = for_each xs putchar s" by blast
  from k s show "\<exists>r. print c s = Some r \<and> good (\<lambda>_ s. inv s \<and> denotes (mem s) c xs) inv r"
    unfolding eq by (elim keepsE [of inv _ s]) (use s unchangedD [OF u, of s] in auto)
qed

end

section \<open>The VGA driver as a device\<close>

lemma keeps_vga_putchar [keeps_intros]: "keeps vga_inv (vga_putchar c)"
  using implements_keeps [OF vga_putchar_implements, of "\<lambda>_. True"] by simp

lemma keeps_vga_clear [keeps_intros]: "keeps vga_inv vga_clear"
  using implements_keeps [OF vga_clear_implements, of "\<lambda>_. True"] by simp

lemma keeps_vga_set_color [keeps_intros]: "keeps vga_inv (vga_set_color fg bg)"
  unfolding vga_set_color_def by (intro keeps_intros) (simp add: vga_inv_def)

interpretation vga_dev: char_device vga_putchar vga_print vga_print_hex vga_inv
  by unfold_locales (auto simp: vga_print_run vga_print_hex_def
      intro: keeps_vga_putchar unchanged_vga_putchar)

end
