(* ===== verification/Serial.thy ===== *)
theory Serial imports Char_Device begin

text \<open>
  The COM1 driver, \<open>kernel/arch/x86_64/serial.c\<close>: no state of its own, only ports. What is
  sent is read off the port trace.
\<close>

section \<open>Operations\<close>

definition COM1 :: u16 where
  "COM1 = 0x3F8"

definition serial_init :: "(unit, 'z hw_scheme) prog" where
  "serial_init = seq [
     outb (COM1 + 1) 0x00,
     outb (COM1 + 3) 0x80,
     outb (COM1 + 0) 0x03,
     outb (COM1 + 1) 0x00,
     outb (COM1 + 3) 0x03,
     outb (COM1 + 2) 0xC7,
     outb (COM1 + 4) 0x0B]"

text \<open>The two polls: \<open>transmit_empty\<close> tests bit 5 of the line status, \<open>data_ready\<close> bit 0.\<close>

definition wait_transmit_empty :: "(unit, 'z hw_scheme) prog" where
  "wait_transmit_empty = poll (COM1 + 5) 0x20"

definition wait_data_ready :: "(unit, 'z hw_scheme) prog" where
  "wait_data_ready = poll (COM1 + 5) 0x01"

definition serial_putchar :: "u8 \<Rightarrow> (unit, 'z hw_scheme) prog" where
  "serial_putchar c = seq [wait_transmit_empty, outb COM1 c]"

definition serial_print :: "cstr \<Rightarrow> (unit, 'z hw_scheme) prog" where
  "serial_print = put_string serial_putchar"

definition serial_getchar :: "(int, 'z hw_scheme) prog" where
  "serial_getchar = bind wait_data_ready (\<lambda>_. bind (inb COM1) (\<lambda>v. ret (uint v)))"

definition serial_print_hex :: "u64 \<Rightarrow> (unit, 'z hw_scheme) prog" where
  "serial_print_hex value = seq [serial_print (str ''0x''), serial_print (Lit (hex_buf 16 value))]"

section \<open>Contracts and frames\<close>

text \<open>A part of the state that does not depend on the ports.\<close>

definition port_free :: "('z hw_scheme \<Rightarrow> 'f) \<Rightarrow> bool" where
  "port_free f \<longleftrightarrow> (\<forall>s x. f (s\<lparr>port_out := x\<rparr>) = f s) \<and> (\<forall>s x. f (s\<lparr>port_in := x\<rparr>) = f s)"

text \<open>The same with the status port of the line only, the one that sending polls.\<close>

definition line_free :: "('z hw_scheme \<Rightarrow> 'f) \<Rightarrow> bool" where
  "line_free f \<longleftrightarrow> (\<forall>s x. f (s\<lparr>port_out := x\<rparr>) = f s)
     \<and> (\<forall>s x. f (s\<lparr>port_in := (port_in s)(COM1 + 5 := x)\<rparr>) = f s)"

lemma port_free_line [simp]: "port_free f \<Longrightarrow> line_free f"
  by (simp add: port_free_def line_free_def)

lemma port_free_mem [simp]: "port_free mem"
  by (simp add: port_free_def)

lemma unchanged_serial_putchar [unchanged_intros]: "line_free f \<Longrightarrow> unchanged f (serial_putchar c)"
  unfolding serial_putchar_def wait_transmit_empty_def
  by (intro unchanged_intros) (simp_all add: line_free_def)

lemma unchanged_serial_init [unchanged_intros]: "port_free f \<Longrightarrow> unchanged f serial_init"
  unfolding serial_init_def by (intro unchanged_intros) (simp_all add: port_free_def)

lemma unchanged_serial_getchar [unchanged_intros]: "port_free f \<Longrightarrow> unchanged f serial_getchar"
  unfolding serial_getchar_def wait_data_ready_def
  by (intro unchanged_intros) (simp_all add: port_free_def)

lemma keeps_serial_putchar [keeps_intros]: "port_free I \<Longrightarrow> keeps I (serial_putchar c)"
  unfolding serial_putchar_def wait_transmit_empty_def
  by (intro keeps_intros keeps_poll) (simp_all add: port_free_def)

lemma keeps_serial_init [keeps_intros]: "port_free I \<Longrightarrow> keeps I serial_init"
  unfolding serial_init_def by (intro keeps_intros) (simp_all add: port_free_def)

lemma keeps_serial_getchar [keeps_intros]: "port_free I \<Longrightarrow> keeps I serial_getchar"
  unfolding serial_getchar_def wait_data_ready_def
  by (intro keeps_intros keeps_poll keeps_inb) (simp_all add: port_free_def)

lemma serial_print_run:
  assumes "denotes (mem s) c xs"
  shows "serial_print c s = for_each xs serial_putchar s"
  using assms unfolding serial_print_def by (rule put_string_run) (simp add: unchanged_serial_putchar)

interpretation serial_dev: char_device serial_putchar serial_print serial_print_hex "\<lambda>_. True"
  by unfold_locales (auto simp: serial_print_run serial_print_hex_def port_free_def
      intro: keeps_serial_putchar unchanged_serial_putchar)

section \<open>What is transmitted\<close>

definition is_ready :: "u8 \<Rightarrow> bool" where
  "is_ready v \<longleftrightarrow> v AND 0x20 \<noteq> 0"

definition n_ready :: "'z hw_scheme \<Rightarrow> nat" where
  "n_ready s = length (filter is_ready (port_in s (COM1 + 5)))"

lemma poll_not_ready: "poll_result (COM1 + 5) 0x20 s = (case dropWhile (\<lambda>v. \<not> is_ready v) (port_in s (COM1 + 5)) of
       [] \<Rightarrow> Wait (s\<lparr>port_in := (port_in s)(COM1 + 5 := [])\<rparr>)
     | v # vs \<Rightarrow> Ok () (s\<lparr>port_in := (port_in s)(COM1 + 5 := vs)\<rparr>))"
  by (simp add: poll_result_def is_ready_def)

lemma serial_putchar_ready:
  assumes "n_ready s = Suc n"
  shows "\<exists>t. serial_putchar c s = Some (Ok () t) \<and> n_ready t = n
    \<and> port_out t = port_out s @ [(COM1, c)]"
proof -
  let ?d = "dropWhile (\<lambda>v. \<not> is_ready v) (port_in s (COM1 + 5))"
  have f: "length (filter is_ready ?d) = Suc n"
    using assms by (simp add: n_ready_def filter_dropWhile_not)
  then obtain v vs where d: "?d = v # vs" by (cases ?d) auto
  then have "is_ready v" using dropWhile_eq_Cons_conv by metis
  with d f show ?thesis
    by (simp add: serial_putchar_def wait_transmit_empty_def bind_run poll_run poll_not_ready
        outb_run n_ready_def)
qed

lemma serial_putchar_stuck:
  assumes "n_ready s = 0"
  shows "\<exists>t. serial_putchar c s = Some (Wait t) \<and> port_out t = port_out s"
proof -
  have "dropWhile (\<lambda>v. \<not> is_ready v) (port_in s (COM1 + 5)) = []"
    using assms by (simp add: n_ready_def filter_empty_conv)
  then show ?thesis
    by (simp add: serial_putchar_def wait_transmit_empty_def bind_run poll_run poll_not_ready
        del: dropWhile_eq_Nil_conv)
qed

lemma serial_for_each:
  "\<exists>t. (if length xs \<le> n_ready s then for_each xs serial_putchar s = Some (Ok () t) \<and> n_ready t = n_ready s - length xs
        else for_each xs serial_putchar s = Some (Wait t))
     \<and> port_out t = port_out s @ map (Pair COM1) (take (n_ready s) xs)"
proof (induction xs arbitrary: s)
  case Nil
  then show ?case by (simp add: skip_run)
next
  case (Cons x xs)
  show ?case
  proof (cases "n_ready s")
    case 0
    with serial_putchar_stuck [of s x] show ?thesis by (auto simp: bind_run)
  next
    case (Suc n)
    from serial_putchar_ready [OF this, of x] obtain t where
      t: "serial_putchar x s = Some (Ok () t)" "n_ready t = n" "port_out t = port_out s @ [(COM1, x)]" by blast
    with Cons.IH [of t] Suc show ?thesis by (auto simp: bind_run split: if_splits)
  qed
qed

end
