(* ===== verification/Keyboard.thy ===== *)
theory Keyboard imports Serial begin

text \<open>
  The PS/2 keyboard driver, \<open>kernel/arch/x86_64/keyboard.c\<close>: scancode set 1, the shift and
  the extended-prefix flags, and the blocking read. It is shown to implement a decoder on
  the stream of scancodes.
\<close>

section \<open>State and tables\<close>

definition KBD_DATA :: u16 where
  "KBD_DATA = 0x60"

definition KBD_STATUS :: u16 where
  "KBD_STATUS = 0x64"

definition sc_normal :: "u8 list" where
  "sc_normal = [0, 0x1B] @ lit ''1234567890-='' @ [0x08, 0x09]
     @ lit ''qwertyuiop[]'' @ [0x0A, 0] @ lit ''asdfghjkl;''
     @ [0x27, 0x60, 0, 0x5C] @ lit ''zxcvbnm,./'' @ [0, 0x2A]
     @ [0, 0x20] @ replicate 13 0 @ lit ''789-456+1'' @ lit ''230.''"

definition sc_shift :: "u8 list" where
  "sc_shift = [0, 0x1B] @ lit ''!'' @ [0x40] @ lit ''#$%^&*()_+'' @ [0x08, 0x09]
     @ lit ''QWERTYUIOP{}'' @ [0x0A, 0] @ lit ''ASDFGHJKL:''
     @ [0x22, 0x7E, 0, 0x7C] @ lit ''ZXCVBNM<>?'' @ [0, 0x2A]
     @ [0, 0x20] @ replicate 16 0 @ lit ''-'' @ [0] @ lit ''5'' @ [0] @ lit ''+'' @ replicate 5 0"

record kbd = vga +
  shift_held :: bool
  extended :: bool

section \<open>Operations\<close>

partial_function (option) keyboard_init :: "(unit, 'z kbd_scheme) prog" where
  "keyboard_init s = bind (inb KBD_STATUS) (\<lambda>v. if v AND 0x01 \<noteq> 0
     then bind (inb KBD_DATA) (\<lambda>_. keyboard_init) else skip) s"

definition kbd_process :: "u8 \<Rightarrow> (int, 'z kbd_scheme) prog" where
  "kbd_process sc =
     (if sc = 0xE0 then bind (modify (\<lambda>s. s\<lparr>extended := True\<rparr>)) (\<lambda>_. ret 0)
      else branch extended (bind (modify (\<lambda>s. s\<lparr>extended := False\<rparr>)) (\<lambda>_. ret 0))
        (let release = (sc AND 0x80 \<noteq> 0); key = sc AND 0x7F in
         if key = 0x2A \<or> key = 0x36
         then bind (modify (\<lambda>s. s\<lparr>shift_held := \<not> release\<rparr>)) (\<lambda>_. ret 0)
         else if release \<or> 84 \<le> key then ret 0
         else bind (gets shift_held) (\<lambda>sh.
           ret (uint ((if sh then sc_shift else sc_normal) ! unat key)))))"

partial_function (option) keyboard_getchar :: "(int, 'z kbd_scheme) prog" where
  "keyboard_getchar s = bind (inb KBD_STATUS) (\<lambda>v. if v AND 0x01 = 0 then keyboard_getchar
     else bind (inb KBD_DATA) (\<lambda>sc. bind (kbd_process sc) (\<lambda>ch.
       if ch \<noteq> 0 then ret ch else keyboard_getchar))) s"

section \<open>The decoder\<close>

text \<open>What one scancode does to the two flags, and the character it yields (0 for none).\<close>

definition kbd_decode :: "bool \<times> bool \<Rightarrow> u8 \<Rightarrow> (bool \<times> bool) \<times> int" where
  "kbd_decode st sc = (case st of (sh, ext) \<Rightarrow>
     if sc = 0xE0 then ((sh, True), 0)
     else if ext then ((sh, False), 0)
     else if sc = 0x2A \<or> sc = 0x36 then ((True, False), 0)
     else if sc = 0xAA \<or> sc = 0xB6 then ((False, False), 0)
     else if sc < 84 then ((sh, False), uint ((if sh then sc_shift else sc_normal) ! unat sc))
     else ((sh, False), 0))"

text \<open>The first character of a stream of scancodes, with the flags and the stream after it.\<close>

fun kbd_scan :: "bool \<times> bool \<Rightarrow> u8 list \<Rightarrow> (int \<times> (bool \<times> bool) \<times> u8 list) option" where
  "kbd_scan st [] = None"
| "kbd_scan st (sc # scs) = (case kbd_decode st sc of (st', ch) \<Rightarrow>
     if ch \<noteq> 0 then Some (ch, st', scs) else kbd_scan st' scs)"

definition kbd_flags :: "'z kbd_scheme \<Rightarrow> bool \<times> bool" where
  "kbd_flags s = (shift_held s, extended s)"

lemma length_sc_tables [simp]: "length sc_normal = 84" "length sc_shift = 84"
  by (simp_all add: sc_normal_def sc_shift_def)

lemma sc_tables_ascii: "list_all (\<lambda>c. c < 0x80) sc_normal" "list_all (\<lambda>c. c < 0x80) sc_shift"
  by (simp_all add: sc_normal_def sc_shift_def list_all_iff)

lemma sc_table_char:
  assumes "k < 84" and "t = sc_normal \<or> t = sc_shift"
  shows "0 \<le> uint (t ! k) \<and> uint (t ! k) < 128"
proof -
  have "t ! k < 0x80"
    using assms sc_tables_ascii by (auto simp: list_all_length)
  then show ?thesis by (simp add: word_less_alt)
qed

lemma sc_release_bit: "(sc :: u8) AND 0x80 = 0 \<longleftrightarrow> unat sc < 128"
proof -
  have "sc AND 2 ^ 7 = 0 \<longleftrightarrow> \<not> bit sc 7" by (rule and_exp_eq_0_iff_not_bit)
  also have "bit sc 7 \<longleftrightarrow> bit (unat sc) 7"
    by (simp add: bit_unsigned_iff)
  also have "\<not> bit (unat sc) 7 \<longleftrightarrow> unat sc < 128"
  proof -
    have "unat sc div 128 < 2"
      using unsigned_less [of sc, where 'a = nat] by (simp add: less_mult_imp_div_less)
    then show ?thesis by (auto simp: bit_iff_odd div_eq_0_iff less_2_cases_iff)
  qed
  finally show ?thesis by simp
qed

lemma unat_key: "unat ((sc :: u8) AND 0x7F) = unat sc mod 128"
proof -
  have "unat (sc AND mask 7) = unat sc mod 128"
    by (simp only: take_bit_eq_mask [symmetric] unsigned_take_bit_eq) (simp add: take_bit_eq_mod)
  then show ?thesis by (simp add: mask_eq_exp_minus_1)
qed

lemma kbd_process_run:
  "kbd_process sc s = (case kbd_decode (kbd_flags s) sc of ((sh, ext), ch) \<Rightarrow>
     Some (Ok ch (s\<lparr>shift_held := sh, extended := ext\<rparr>)))"
proof -
  define k where "k = unat sc"
  have lt: "k < 256" using unsigned_less [of sc, where 'a = nat] by (simp add: k_def)
  have eqs: "sc = 0xE0 \<longleftrightarrow> k = 224" "sc = 0x2A \<longleftrightarrow> k = 42" "sc = 0x36 \<longleftrightarrow> k = 54"
    "sc = 0xAA \<longleftrightarrow> k = 170" "sc = 0xB6 \<longleftrightarrow> k = 182"
    "sc AND 0x7F = 0x2A \<longleftrightarrow> k mod 128 = 42" "sc AND 0x7F = 0x36 \<longleftrightarrow> k mod 128 = 54"
    "84 \<le> sc AND 0x7F \<longleftrightarrow> 84 \<le> k mod 128" "sc < 84 \<longleftrightarrow> k < 84"
    "unat (sc AND 0x7F) = k mod 128" "unat sc = k"
    by (simp_all add: word_unat_eq_iff word_le_nat_alt word_less_nat_alt unat_key k_def)
  note eqs = eqs sc_release_bit
  note run = bind_run modify_run branch_run gets_run ret_run
  have id: "s\<lparr>shift_held := shift_held s, extended := extended s\<rparr> = s" by simp
  show ?thesis
  proof (cases "k < 128")
    case True
    then have "k mod 128 = k" by simp
    with True id show ?thesis
      by (simp add: kbd_process_def kbd_decode_def kbd_flags_def run Let_def eqs)
  next
    case False
    define j where "j = k - 128"
    with False lt have k: "k = 128 + j" and "j < 128" by simp_all
    then have m: "k mod 128 = j" by simp
    have n: "(k = 224) = (j = 96)" "(k = 170) = (j = 42)" "(k = 182) = (j = 54)"
      "\<not> k < 84" "\<not> k < 128" "k \<noteq> 42" "k \<noteq> 54" using k by simp_all
    show ?thesis
      by (simp add: kbd_process_def kbd_decode_def kbd_flags_def run Let_def eqs m n id)
  qed
qed

section \<open>Reading a character\<close>

text \<open>
  \<open>available s\<close> is the scancodes the controller is going to hand out: as many bytes of the
  data port as the status port will report. The blocking read is the decoder run on them.
\<close>

definition n_full :: "'z hw_scheme \<Rightarrow> nat" where
  "n_full s = length (filter (\<lambda>v. v AND 0x01 \<noteq> 0) (port_in s KBD_STATUS))"

definition available :: "'z hw_scheme \<Rightarrow> u8 list" where
  "available s = take (n_full s) (port_in s KBD_DATA)"

lemma kbd_ports [simp]: "KBD_STATUS \<noteq> KBD_DATA" "KBD_DATA \<noteq> KBD_STATUS"
  by (simp_all add: KBD_STATUS_def KBD_DATA_def)

lemma kbd_flags_updates [simp]:
  "kbd_flags (s\<lparr>port_in := p\<rparr>) = kbd_flags s"
  "kbd_flags (s\<lparr>shift_held := a, extended := b\<rparr>) = (a, b)"
  by (simp_all add: kbd_flags_def)

lemma keyboard_getchar_step:
  assumes st: "port_in s KBD_STATUS = v # vs" and full: "v AND 0x01 \<noteq> 0" and data: "port_in s KBD_DATA = sc # scs"
  obtains ch t where "kbd_decode (kbd_flags s) sc = (kbd_flags t, ch)" and "available s = sc # available t"
    and "port_in t KBD_STATUS = vs" and "keyboard_getchar s = (if ch \<noteq> 0 then Some (Ok ch t) else keyboard_getchar t)"
proof -
  let ?s = "s\<lparr>port_in := (port_in s)(KBD_STATUS := vs)\<rparr>"
  obtain a b ch where d: "kbd_decode (kbd_flags s) sc = ((a, b), ch)" by (metis prod.exhaust)
  let ?t = "?s\<lparr>port_in := (port_in ?s)(KBD_DATA := scs), shift_held := a, extended := b\<rparr>"
  have "available s = sc # available ?t" using full by (simp add: available_def n_full_def st data)
  moreover have "keyboard_getchar s = (if ch \<noteq> 0 then Some (Ok ch ?t) else keyboard_getchar ?t)"
    using full d by (subst keyboard_getchar.simps)
      (simp add: bind_run inb_Cons [OF st] inb_Cons [where vs = scs] data kbd_process_run ret_run)
  ultimately show thesis using d by (intro that [of ?t ch]) (simp_all add: kbd_flags_def)
qed

lemma keyboard_getchar_scan:
  "case kbd_scan (kbd_flags s) (available s) of
     None \<Rightarrow> \<exists>t. keyboard_getchar s = Some (Wait t)
   | Some (ch, flags, rest) \<Rightarrow>
       \<exists>t. keyboard_getchar s = Some (Ok ch t) \<and> kbd_flags t = flags \<and> available t = rest"
proof (induction "port_in s KBD_STATUS" arbitrary: s)
  case Nil
  then have "available s = []" by (simp add: available_def n_full_def flip: Nil)
  moreover from Nil have "keyboard_getchar s = Some (Wait s)"
    by (subst keyboard_getchar.simps) (simp add: bind_run inb_Nil)
  ultimately show ?case by simp
next
  case (Cons v vs)
  note st = Cons.hyps(2) [symmetric]
  let ?s = "s\<lparr>port_in := (port_in s)(KBD_STATUS := vs)\<rparr>"
  show ?case
  proof (cases "v AND 0x01 = 0")
    case True
    then have "keyboard_getchar s = keyboard_getchar ?s"
      by (subst keyboard_getchar.simps) (simp add: bind_run inb_Cons [OF st])
    moreover from True have "available ?s = available s"
      by (simp add: available_def n_full_def st)
    moreover have "kbd_flags ?s = kbd_flags s" "vs = port_in ?s KBD_STATUS" by simp_all
    ultimately show ?thesis using Cons.hyps(1) [of ?s] by (simp only:)
  next
    case full: False
    show ?thesis
    proof (cases "port_in s KBD_DATA")
      case Nil
      then have "keyboard_getchar s = Some (Wait ?s)"
        using full by (subst keyboard_getchar.simps) (simp add: bind_run inb_Cons [OF st] inb_Nil)
      with Nil show ?thesis by (simp add: available_def)
    next
      case data: (Cons sc scs)
      from keyboard_getchar_step [OF st full data] obtain ch t where
        d: "kbd_decode (kbd_flags s) sc = (kbd_flags t, ch)" and av: "available s = sc # available t"
          and st_t: "port_in t KBD_STATUS = vs"
          and go: "keyboard_getchar s = (if ch \<noteq> 0 then Some (Ok ch t) else keyboard_getchar t)" .
      show ?thesis
      proof (cases "ch = 0")
        case True
        then have "keyboard_getchar s = keyboard_getchar t" using go by simp
        moreover have "kbd_scan (kbd_flags s) (available s) = kbd_scan (kbd_flags t) (available t)"
          using True unfolding av by (simp add: d)
        ultimately show ?thesis using Cons.hyps(1) [OF st_t [symmetric]] by (simp only:)
      next
        case False
        then show ?thesis unfolding go av by (simp add: d)
      qed
    qed
  qed
qed

lemma kbd_scan_ascii: "kbd_scan st scs = Some (ch, r) \<Longrightarrow> 0 < ch \<and> ch < 128"
proof (induction st scs rule: kbd_scan.induct)
  case (2 st sc scs)
  obtain st' c where d: "kbd_decode st sc = (st', c)" by fastforce
  have "0 \<le> c \<and> c < 128"
    using d sc_table_char [of "unat sc"]
    by (auto simp: kbd_decode_def word_less_nat_alt split: prod.splits if_splits)
  with 2 d show ?case by (auto split: if_splits)
qed simp

lemma keyboard_getchar_ascii:
  "(\<exists>t. keyboard_getchar s = Some (Wait t)) \<or> (\<exists>ch t. keyboard_getchar s = Some (Ok ch t) \<and> 0 < ch \<and> ch < 128)"
proof (cases "kbd_scan (kbd_flags s) (available s)")
  case None
  with keyboard_getchar_scan [of s] show ?thesis by simp
next
  case (Some r)
  obtain ch st rest where r: "r = (ch, st, rest)" by (cases r)
  with Some keyboard_getchar_scan [of s] have "\<exists>t. keyboard_getchar s = Some (Ok ch t)" by auto
  with kbd_scan_ascii Some r show ?thesis by blast
qed

section \<open>Contracts and frames\<close>

definition kbd_local :: "('z kbd_scheme \<Rightarrow> 'f) \<Rightarrow> bool" where
  "kbd_local f \<longleftrightarrow> (\<forall>s x. f (s\<lparr>port_in := x\<rparr>) = f s) \<and> (\<forall>s x. f (s\<lparr>shift_held := x\<rparr>) = f s)
     \<and> (\<forall>s x. f (s\<lparr>extended := x\<rparr>) = f s)"

text \<open>The same with the two ports of the controller only: other ports may be observed.\<close>

definition kbd_free :: "('z kbd_scheme \<Rightarrow> 'f) \<Rightarrow> bool" where
  "kbd_free f \<longleftrightarrow> (\<forall>s x. f (s\<lparr>port_in := (port_in s)(KBD_STATUS := x)\<rparr>) = f s) \<and> (\<forall>s x. f (s\<lparr>port_in := (port_in s)(KBD_DATA := x)\<rparr>) = f s)
     \<and> (\<forall>s x. f (s\<lparr>shift_held := x\<rparr>) = f s) \<and> (\<forall>s x. f (s\<lparr>extended := x\<rparr>) = f s)"

lemma kbd_local_free: "kbd_local f \<Longrightarrow> kbd_free f"
  by (simp add: kbd_local_def kbd_free_def)

lemma unchanged_kbd_process: "kbd_free f \<Longrightarrow> unchanged f (kbd_process sc)"
  by (auto simp: unchanged_def kbd_process_run kbd_free_def split: prod.splits)

lemma keyboard_getchar_frame:
  assumes f: "kbd_free f"
  shows "unchanged f keyboard_getchar"
proof (rule unchangedI, erule keyboard_getchar.raw_induct [rotated])
  fix rec s r
  assume IH: "\<And>s r. rec s = Some r \<Longrightarrow> leaves f s r"
    and eq: "bind (inb KBD_STATUS) (\<lambda>v. if v AND 0x01 = 0 then rec
       else bind (inb KBD_DATA) (\<lambda>sc. bind (kbd_process sc) (\<lambda>ch.
         if ch \<noteq> 0 then ret ch else rec))) s = Some r"
  have "unchanged f rec" using IH by (rule unchangedI)
  with f have "unchanged f (bind (inb KBD_STATUS) (\<lambda>v. if v AND 0x01 = 0 then rec
       else bind (inb KBD_DATA) (\<lambda>sc. bind (kbd_process sc) (\<lambda>ch.
         if ch \<noteq> 0 then ret ch else rec))))"
    by (intro unchanged_intros unchanged_kbd_process) (simp_all add: kbd_free_def)
  then show "leaves f s r" using eq by (rule unchangedD)
qed

lemma unchanged_keyboard_getchar [unchanged_intros]: "kbd_local f \<Longrightarrow> unchanged f keyboard_getchar"
  by (intro keyboard_getchar_frame kbd_local_free)

lemma keyboard_getchar_spec:
  assumes "kbd_local I"
  shows "spec I keyboard_getchar (\<lambda>ch s. I s \<and> 0 < ch \<and> ch < 128) I"
proof (rule specI)
  fix s assume "I s"
  then show "\<exists>r. keyboard_getchar s = Some r \<and> good (\<lambda>ch s. I s \<and> 0 < ch \<and> ch < 128) I r"
    using keyboard_getchar_ascii [of s] unchangedD [OF unchanged_keyboard_getchar [OF assms], of s]
    by fastforce
qed

text \<open>Draining the controller ends, after as many reads as the status port reports in a row.\<close>

lemma keyboard_init_stops:
  assumes "kbd_local I" and "I s"
  shows "\<exists>r. keyboard_init s = Some r \<and> good (\<lambda>_. I) I r"
  using assms(2)
proof (induction "port_in s KBD_STATUS" arbitrary: s)
  case Nil
  then show ?case by (subst keyboard_init.simps) (simp add: bind_run inb_Nil)
next
  case (Cons v vs)
  note st = Cons.hyps(2) [symmetric]
  let ?s = "s\<lparr>port_in := (port_in s)(KBD_STATUS := vs)\<rparr>"
  have I: "I ?s" using Cons.prems assms(1) by (simp add: kbd_local_def)
  show ?case
  proof (cases "v AND 0x01 = 0")
    case True
    with I show ?thesis
      by (subst keyboard_init.simps) (simp add: bind_run inb_Cons [OF st] skip_run)
  next
    case full: False
    show ?thesis
    proof (cases "port_in s KBD_DATA")
      case Nil
      with full I show ?thesis
        by (subst keyboard_init.simps) (simp add: bind_run inb_Cons [OF st] inb_Nil)
    next
      case data: (Cons sc scs)
      let ?t = "?s\<lparr>port_in := (port_in ?s)(KBD_DATA := scs)\<rparr>"
      have "I ?t" using I assms(1) unfolding kbd_local_def by blast
      moreover have "vs = port_in ?t KBD_STATUS" by simp
      moreover have "keyboard_init s = keyboard_init ?t"
        using full data by (subst keyboard_init.simps)
          (simp add: bind_run inb_Cons [OF st] inb_Cons [where vs = scs])
      ultimately show ?thesis using Cons.hyps(1) [of ?t] by simp
    qed
  qed
qed

lemma keeps_keyboard_init [keeps_intros]: "kbd_local I \<Longrightarrow> keeps I keyboard_init"
  by (rule keepsI) (rule keyboard_init_stops)

end
