(* ===== verification/Multiboot.thy ===== *)
theory Multiboot imports Keyboard "HOL-Library.Sublist" begin

text \<open>
  The Multiboot2 information structure as \<open>kernel/arch/x86_64/multiboot2.h\<close> lays it out, and
  the search of the command line in \<open>kernel/arch/x86_64/hal.c\<close> that picks the console.
\<close>

section \<open>Tags\<close>

definition MULTIBOOT2_MAGIC :: u64 where
  "MULTIBOOT2_MAGIC = 0x36D76289"

definition MB2_TAG_END :: u64 where
  "MB2_TAG_END = 0"

definition MB2_TAG_CMDLINE :: u64 where
  "MB2_TAG_CMDLINE = 1"

definition MB2_TAG_MODULE :: u64 where
  "MB2_TAG_MODULE = 3"

definition MB2_TAG_MMAP :: u64 where
  "MB2_TAG_MMAP = 6"

lemmas mb2_tag_defs = MB2_TAG_END_def MB2_TAG_CMDLINE_def MB2_TAG_MODULE_def MB2_TAG_MMAP_def

text \<open>
  \<open>tag->type\<close> and the macro \<open>MB2_TAG_NEXT\<close>: the size is rounded up in 32 bits, so a size of
  0 (or one past \<open>0xFFFFFFF8\<close>) names the same tag again.
\<close>

definition tag_type :: "u64 \<Rightarrow> (u64, 'z hw_scheme) prog" where
  "tag_type tag = load 4 tag"

definition tag_step :: "u64 \<Rightarrow> u64" where
  "tag_step sz = ucast ((ucast sz + 7 :: u32) AND NOT 7)"

definition MB2_TAG_NEXT :: "u64 \<Rightarrow> (u64, 'z hw_scheme) prog" where
  "MB2_TAG_NEXT tag = bind (load 4 (tag + 4)) (\<lambda>sz. ret (tag + tag_step sz))"

text \<open>The tags of the other kinds behind their type and size: the command line, a module, a memory map.\<close>

definition tag_string :: "u64 \<Rightarrow> cstr" where
  "tag_string tag = Ptr (tag + 8)"

definition tag_module :: "u64 \<Rightarrow> (u64 \<times> u64 \<times> cstr, 'z hw_scheme) prog" where
  "tag_module tag = bind (load 4 (tag + 8)) (\<lambda>start. bind (load 4 (tag + 12)) (\<lambda>stop. ret (start, stop, Ptr (tag + 16))))"

definition tag_entry_size :: "u64 \<Rightarrow> (u64, 'z hw_scheme) prog" where
  "tag_entry_size tag = load 4 (tag + 8)"

section \<open>The command line\<close>

text \<open>The inner loop of \<open>cmdline_has\<close>: whether the needle starts here.\<close>

partial_function (option) cmdline_match :: "cstr \<Rightarrow> cstr \<Rightarrow> (bool, 'z hw_scheme) prog" where
  "cmdline_match h n s = bind (deref n) (\<lambda>y. if y = 0 then ret True
     else bind (deref h) (\<lambda>x. if x = y then cmdline_match (adv h) (adv n) else ret False)) s"

partial_function (option) cmdline_has :: "cstr \<Rightarrow> cstr \<Rightarrow> (bool, 'z hw_scheme) prog" where
  "cmdline_has haystack needle s = bind (deref haystack) (\<lambda>x. if x = 0 then ret False
     else bind (cmdline_match haystack needle) (\<lambda>found. if found then ret True
       else cmdline_has (adv haystack) needle)) s"

datatype hal_console_type = HAL_CONSOLE_VGA | HAL_CONSOLE_SERIAL

partial_function (option) parse_console_tags :: "u64 \<Rightarrow> (hal_console_type, 'z hw_scheme) prog" where
  "parse_console_tags tag s = bind (tag_type tag) (\<lambda>ty.
     if ty = MB2_TAG_END then ret HAL_CONSOLE_VGA
     else if ty = MB2_TAG_CMDLINE
     then bind (cmdline_has (tag_string tag) (str ''console=serial'')) (\<lambda>found.
       ret (if found then HAL_CONSOLE_SERIAL else HAL_CONSOLE_VGA))
     else bind (MB2_TAG_NEXT tag) parse_console_tags) s"

definition hal_early_parse_console :: "u64 \<Rightarrow> (hal_console_type, 'z hw_scheme) prog" where
  "hal_early_parse_console boot_addr =
     (if boot_addr = 0 then ret HAL_CONSOLE_VGA else parse_console_tags (boot_addr + 8))"

section \<open>The search is substring search\<close>

lemma cmdline_match_run:
  assumes "denotes (mem s) h xs" and "denotes (mem s) n ys"
  shows "cmdline_match h n s = Some (Ok (prefix ys xs) s)"
  using assms
proof (induction ys arbitrary: h n xs)
  case Nil
  then show ?case by (subst cmdline_match.simps) (simp add: bind_run deref_run ret_run)
next
  case (Cons y ys)
  show ?case
  proof (cases xs)
    case Nil
    with Cons.prems show ?thesis
      by (subst cmdline_match.simps) (auto simp: bind_run deref_run ret_run)
  next
    case X: (Cons x xs')
    with Cons.prems have "denotes (mem s) (adv h) xs'" "denotes (mem s) (adv n) ys" by simp_all
    with Cons.IH have "cmdline_match (adv h) (adv n) s = Some (Ok (prefix ys xs') s)" by blast
    with X Cons.prems show ?thesis
      by (subst cmdline_match.simps) (auto simp: bind_run deref_run ret_run)
  qed
qed

lemma cmdline_has_run:
  assumes "denotes (mem s) h xs" and "denotes (mem s) n ys" and "ys \<noteq> []"
  shows "cmdline_has h n s = Some (Ok (sublist ys xs) s)"
  using assms(1)
proof (induction xs arbitrary: h)
  case Nil
  with assms(3) show ?case by (subst cmdline_has.simps) (simp add: bind_run deref_run ret_run)
next
  case (Cons x xs)
  then have "cmdline_has (adv h) n s = Some (Ok (sublist ys xs) s)" by simp
  with Cons.prems show ?case
    by (subst cmdline_has.simps)
      (simp add: bind_run deref_run ret_run cmdline_match_run [OF Cons.prems assms(2)] sublist_Cons_right)
qed

section \<open>Chains of tags\<close>

text \<open>
  \<open>tag_chain m a ts\<close>: the tags from the address \<open>a\<close> on, up to the end tag, start at the
  addresses \<open>ts\<close>.
\<close>

fun tag_chain :: "memory \<Rightarrow> u64 \<Rightarrow> u64 list \<Rightarrow> bool" where
  "tag_chain m a [] = (mapped a 4 \<and> read_le m a 4 = MB2_TAG_END)"
| "tag_chain m a (t # ts) = (a = t \<and> mapped a 8 \<and> read_le m a 4 \<noteq> MB2_TAG_END
     \<and> tag_chain m (a + tag_step (read_le m (a + 4) 4)) ts)"

lemma tag_chain_ConsD:
  assumes "tag_chain m a (t # ts)"
  shows "mapped a 4" and "mapped (a + 4) 4" and "read_le m a 4 \<noteq> MB2_TAG_END"
    and "tag_chain m (a + tag_step (read_le m (a + 4) 4)) ts" and "a = t"
proof -
  show m: "a = t" "read_le m a 4 \<noteq> MB2_TAG_END" "tag_chain m (a + tag_step (read_le m (a + 4) 4)) ts"
    using assms by auto
  from assms have "mapped a 8" by auto
  then show "mapped a 4" "mapped (a + 4) 4"
    using mapped_offset [of a 8 4 4] mapped_less [of a 8 4] by simp_all
qed

lemma MB2_TAG_NEXT_run:
  "mapped (a + 4) 4 \<Longrightarrow> MB2_TAG_NEXT a s = Some (Ok (a + tag_step (read_le (mem s) (a + 4) 4)) s)"
  by (simp add: MB2_TAG_NEXT_def bind_run load_run ret_run)

text \<open>
  The console the kernel picks: serial when the string of the first command line tag holds
  \<open>console=serial\<close>, the display otherwise.
\<close>

definition picks_serial :: "memory \<Rightarrow> u64 list \<Rightarrow> u8 list \<Rightarrow> bool" where
  "picks_serial m ts line \<longleftrightarrow>
     (\<exists>t\<in>set ts. read_le m t 4 = MB2_TAG_CMDLINE) \<and> sublist (lit ''console=serial'') line"

lemma parse_console_tags_run:
  assumes "tag_chain (mem s) a ts"
    and "case find (\<lambda>t. read_le (mem s) t 4 = MB2_TAG_CMDLINE) ts of
        Some t \<Rightarrow> denotes (mem s) (Ptr (t + 8)) line | None \<Rightarrow> True"
  shows "parse_console_tags a s =
    Some (Ok (if picks_serial (mem s) ts line then HAL_CONSOLE_SERIAL else HAL_CONSOLE_VGA) s)"
  using assms
proof (induction ts arbitrary: a)
  case Nil
  then show ?case
    by (subst parse_console_tags.simps) (simp add: bind_run tag_type_def load_run ret_run picks_serial_def)
next
  case (Cons t ts)
  note t = tag_chain_ConsD [OF Cons.prems(1)]
  have lit: "denotes (mem s) (str ''console=serial'') (lit ''console=serial'')"
    by (rule denotes_Lit) simp
  show ?case
  proof (cases "read_le (mem s) a 4 = MB2_TAG_CMDLINE")
    case True
    with Cons.prems(2) t(5) have "denotes (mem s) (Ptr (a + 8)) line" by simp
    from cmdline_has_run [OF this lit] have
      "cmdline_has (tag_string a) (str ''console=serial'') s = Some (Ok (sublist (lit ''console=serial'') line) s)"
      by (simp add: tag_string_def)
    with True t show ?thesis
      by (subst parse_console_tags.simps)
        (simp add: bind_run tag_type_def load_run ret_run picks_serial_def del: lit_Cons)
  next
    case False
    with Cons.prems(2) t(5) have "parse_console_tags (a + tag_step (read_le (mem s) (a + 4) 4)) s =
      Some (Ok (if picks_serial (mem s) ts line then HAL_CONSOLE_SERIAL else HAL_CONSOLE_VGA) s)"
      by (intro Cons.IH t(4)) simp
    with False t show ?thesis
      by (subst parse_console_tags.simps)
        (simp add: bind_run tag_type_def load_run MB2_TAG_NEXT_run picks_serial_def)
  qed
qed

text \<open>A tag of size 0 before any command line tag: the loop never ends.\<close>

lemma parse_console_tags_loops:
  assumes "mapped a 8" and "read_le (mem s) a 4 \<notin> {MB2_TAG_END, MB2_TAG_CMDLINE}"
    and "tag_step (read_le (mem s) (a + 4) 4) = 0"
  shows "parse_console_tags a s = None"
proof (rule ccontr)
  have m: "mapped a 4" "mapped (a + 4) 4"
    using mapped_less [OF assms(1), of 4] mapped_offset [OF assms(1), of 4 4] by simp_all
  assume "parse_console_tags a s \<noteq> None"
  then obtain r where "parse_console_tags a s = Some r" by blast
  then have "a \<noteq> a \<or> s \<noteq> s"
  proof (rule parse_console_tags.raw_induct [where P = "\<lambda>x y r. x \<noteq> a \<or> y \<noteq> s", rotated])
    fix rec :: "u64 \<Rightarrow> (hal_console_type, 'a hw_scheme) prog" and x y r
    assume IH: "\<And>x y r. rec x y = Some r \<Longrightarrow> x \<noteq> a \<or> y \<noteq> s"
      and eq: "bind (tag_type x) (\<lambda>ty. if ty = MB2_TAG_END then ret HAL_CONSOLE_VGA
         else if ty = MB2_TAG_CMDLINE
         then bind (cmdline_has (tag_string x) (str ''console=serial'')) (\<lambda>found.
           ret (if found then HAL_CONSOLE_SERIAL else HAL_CONSOLE_VGA))
         else bind (MB2_TAG_NEXT x) rec) y = Some r"
    show "x \<noteq> a \<or> y \<noteq> s"
    proof (rule ccontr)
      assume "\<not> (x \<noteq> a \<or> y \<noteq> s)"
      with eq assms m have "rec a s = Some r"
        by (simp add: bind_run tag_type_def load_run MB2_TAG_NEXT_run)
      with IH show False by blast
    qed
  qed
  then show False by simp
qed

text \<open>Reading the structure changes nothing.\<close>

lemma unchanged_cmdline_match [unchanged_intros]:
  fixes f :: "'z hw_scheme \<Rightarrow> 'f"
  shows "unchanged f (cmdline_match h n)"
proof (rule unchangedI)
  fix s :: "'z hw_scheme" and r assume "cmdline_match h n s = Some r"
  then show "leaves f s r"
  proof (rule cmdline_match.raw_induct [where P = "\<lambda>h n s r. leaves f s r", rotated])
    fix rec h n s r
    assume IH: "\<And>h n s r. rec h n s = Some r \<Longrightarrow> leaves f s r"
      and eq: "bind (deref n) (\<lambda>y. if y = 0 then ret True
         else bind (deref h) (\<lambda>x. if x = y then rec (adv h) (adv n) else ret False)) s = Some r"
    have "unchanged f (rec h n)" for h n using IH by (rule unchangedI)
    then have "unchanged f (bind (deref n) (\<lambda>y. if y = 0 then ret True
         else bind (deref h) (\<lambda>x. if x = y then rec (adv h) (adv n) else ret False)))"
      by (intro unchanged_intros)
    then show "leaves f s r" using eq by (rule unchangedD)
  qed
qed

lemma unchanged_cmdline_has [unchanged_intros]:
  fixes f :: "'z hw_scheme \<Rightarrow> 'f"
  shows "unchanged f (cmdline_has h n)"
proof (rule unchangedI)
  fix s :: "'z hw_scheme" and r assume "cmdline_has h n s = Some r"
  then show "leaves f s r"
  proof (rule cmdline_has.raw_induct [where P = "\<lambda>h n s r. leaves f s r", rotated])
    fix rec h n s r
    assume IH: "\<And>h n s r. rec h n s = Some r \<Longrightarrow> leaves f s r"
      and eq: "bind (deref h) (\<lambda>x. if x = 0 then ret False
         else bind (cmdline_match h n) (\<lambda>found. if found then ret True else rec (adv h) n)) s = Some r"
    have "unchanged f (rec h n)" for h n using IH by (rule unchangedI)
    then have "unchanged f (bind (deref h) (\<lambda>x. if x = 0 then ret False
         else bind (cmdline_match h n) (\<lambda>found. if found then ret True else rec (adv h) n)))"
      by (intro unchanged_intros)
    then show "leaves f s r" using eq by (rule unchangedD)
  qed
qed

lemma unchanged_MB2_TAG_NEXT [unchanged_intros]: "unchanged f (MB2_TAG_NEXT tag)"
  unfolding MB2_TAG_NEXT_def by (intro unchanged_intros)

lemma unchanged_tag_fields [unchanged_intros]:
  "unchanged f (tag_type tag)" "unchanged f (tag_module tag)" "unchanged f (tag_entry_size tag)"
  unfolding tag_type_def tag_module_def tag_entry_size_def by (intro unchanged_intros)+

end
