(* ===== verification/Console.thy ===== *)
theory Console imports Multiboot begin

text \<open>
  The console, the memory map store and the panic of \<open>kernel/arch/x86_64/hal.c\<close>: the layer
  that routes every character to the display or to the serial line.
\<close>

section \<open>State\<close>

record hal_mem_region =
  base :: u64
  length_of :: u64
  type_of :: u32

record hal = kbd +
  active_console :: hal_console_type
  mem_map :: "hal_mem_region list"
  mem_map_count :: u32

section \<open>Console operations\<close>

definition on_serial :: "'z hal_scheme \<Rightarrow> bool" where
  "on_serial s \<longleftrightarrow> active_console s = HAL_CONSOLE_SERIAL"

definition hal_console_init :: "hal_console_type \<Rightarrow> (unit, 'z hal_scheme) prog" where
  "hal_console_init type = seq [
     modify (\<lambda>s. s\<lparr>active_console := type\<rparr>),
     (if type = HAL_CONSOLE_SERIAL then serial_init else seq [vga_init, keyboard_init])]"

definition hal_console_putchar :: "u8 \<Rightarrow> (unit, 'z hal_scheme) prog" where
  "hal_console_putchar c = branch on_serial (serial_putchar c) (vga_putchar c)"

definition hal_console_print :: "cstr \<Rightarrow> (unit, 'z hal_scheme) prog" where
  "hal_console_print c = branch on_serial (serial_print c) (vga_print c)"

definition hal_console_print_hex :: "u64 \<Rightarrow> (unit, 'z hal_scheme) prog" where
  "hal_console_print_hex v = branch on_serial (serial_print_hex v) (vga_print_hex v)"

definition hal_console_clear :: "(unit, 'z hal_scheme) prog" where
  "hal_console_clear = branch (\<lambda>s. active_console s = HAL_CONSOLE_VGA) vga_clear skip"

definition hal_console_getchar :: "(int, 'z hal_scheme) prog" where
  "hal_console_getchar = branch on_serial serial_getchar keyboard_getchar"

text \<open>
  The loop that fills \<open>buf\<close> from the end: \<open>None\<close> is the write to \<open>buf[-1]\<close>. The bytes the
  loop does not reach are never read.
\<close>

function dec_fill :: "u64 \<Rightarrow> nat \<Rightarrow> u8 list \<Rightarrow> (nat \<times> u8 list) option" where
  "dec_fill value i buf = (if value > 0
     then (if i = 0 then None
       else dec_fill (value div 10) (i - 1) (buf[i - 1 := 0x30 + ucast (value mod 10)]))
     else Some (i, buf))"
  by pat_completeness auto
termination
  by (relation "measure (\<lambda>(value, i, buf). i)") auto

declare dec_fill.simps [simp del]

definition hal_console_print_dec :: "u64 \<Rightarrow> (unit, 'z hal_scheme) prog" where
  "hal_console_print_dec value = (if value = 0 then hal_console_putchar 0x30
     else (case dec_fill value 19 ((replicate 20 0)[19 := 0]) of
       None \<Rightarrow> undef
     | Some (i, buf) \<Rightarrow> hal_console_print (Lit (drop i buf))))"

definition hal_console_panic_color :: "(unit, 'z hal_scheme) prog" where
  "hal_console_panic_color =
     branch (\<lambda>s. active_console s = HAL_CONSOLE_VGA) (vga_set_color VGA_WHITE VGA_RED) skip"

definition hal_panic :: "cstr \<Rightarrow> ('a, 'z hal_scheme) prog" where
  "hal_panic msg = bind (seq [
     hal_cpu_disable_interrupts,
     hal_console_panic_color,
     hal_console_print (Lit ([0x0A, 0x0A] @ lit ''  KERNEL PANIC: '')),
     hal_console_print msg,
     hal_console_print (Lit (lit ''  '' @ [0x0A]))]) (\<lambda>_. hal_cpu_halt)"

section \<open>The memory map\<close>

text \<open>\<open>mmap\<close> and \<open>out\<close> are the arrays of the callers; an index past their end is undefined.\<close>

definition hal_mem_set_map :: "hal_mem_region list \<Rightarrow> u32 \<Rightarrow> (unit, 'z hal_scheme) prog" where
  "hal_mem_set_map mmap count = seq [
     modify (\<lambda>s. s\<lparr>mem_map_count := (if count < 64 then count else 64)\<rparr>),
     bind (gets mem_map_count) (\<lambda>n. for_each [0..<unat n] (\<lambda>i.
       if i < length mmap then modify (\<lambda>s. s\<lparr>mem_map := (mem_map s)[i := mmap ! i]\<rparr>) else undef))]"

definition hal_mem_get_map ::
  "hal_mem_region list \<Rightarrow> u32 \<Rightarrow> (u32 \<times> hal_mem_region list, 'z hal_scheme) prog" where
  "hal_mem_get_map out limit = bind (gets (\<lambda>s. (mem_map_count s, mem_map s))) (\<lambda>(count, mmap).
     let n = (if count < limit then count else limit) in
     if unat n \<le> length out
     then ret (n, fold (\<lambda>i out. out[i := mmap ! i]) [0..<unat n] out) else undef)"

definition mem_map_inv :: "'z hal_scheme \<Rightarrow> bool" where
  "mem_map_inv s \<longleftrightarrow> length (mem_map s) = 64 \<and> mem_map_count s \<le> 64"

text \<open>The map as its users see it.\<close>

definition regions :: "'z hal_scheme \<Rightarrow> hal_mem_region list" where
  "regions s = take (unat (mem_map_count s)) (mem_map s)"

section \<open>The console as a device\<close>

definition con_inv :: "'z hal_scheme \<Rightarrow> bool" where
  "con_inv s \<longleftrightarrow> on_serial s \<or> vga_inv s"

text \<open>Parts of the state that only the drivers below touch.\<close>

definition con_local :: "('z hal_scheme \<Rightarrow> 'f) \<Rightarrow> bool" where
  "con_local f \<longleftrightarrow> vga_local f \<and> kbd_local f"

lemma con_local_port_free: "con_local f \<Longrightarrow> port_free f"
  by (simp add: con_local_def port_free_def vga_local_def kbd_local_def)

lemma con_localI:
  assumes "\<And>s x. f (s\<lparr>port_out := x\<rparr>) = f s" "\<And>s x. f (s\<lparr>port_in := x\<rparr>) = f s"
    "\<And>s x. f (s\<lparr>vram := x\<rparr>) = f s" "\<And>s x. f (s\<lparr>buffer := x\<rparr>) = f s"
    "\<And>s x. f (s\<lparr>cursor_row := x\<rparr>) = f s" "\<And>s x. f (s\<lparr>cursor_col := x\<rparr>) = f s"
    "\<And>s x. f (s\<lparr>current_color := x\<rparr>) = f s"
    "\<And>s x. f (s\<lparr>shift_held := x\<rparr>) = f s" "\<And>s x. f (s\<lparr>extended := x\<rparr>) = f s"
  shows "con_local f"
  by (simp add: con_local_def vga_local_def kbd_local_def assms)

lemma con_local_basic [simp]:
  "con_local mem" "con_local active_console" "con_local on_serial" "con_local mem_map"
  "con_local mem_map_count" "con_local intr_enabled"
  by (rule con_localI; simp add: on_serial_def)+

lemma con_local_pair: "con_local f \<Longrightarrow> con_local g \<Longrightarrow> con_local (\<lambda>s. (f s, g s))"
  by (simp add: con_local_def vga_local_def kbd_local_def)

lemma con_local_comp: "con_local f \<Longrightarrow> con_local (\<lambda>s. h (f s))"
  by (simp add: con_local_def vga_local_def kbd_local_def)

text \<open>Less than that is touched by printing: not the colour, the keyboard or the other ports.\<close>

definition print_free :: "('z hal_scheme \<Rightarrow> 'f) \<Rightarrow> bool" where
  "print_free f \<longleftrightarrow> vga_free f \<and> line_free f"

lemma con_local_print [simp]: "con_local f \<Longrightarrow> print_free f"
  using con_local_port_free [of f] by (simp add: con_local_def print_free_def)

lemma unchanged_hal_console_putchar [unchanged_intros]:
  "print_free f \<Longrightarrow> unchanged f (hal_console_putchar c)"
  unfolding hal_console_putchar_def
  by (intro unchanged_intros) (simp_all add: print_free_def)

lemma unchanged_hal_console_print [unchanged_intros]:
  "print_free f \<Longrightarrow> unchanged f (hal_console_print c)"
  unfolding hal_console_print_def serial_print_def vga_print_def
  by (intro unchanged_intros) (simp_all add: print_free_def)

lemma unchanged_hal_console_print_hex [unchanged_intros]:
  "print_free f \<Longrightarrow> unchanged f (hal_console_print_hex v)"
  unfolding hal_console_print_hex_def serial_print_hex_def vga_print_hex_def serial_print_def vga_print_def
  by (intro unchanged_intros) (simp_all add: print_free_def)

lemma unchanged_hal_console_clear [unchanged_intros]:
  "print_free f \<Longrightarrow> unchanged f hal_console_clear"
  unfolding hal_console_clear_def by (intro unchanged_intros) (simp_all add: print_free_def)

lemma unchanged_hal_console_panic_color [unchanged_intros]:
  "con_local f \<Longrightarrow> unchanged f hal_console_panic_color"
  unfolding hal_console_panic_color_def by (intro unchanged_intros) (simp_all add: con_local_def)

lemma unchanged_hal_console_getchar [unchanged_intros]:
  "con_local f \<Longrightarrow> unchanged f hal_console_getchar"
  unfolding hal_console_getchar_def
  by (intro unchanged_intros) (simp_all add: con_local_def con_local_port_free)

section \<open>Contracts\<close>

text \<open>
  The invariants of the later components are of the form \<open>con_and J\<close>: the console works, and
  \<open>J\<close> holds of a part of the state the console does not touch.
\<close>

definition con_and :: "('z hal_scheme \<Rightarrow> bool) \<Rightarrow> 'z hal_scheme \<Rightarrow> bool" where
  "con_and J s \<longleftrightarrow> con_inv s \<and> J s"

lemma con_and_True [simp]: "con_and (\<lambda>_. True) = con_inv"
  by (simp add: con_and_def fun_eq_iff)

lemma keeps_con_and: "keeps con_inv m \<Longrightarrow> unchanged J m \<Longrightarrow> keeps (con_and J) m"
  unfolding con_and_def [abs_def] by (rule keeps_unchanged)

lemma keeps_route:
  fixes m k :: "('a, 'z hal_scheme) prog"
  assumes m: "keeps on_serial m" and k: "keeps vga_inv k" "unchanged on_serial k"
  shows "keeps con_inv (branch on_serial m k)"
proof (rule keeps_branch_cond)
  have "(\<lambda>s :: 'z hal_scheme. con_inv s \<and> on_serial s) = on_serial" by (auto simp: con_inv_def)
  then show "keeps (\<lambda>s. con_inv s \<and> on_serial s) m" using m by (simp only:)
  have "unchanged (\<lambda>s. \<not> on_serial s) k"
    by (rule unchanged_comp [OF k(2)])
  with k(1) have "keeps (\<lambda>s. vga_inv s \<and> \<not> on_serial s) k" by (rule keeps_unchanged)
  moreover have "(\<lambda>s :: 'z hal_scheme. con_inv s \<and> \<not> on_serial s) = (\<lambda>s. vga_inv s \<and> \<not> on_serial s)"
    by (auto simp: con_inv_def)
  ultimately show "keeps (\<lambda>s. con_inv s \<and> \<not> on_serial s) k" by (simp only:)
qed

lemma local_on_serial [simp]: "vga_local on_serial" "port_free on_serial" "kbd_local on_serial"
  using con_local_basic(3) con_local_port_free by (auto simp: con_local_def)

lemma keeps_con_putchar: "keeps con_inv (hal_console_putchar c)"
  unfolding hal_console_putchar_def
  by (intro keeps_route keeps_serial_putchar keeps_vga_putchar unchanged_vga_putchar) simp_all

lemma for_each_hal_console_putchar:
  "for_each xs hal_console_putchar = branch on_serial (for_each xs serial_putchar) (for_each xs vga_putchar)"
  unfolding hal_console_putchar_def [abs_def]
  by (intro for_each_branch unchanged_serial_putchar unchanged_vga_putchar) simp_all

lemma hal_console_print_run:
  assumes "denotes (mem s) c xs"
  shows "hal_console_print c s = for_each xs hal_console_putchar s"
  by (simp add: for_each_hal_console_putchar hal_console_print_def branch_run
      serial_print_run [OF assms] vga_print_run [OF assms])

lemma print_on_serial:
  "unchanged on_serial (serial_print c)" "unchanged on_serial (vga_print c)"
  unfolding serial_print_def vga_print_def
  by (intro unchanged_put_string unchanged_serial_putchar unchanged_vga_putchar port_free_line vga_local_free local_on_serial)+

lemma hal_console_print_hex_digits:
  "hal_console_print_hex v = seq [hal_console_print (str ''0x''), hal_console_print (Lit (hex_buf 16 v))]"
  by (simp add: hal_console_print_hex_def hal_console_print_def serial_print_hex_def
      vga_print_hex_def branch_bind [OF print_on_serial] del: lit_Cons)

interpretation con_dev: char_device hal_console_putchar hal_console_print hal_console_print_hex con_inv
  by unfold_locales (simp_all add: keeps_con_putchar unchanged_hal_console_putchar
      hal_console_print_run hal_console_print_hex_digits del: lit_Cons)

lemma keeps_hal_console_putchar [keeps_intros]:
  "con_local J \<Longrightarrow> keeps (con_and J) (hal_console_putchar c)"
  by (intro keeps_con_and con_dev.putchar_keeps unchanged_hal_console_putchar con_local_print)

lemma keeps_hal_console_print_Lit [keeps_intros]:
  "con_local J \<Longrightarrow> keeps (con_and J) (hal_console_print (Lit xs))"
  by (intro keeps_con_and con_dev.keeps_print_Lit unchanged_hal_console_print con_local_print)

lemma keeps_hal_console_print_hex [keeps_intros]:
  "con_local J \<Longrightarrow> keeps (con_and J) (hal_console_print_hex v)"
  by (intro keeps_con_and con_dev.keeps_print_hex unchanged_hal_console_print_hex con_local_print)

text \<open>A string anywhere, when the invariant says that it is a string.\<close>

lemma keeps_hal_console_print [keeps_intros]:
  assumes J: "con_local J" and str: "\<And>s. J s \<Longrightarrow> \<exists>xs. denotes (mem s) c xs"
  shows "keeps (con_and J) (hal_console_print c)"
proof (rule keepsI)
  fix s assume s: "con_and J s"
  with str obtain xs where "denotes (mem s) c xs" by (auto simp: con_and_def)
  then have "hal_console_print c s = for_each xs hal_console_putchar s" by (rule hal_console_print_run)
  moreover have "keeps (con_and J) (for_each xs hal_console_putchar)"
    by (intro keeps_intros J)
  ultimately show "\<exists>r. hal_console_print c s = Some r \<and> good (\<lambda>_. con_and J) (con_and J) r"
    using s by (fastforce elim: keepsE)
qed

lemma keeps_hal_console_panic_color [keeps_intros]:
  assumes "con_local J" shows "keeps (con_and J) hal_console_panic_color"
proof (intro keeps_con_and unchanged_hal_console_panic_color assms)
  show "keeps con_inv (hal_console_panic_color :: (unit, 'a hal_scheme) prog)"
    by (rule keepsI) (auto simp: hal_console_panic_color_def branch_run vga_set_color_def modify_run
        skip_run con_inv_def vga_inv_def on_serial_def)
qed

lemma vga_inv_con_inv: "vga_inv s \<Longrightarrow> con_inv s"
  by (simp add: con_inv_def)

lemma keeps_hal_console_clear [keeps_intros]:
  fixes J :: "'z hal_scheme \<Rightarrow> bool"
  assumes "con_local J"
  shows "keeps (con_and J) hal_console_clear"
proof (intro keeps_con_and unchanged_hal_console_clear con_local_print assms)
  show "keeps con_inv (hal_console_clear :: (unit, 'z hal_scheme) prog)"
  proof (rule keepsI)
    fix s :: "'z hal_scheme" assume s: "con_inv s"
    show "\<exists>r. hal_console_clear s = Some r \<and> good (\<lambda>_. con_inv) con_inv r"
    proof (cases "active_console s = HAL_CONSOLE_VGA")
      case True
      with s have "vga_inv s" by (simp add: con_inv_def on_serial_def)
      with keeps_vga_clear True show ?thesis
        by (auto simp: hal_console_clear_def branch_run vga_inv_con_inv elim: keepsE [of _ _ s])
    qed (use s in \<open>simp add: hal_console_clear_def branch_run skip_run\<close>)
  qed
qed

lemma vga_init_inv:
  assumes "length (vram s) = VGA_ROWS * VGA_COLS"
  shows "\<exists>t. vga_init s = Some (Ok () t) \<and> vga_inv t"
proof -
  let ?s = "s\<lparr>buffer := VGA_BUFFER, cursor_row := 0, cursor_col := 0,
       current_color := make_color VGA_WHITE VGA_BLACK\<rparr>"
  have "vga_inv ?s" using assms by (simp add: vga_inv_def VGA_ROWS_def VGA_COLS_def)
  with vga_clear_implements obtain t where "vga_clear ?s = Some (Ok () t)" "vga_inv t"
    unfolding implements_def by blast
  then show ?thesis by (simp add: vga_init_def bind_run modify_run skip_run)
qed

lemma kbd_local_conj:
  "kbd_local f \<Longrightarrow> kbd_local g \<Longrightarrow> kbd_local (\<lambda>s. f s \<and> g s)"
  by (simp add: kbd_local_def)

lemma kbd_local_vga_inv [simp]: "kbd_local vga_inv"
  by (simp add: kbd_local_def vga_inv_def)

text \<open>After its initialisation the console works, whatever it was before.\<close>

lemma hal_console_init_spec:
  fixes J :: "'z hal_scheme \<Rightarrow> bool"
  assumes J: "con_local J" and type: "\<And>s x. J (s\<lparr>active_console := x\<rparr>) = J s"
  shows "spec (\<lambda>s. length (vram s) = VGA_ROWS * VGA_COLS \<and> J s) (hal_console_init type)
    (\<lambda>_ s. con_and J s \<and> active_console s = type) (con_and J)"
proof (rule specI)
  fix s assume s: "length (vram s) = VGA_ROWS * VGA_COLS \<and> J s"
  let ?s = "s\<lparr>active_console := type\<rparr>" and ?A = "\<lambda>s :: 'z hal_scheme. active_console s = type"
  have J': "J ?s" using s type by simp
  have loc: "con_local ?A"
    by (rule con_local_comp) simp
  show "\<exists>r. hal_console_init type s = Some r
      \<and> good (\<lambda>_ s. con_and J s \<and> active_console s = type) (con_and J) r"
  proof (cases "type = HAL_CONSOLE_SERIAL")
    case True
    have "keeps (\<lambda>s. J s \<and> ?A s) serial_init"
      using con_local_port_free [OF J] con_local_port_free [OF loc]
      by (intro keeps_unchanged keeps_serial_init unchanged_serial_init)
    with J' True show ?thesis
      by (elim keepsE [of _ _ ?s]) (auto simp: hal_console_init_def bind_run modify_run skip_run
          con_and_def con_inv_def on_serial_def)
  next
    case False
    from vga_init_inv [of ?s] s obtain t where t: "vga_init ?s = Some (Ok () t)" "vga_inv t" by auto
    have "J t" "?A t"
      using unchanged_OkD [OF unchanged_vga_init t(1), of J] unchanged_OkD [OF unchanged_vga_init t(1), of ?A]
        J J' loc by (simp_all add: con_local_def)
    have "kbd_local (\<lambda>s. vga_inv s \<and> J s \<and> ?A s)"
      using J loc by (intro kbd_local_conj) (simp_all add: con_local_def)
    then have "keeps (\<lambda>s. vga_inv s \<and> J s \<and> ?A s) keyboard_init" by (rule keeps_keyboard_init)
    with t \<open>J t\<close> \<open>?A t\<close> False show ?thesis
      by (elim keepsE [of _ _ t]) (auto simp: hal_console_init_def bind_run modify_run skip_run
          con_and_def con_inv_def)
  qed
qed

section \<open>Reading\<close>

lemma hal_console_getchar_spec:
  assumes J: "con_local J"
  shows "spec (con_and J) hal_console_getchar (\<lambda>ch s. con_and J s \<and> 0 \<le> ch \<and> ch < 256) (con_and J)"
proof (rule specI)
  fix s assume s: "con_and J s"
  show "\<exists>r. hal_console_getchar s = Some r \<and> good (\<lambda>ch s. con_and J s \<and> 0 \<le> ch \<and> ch < 256) (con_and J) r"
  proof (cases "on_serial s")
    case True
    have "unchanged (\<lambda>s. on_serial s \<and> J s) serial_getchar"
      using J by (intro unchanged_serial_getchar con_local_port_free) (simp add: con_local_def vga_local_def kbd_local_def on_serial_def)
    moreover have "\<exists>r. serial_getchar s = Some r \<and> good (\<lambda>ch _. 0 \<le> ch \<and> ch < 256) (\<lambda>_. True) r"
      using uint_lt2p [where 'a = 8]
      by (auto simp: serial_getchar_def bind_run wait_data_ready_def poll_run poll_result_def inb_def ret_run split: list.splits)
    ultimately show ?thesis
      using True s by (auto simp: hal_console_getchar_def branch_run con_and_def con_inv_def
          dest!: unchangedD elim!: good.elims)
  next
    case False
    let ?I = "\<lambda>s. vga_inv s \<and> J s"
    have "kbd_local ?I" using J by (intro kbd_local_conj) (simp_all add: con_local_def)
    then have "spec ?I keyboard_getchar (\<lambda>ch s. ?I s \<and> 0 < ch \<and> ch < 128) ?I"
      by (rule keyboard_getchar_spec)
    then obtain r where "keyboard_getchar s = Some r" "good (\<lambda>ch s. ?I s \<and> 0 < ch \<and> ch < 128) ?I r"
      using s False by (auto simp: con_and_def con_inv_def elim: specE)
    with False show ?thesis
      by (cases r) (auto simp: hal_console_getchar_def branch_run con_and_def con_inv_def)
  qed
qed

section \<open>Decimal numbers\<close>

text \<open>The decimal digits of a number and the parser they are the input of.\<close>

fun dec_str :: "nat \<Rightarrow> u8 list" where
  "dec_str n = (if n < 10 then [0x30 + of_nat n] else dec_str (n div 10) @ [0x30 + of_nat (n mod 10)])"

declare dec_str.simps [simp del]

definition dec_parse :: "u8 list \<Rightarrow> nat" where
  "dec_parse cs = foldl (\<lambda>n c. n * 10 + (unat c - 0x30)) 0 cs"

lemma unat_dec_digit: "k < 10 \<Longrightarrow> unat (0x30 + of_nat k :: u8) = 48 + k"
  by (simp add: unat_word_ariths unat_of_nat)

lemma dec_parse_str: "dec_parse (dec_str n) = n"
proof (induction n rule: dec_str.induct)
  case (1 n)
  then show ?case
    by (subst dec_str.simps) (simp add: dec_parse_def unat_dec_digit)
qed

lemma dec_str_no_zero: "0 \<notin> set (dec_str n)"
proof (induction n rule: dec_str.induct)
  case (1 n)
  have "0x30 + of_nat k \<noteq> (0 :: u8)" if "k < 10" for k
    using unat_dec_digit [OF that] by (auto simp: word_unat_eq_iff)
  with 1 show ?case by (subst dec_str.simps) auto
qed

lemma length_dec_str: "n < 10 ^ Suc k \<Longrightarrow> length (dec_str n) \<le> Suc k"
proof (induction k arbitrary: n)
  case 0
  then show ?case by (subst dec_str.simps) simp
next
  case (Suc k)
  then have "n div 10 < 10 ^ Suc k" by (simp add: less_mult_imp_div_less)
  with Suc.IH show ?case by (subst dec_str.simps) simp
qed

lemma length_dec_str_ge: "10 ^ k \<le> n \<Longrightarrow> k < length (dec_str n)"
proof (induction k arbitrary: n)
  case 0
  then show ?case by (subst dec_str.simps) simp
next
  case (Suc k)
  then have "10 ^ k \<le> n div 10" by (simp add: less_eq_div_iff_mult_less_eq mult.commute)
  moreover have "10 \<le> 10 * (10 :: nat) ^ k" by simp
  then have "\<not> n < 10" using Suc.prems by (simp only: power_Suc not_less)
  ultimately show ?case using Suc.IH by (subst dec_str.simps) fastforce
qed

text \<open>
  The buffer loop writes the digits right before its start, when they fit, and runs off
  the buffer when they do not.
\<close>

lemma dec_fill_run:
  assumes "0 < v" and "i \<le> length buf"
  shows "dec_fill v i buf = (let ds = dec_str (unat v) in
    if length ds \<le> i then Some (i - length ds, take (i - length ds) buf @ ds @ drop i buf) else None)"
  using assms
proof (induction v i buf rule: dec_fill.induct)
  case (1 v i buf)
  let ?n = "unat v" and ?c = "0x30 + ucast (v mod 10) :: u8"
  have c: "?c = 0x30 + of_nat (?n mod 10)"
  proof -
    have "unat (ucast (v mod 10) :: u8) = ?n mod 10"
      by (simp add: unsigned_ucast_eq take_bit_eq_mod unat_mod)
    then show ?thesis by (metis of_nat_unat ucast_id)
  qed
  have n: "0 < ?n" using 1(2) by (simp add: word_less_nat_alt)
  show ?case
  proof (cases i)
    case 0
    moreover have "dec_str ?n \<noteq> []" by (subst dec_str.simps) simp
    ultimately show ?thesis using 1(2) by (subst dec_fill.simps) (simp add: Let_def)
  next
    case (Suc j)
    let ?buf = "buf[j := ?c]"
    have go: "dec_fill v i buf = dec_fill (v div 10) j ?buf"
      using 1(2) Suc by (subst dec_fill.simps) simp
    have buf: "take j ?buf = take j buf" "drop j ?buf = ?c # drop i buf"
      using Suc 1(3) by (simp_all add: drop_update_swap Cons_nth_drop_Suc [symmetric] take_update_cancel)
    show ?thesis
    proof (cases "?n < 10")
      case True
      then have "v div 10 = 0" by (simp add: word_unat_eq_iff unat_div)
      then have "dec_fill (v div 10) j ?buf = Some (j, ?buf)" by (subst dec_fill.simps) simp
      moreover have "?buf = take j buf @ ?c # drop i buf"
        using append_take_drop_id [of j ?buf] unfolding buf by simp
      ultimately show ?thesis using True Suc c go by (simp add: dec_str.simps Let_def)
    next
      case False
      then have vd: "0 < v div 10" by (simp add: word_less_nat_alt unat_div)
      have j: "i - 1 = j" using Suc by simp
      have "dec_fill (v div 10) (i - 1) ?buf = (let ds = dec_str (unat (v div 10)) in
          if length ds \<le> i - 1 then Some (i - 1 - length ds, take (i - 1 - length ds) ?buf @ ds @ drop (i - 1) ?buf) else None)"
        using 1(1) 1(2,3) vd Suc unfolding j by simp
      moreover have "dec_str ?n = dec_str (?n div 10) @ [?c]"
        using False c by (subst dec_str.simps) simp
      moreover have "take k ?buf = take k buf" if "k \<le> j" for k
        using that by simp
      ultimately show ?thesis
        unfolding go using Suc buf by (simp add: Let_def unat_div)
    qed
  qed
qed

lemma hal_console_print_dec_run:
  "hal_console_print_dec v s = (if unat v < 10 ^ 19
     then for_each (dec_str (unat v)) hal_console_putchar s else Some Undef)"
proof (cases "v = 0")
  case True
  have "dec_str 0 = [0x30]" by (subst dec_str.simps) simp
  with True show ?thesis by (simp add: hal_console_print_dec_def bind_skip_right)
next
  case False
  let ?ds = "dec_str (unat v)"
  have v: "0 < v" using False by (simp add: word_gt_0)
  define B where "B = (replicate 20 0 :: u8 list)[19 := 0]"
  have B: "length B = 20" "drop 19 B = [0]" by (simp_all add: B_def numeral_eq_Suc)
  have fill: "dec_fill v 19 B
    = (if length ?ds \<le> 19 then Some (19 - length ?ds, take (19 - length ?ds) B @ ?ds @ [0]) else None)"
    using dec_fill_run [OF v, of 19 B] by (simp add: Let_def B)
  have "length ?ds \<le> 19 \<longleftrightarrow> unat v < 10 ^ 19"
    using length_dec_str [of "unat v" 18] length_dec_str_ge [of 19 "unat v"] by (simp add: not_less [symmetric]) linarith
  moreover have "takeWhile (\<lambda>x. x \<noteq> 0) (?ds @ [0]) = ?ds"
    using dec_str_no_zero [of "unat v"] by (subst takeWhile_append2) auto
  ultimately show ?thesis using False
    by (simp add: hal_console_print_dec_def B_def [symmetric] fill B con_dev.print_Lit undef_run)
qed

lemma keeps_hal_console_print_dec [keeps_intros]:
  assumes J: "con_local J" and v: "unat v < 10 ^ 19"
  shows "keeps (con_and J) (hal_console_print_dec v)"
proof -
  have "hal_console_print_dec v = (for_each (dec_str (unat v)) hal_console_putchar :: (unit, 'a hal_scheme) prog)"
    using v by (intro ext) (simp add: hal_console_print_dec_run)
  moreover have "keeps (con_and J) (for_each (dec_str (unat v)) hal_console_putchar)"
    by (intro keeps_intros J)
  ultimately show ?thesis by (simp only:)
qed

lemma unchanged_hal_console_print_dec [unchanged_intros]:
  "print_free f \<Longrightarrow> unchanged f (hal_console_print_dec v)"
  unfolding hal_console_print_dec_def
  by (auto intro!: unchanged_intros split: option.splits)

section \<open>Panic\<close>

text \<open>A panic never returns: it halts (or waits for the line) with the interrupts off.\<close>

lemma hal_panic_spec:
  fixes J :: "'z hal_scheme \<Rightarrow> bool"
  assumes J: "con_local J" and intr: "\<And>s x. J (s\<lparr>intr_enabled := x\<rparr>) = J s"
    and msg: "\<And>s. J s \<Longrightarrow> \<exists>xs. denotes (mem s) msg xs"
  shows "spec (con_and J) (hal_panic msg) (\<lambda>_ _. False) (\<lambda>s. con_and J s \<and> \<not> intr_enabled s)"
proof -
  let ?J = "\<lambda>s :: 'z hal_scheme. J s \<and> \<not> intr_enabled s"
  have loc: "con_local ?J" using J by (simp add: con_local_def vga_local_def kbd_local_def)
  have H: "(\<lambda>s :: 'z hal_scheme. con_and J s \<and> \<not> intr_enabled s) = con_and ?J"
    by (auto simp: con_and_def)
  have "spec (con_and J) hal_cpu_disable_interrupts (\<lambda>_. con_and ?J) (con_and ?J)"
    unfolding hal_cpu_disable_interrupts_def
    by (intro spec_modify) (simp add: con_and_def con_inv_def vga_inv_def on_serial_def intr)
  moreover have "spec (con_and ?J) (seq [hal_console_panic_color,
     hal_console_print (Lit ([0x0A, 0x0A] @ lit ''  KERNEL PANIC: '')),
     hal_console_print msg, hal_console_print (Lit (lit ''  '' @ [0x0A]))]) (\<lambda>_. con_and ?J) (con_and ?J)"
    unfolding keeps_def [symmetric] by (intro keeps_intros loc) (use msg in blast)
  ultimately show ?thesis
    unfolding hal_panic_def seq.simps(2) [of hal_cpu_disable_interrupts] bind_assoc hal_cpu_halt_def H
    by (intro spec_bind [OF _ spec_bind [OF _ spec_halt]])
qed

lemma keeps_hal_panic [keeps_intros]:
  assumes "con_local J" and "\<And>s x. J (s\<lparr>intr_enabled := x\<rparr>) = J s"
    and "\<And>s. J s \<Longrightarrow> \<exists>xs. denotes (mem s) msg xs"
  shows "keeps (con_and J) (hal_panic msg)"
  unfolding keeps_def by (rule spec_conseq [OF hal_panic_spec [OF assms]]) simp_all

lemma denotes_str: "0 \<notin> set (lit cs) \<Longrightarrow> \<exists>xs. denotes m (str cs) xs"
  by (blast intro: denotes_Lit)

lemma denotes_Lit_any: "denotes m (Lit xs) (takeWhile (\<lambda>x. x \<noteq> 0) xs)"
  by (induction xs) auto

lemma hal_panic_lit:
  fixes s :: "'z hal_scheme"
  assumes "con_inv s"
  shows "\<exists>t r. (hal_panic (Lit xs) :: ('a, 'z hal_scheme) prog) s = Some r
    \<and> (r = Halt t \<or> r = Wait t) \<and> con_inv t \<and> \<not> intr_enabled t"
proof -
  have "spec (con_and (\<lambda>_. True)) (hal_panic (Lit xs) :: ('a, 'z hal_scheme) prog) (\<lambda>_ _. False)
      (\<lambda>s. con_and (\<lambda>_. True) s \<and> \<not> intr_enabled s)"
    by (rule hal_panic_spec) (auto intro: con_localI denotes_Lit_any)
  with assms obtain r :: "('a, 'z hal_scheme) outcome" where "hal_panic (Lit xs) s = Some r"
    "good (\<lambda>_ _. False) (\<lambda>s. con_inv s \<and> \<not> intr_enabled s) r"
    by (auto elim: specE)
  then show ?thesis by (cases r) auto
qed

section \<open>The memory map is stored and read back\<close>

lemma hal_mem_set_map_run:
  fixes s :: "'z hal_scheme"
  assumes "length (mem_map s) = 64" and "unat count \<le> length rs"
  shows "hal_mem_set_map rs count s = Some (Ok () (s\<lparr>mem_map_count := (if count < 64 then count else 64),
    mem_map := take (min (unat count) 64) rs @ drop (min (unat count) 64) (mem_map s)\<rparr>))"
proof -
  let ?n = "min (unat count) 64" and ?c = "if count < 64 then count else 64"
  let ?g = "\<lambda>k. s\<lparr>mem_map_count := ?c, mem_map := take k rs @ drop k (mem_map s)\<rparr>"
  let ?f = "\<lambda>i. if i < length rs then modify (\<lambda>s :: 'z hal_scheme. s\<lparr>mem_map := (mem_map s)[i := rs ! i]\<rparr>) else undef"
  have n: "unat ?c = ?n" by (simp add: word_less_nat_alt)
  have "?f k (?g k) = Some (Ok () (?g (Suc k)))" if "k < ?n" for k
  proof -
    have "(take k rs @ drop k (mem_map s))[k := rs ! k] = take (Suc k) rs @ drop (Suc k) (mem_map s)"
      using that assms by (simp add: list_update_append take_Suc_conv_app_nth flip: Cons_nth_drop_Suc)
    with that assms show ?thesis by (simp add: modify_run)
  qed
  then have "for_each [0..<?n] ?f (?g 0) = Some (Ok () (?g ?n))"
    by (intro for_each_upt) simp_all
  then show ?thesis
    by (simp add: hal_mem_set_map_def bind_run modify_run gets_run skip_run n)
qed

lemma fold_copy:
  "n \<le> length out \<Longrightarrow> n \<le> length mmap \<Longrightarrow>
    fold (\<lambda>i out. out[i := mmap ! i]) [0..<n] out = take n mmap @ drop n out"
  by (induction n) (simp_all add: list_update_append take_Suc_conv_app_nth flip: Cons_nth_drop_Suc)

lemma hal_mem_get_map_run:
  assumes "mem_map_inv s" and "unat limit \<le> length out" and "64 \<le> limit"
  shows "hal_mem_get_map out limit s
    = Some (Ok (mem_map_count s, regions s @ drop (unat (mem_map_count s)) out) s)"
proof -
  let ?n = "mem_map_count s"
  have n: "unat ?n \<le> 64" "length (mem_map s) = 64"
    using assms(1) by (auto simp: mem_map_inv_def word_le_nat_alt)
  have l: "64 \<le> unat limit" using assms(3) by (simp add: word_le_nat_alt)
  have "(if ?n < limit then ?n else limit) = ?n"
    using n(1) l by (auto simp: word_less_nat_alt word_unat_eq_iff)
  moreover have "fold (\<lambda>i out. out[i := mem_map s ! i]) [0..<unat ?n] out
      = regions s @ drop (unat ?n) out"
    unfolding regions_def using n l assms(2) by (intro fold_copy) simp_all
  ultimately show ?thesis
    using n l assms(2) by (simp add: hal_mem_get_map_def bind_run gets_run ret_run Let_def)
qed

lemma regions_set_map:
  assumes "length (mem_map s) = 64" and "unat count \<le> length rs"
    and "hal_mem_set_map rs count s = Some (Ok () t)"
  shows "mem_map_inv t \<and> regions t = take (min (unat count) 64) rs"
  using assms(2,3) hal_mem_set_map_run [OF assms(1,2)] assms(1)
  by (auto simp: mem_map_inv_def regions_def word_less_nat_alt word_le_nat_alt min_def)

end
