(* ===== verification/Pmm.thy ===== *)
theory Pmm imports Console begin

text \<open>
  The physical page allocator, \<open>kernel/arch/x86_64/pmm.c\<close>: a bitmap with one bit per page
  frame of the first 512 MB, first-fit allocation. It is shown to implement a set of free
  frames, and to provide the interface \<open>page_allocator\<close> the heap is built on.
\<close>

section \<open>State\<close>

definition MAX_FRAMES :: u64 where
  "MAX_FRAMES = 512 * 1024 * 1024 div PAGE_SIZE"

record pmm = hal +
  bitmap :: "u8 list"
  total_frames :: u32

section \<open>Operations\<close>

text \<open>\<open>bitmap[f / 8]\<close>: an index past the array is undefined.\<close>

definition frame_byte :: "u32 \<Rightarrow> 'z pmm_scheme \<Rightarrow> nat option" where
  "frame_byte f s = (let i = unat (f div 8) in if i < length (bitmap s) then Some i else None)"

definition frame_set_used :: "u32 \<Rightarrow> (unit, 'z pmm_scheme) prog" where
  "frame_set_used f s = (case frame_byte f s of
       None \<Rightarrow> Some Undef
     | Some i \<Rightarrow> Some (Ok () (s\<lparr>bitmap := (bitmap s)
         [i := bitmap s ! i OR ucast (push_bit (unat (f mod 8)) (1 :: u32))]\<rparr>)))"

definition frame_set_free :: "u32 \<Rightarrow> (unit, 'z pmm_scheme) prog" where
  "frame_set_free f s = (case frame_byte f s of
       None \<Rightarrow> Some Undef
     | Some i \<Rightarrow> Some (Ok () (s\<lparr>bitmap := (bitmap s)
         [i := bitmap s ! i AND ucast (NOT (push_bit (unat (f mod 8)) (1 :: u32)))]\<rparr>)))"

definition frame_is_free :: "u32 \<Rightarrow> (bool, 'z pmm_scheme) prog" where
  "frame_is_free f s = (case frame_byte f s of
       None \<Rightarrow> Some Undef
     | Some i \<Rightarrow> Some (Ok (ucast (bitmap s ! i) AND push_bit (unat (f mod 8)) (1 :: u32) = 0) s))"

text \<open>\<open>for (uintptr_t a = start; a < end; a += PAGE_SIZE)\<close>\<close>

partial_function (option) for_pages ::
  "u64 \<Rightarrow> u64 \<Rightarrow> (u64 \<Rightarrow> (unit, 's) prog) \<Rightarrow> (unit, 's) prog" where
  "for_pages a stop f s =
     branch (\<lambda>_. a < stop) (bind (f a) (\<lambda>_. for_pages (a + PAGE_SIZE) stop f)) skip s"

definition page_frame :: "u64 \<Rightarrow> u32" where
  "page_frame a = ucast (a div PAGE_SIZE)"

text \<open>The two page loops of \<open>pmm_init\<close>: frames past the bitmap are skipped.\<close>

definition free_page :: "u64 \<Rightarrow> (unit, 'z pmm_scheme) prog" where
  "free_page a = (if ucast (page_frame a) < MAX_FRAMES then frame_set_free (page_frame a) else skip)"

definition reserve_page :: "u64 \<Rightarrow> (unit, 'z pmm_scheme) prog" where
  "reserve_page a = (if ucast (page_frame a) < MAX_FRAMES then frame_set_used (page_frame a) else skip)"

definition region_top :: "hal_mem_region list \<Rightarrow> u32 \<Rightarrow> u64" where
  "region_top mmap count = fold (\<lambda>i top.
     if type_of (mmap ! i) = 1
     then (let stop = base (mmap ! i) + length_of (mmap ! i) in if stop > top then stop else top)
     else top) [0..<unat count] 0"

definition free_region :: "hal_mem_region \<Rightarrow> (unit, 'z pmm_scheme) prog" where
  "free_region r = (if type_of r \<noteq> 1 then skip
     else for_pages (page_up (base r)) (page_down (base r + length_of r)) free_page)"

text \<open>
  \<open>map[64]\<close> is a local array; \<open>count\<close> is at most 64, so its indices are in range.
  \<open>kernel_end\<close> is the address of the symbol of the linker script.
\<close>

definition pmm_init :: "u64 \<Rightarrow> (unit, 'z pmm_scheme) prog" where
  "pmm_init kernel_end =
     bind (hal_mem_get_map (replicate 64 \<lparr>base = 0, length_of = 0, type_of = 0\<rparr>) 64) (\<lambda>(count, mmap).
     seq [
       for_each [0..<unat (MAX_FRAMES div 8)] (\<lambda>i s.
         if i < length (bitmap s) then Some (Ok () (s\<lparr>bitmap := (bitmap s)[i := 0xFF]\<rparr>)) else Some Undef),
       modify (\<lambda>s. s\<lparr>total_frames := page_frame (region_top mmap count)\<rparr>),
       branch (\<lambda>s. ucast (total_frames s) > MAX_FRAMES)
         (modify (\<lambda>s. s\<lparr>total_frames := ucast MAX_FRAMES\<rparr>)) skip,
       for_each [0..<unat count] (\<lambda>i. free_region (mmap ! i)),
       for_pages 0 (page_up kernel_end) reserve_page])"

partial_function (option) alloc_scan :: "u32 \<Rightarrow> u32 \<Rightarrow> u32 \<Rightarrow> u32 \<Rightarrow> (u64, 'z pmm_scheme) prog" where
  "alloc_scan n f run start s = bind (gets total_frames) (\<lambda>total.
     if f < total then bind (frame_is_free f) (\<lambda>is_free.
       if is_free then
         (let start = (if run = 0 then f else start); run = run + 1 in
          if run = n
          then bind (for_word start (start + n) frame_set_used) (\<lambda>_. ret (ucast start * PAGE_SIZE))
          else alloc_scan n (f + 1) run start)
       else alloc_scan n (f + 1) 0 start)
     else ret 0) s"

definition pmm_alloc_pages :: "u32 \<Rightarrow> (u64, 'z pmm_scheme) prog" where
  "pmm_alloc_pages n = alloc_scan n 0 0 0"

text \<open>The loop of \<open>pmm_free_pages\<close>, with its \<open>break\<close> at the end of the bitmap.\<close>

function free_frames_from :: "u32 \<Rightarrow> u32 \<Rightarrow> (unit, 'z pmm_scheme) prog" where
  "free_frames_from i stop = (if i < stop then
     (if ucast i \<ge> MAX_FRAMES then skip
      else bind (frame_set_free i) (\<lambda>_. free_frames_from (i + 1) stop))
   else skip)"
  by pat_completeness auto
termination
  by (relation "measure (\<lambda>(i, stop). unat stop - unat i)")
    (auto simp: unat_plus_one word_less_nat_alt)

declare free_frames_from.simps [simp del]

definition pmm_free_pages :: "u64 \<Rightarrow> u32 \<Rightarrow> (unit, 'z pmm_scheme) prog" where
  "pmm_free_pages addr n = free_frames_from (page_frame addr) (page_frame addr + n)"

text \<open>The names the rest of the kernel calls them by (\<open>hal.c\<close>).\<close>

definition hal_mem_init :: "u64 \<Rightarrow> (unit, 'z pmm_scheme) prog" where
  "hal_mem_init kernel_end = pmm_init kernel_end"

definition hal_mem_alloc_pages :: "u32 \<Rightarrow> (u64, 'z pmm_scheme) prog" where
  "hal_mem_alloc_pages n = pmm_alloc_pages n"

definition hal_mem_free_pages :: "u64 \<Rightarrow> u32 \<Rightarrow> (unit, 'z pmm_scheme) prog" where
  "hal_mem_free_pages addr n = pmm_free_pages addr n"

section \<open>The set of free frames\<close>

definition max_frames :: nat where
  "max_frames = 131072"

lemma unat_MAX_FRAMES [simp]: "unat MAX_FRAMES = max_frames"
  by (simp add: MAX_FRAMES_def PAGE_SIZE_def max_frames_def)

definition free_frames :: "'z pmm_scheme \<Rightarrow> nat set" where
  "free_frames s = {k. k < max_frames \<and> \<not> bit (bitmap s ! (k div 8)) (k mod 8)}"

definition bitmap_ok :: "'z pmm_scheme \<Rightarrow> bool" where
  "bitmap_ok s \<longleftrightarrow> length (bitmap s) = max_frames div 8"

lemma frame_byte_run:
  assumes "bitmap_ok s" and "unat f < max_frames"
  shows "frame_byte f s = Some (unat f div 8)"
  using assms by (simp add: frame_byte_def bitmap_ok_def max_frames_def Let_def unat_div less_mult_imp_div_less)

lemma frame_is_free_run:
  assumes "bitmap_ok s" and "unat f < max_frames"
  shows "frame_is_free f s = Some (Ok (unat f \<in> free_frames s) s)"
proof -
  have "ucast b AND push_bit k (1 :: u32) = 0 \<longleftrightarrow> \<not> bit b k" if "k < 8" for b :: u8 and k
    using that and_exp_eq_0_iff_not_bit [of "ucast b :: u32" k]
    by (simp add: bit_ucast_iff flip: push_bit_of_1)
  then show ?thesis
    using assms by (simp add: frame_is_free_def frame_byte_run free_frames_def unat_mod)
qed

lemma free_frames_update:
  assumes "bitmap_ok s" and "k < max_frames"
    and "\<And>j. j < 8 \<Longrightarrow> bit b j = (if j = k mod 8 then v else bit (bitmap s ! (k div 8)) j)"
  shows "free_frames (s\<lparr>bitmap := (bitmap s)[k div 8 := b]\<rparr>)
    = (if v then free_frames s - {k} else insert k (free_frames s))"
proof -
  have len: "k div 8 < length (bitmap s)"
    using assms(1,2) by (simp add: bitmap_ok_def max_frames_def less_mult_imp_div_less)
  have "bit ((bitmap s)[k div 8 := b] ! (i div 8)) (i mod 8) = (if i = k then v else bit (bitmap s ! (i div 8)) (i mod 8))" for i
  proof (cases "i div 8 = k div 8")
    case True
    then have "(i mod 8 = k mod 8) = (i = k)" by (metis div_mod_decomp)
    with True len show ?thesis by (simp add: assms(3))
  next
    case False
    then show ?thesis by auto
  qed
  then show ?thesis
    using assms(2) by (auto simp: free_frames_def)
qed

lemma bitmap_ok_update [simp]: "bitmap_ok (s\<lparr>bitmap := (bitmap s)[i := b]\<rparr>) = bitmap_ok s"
  by (simp add: bitmap_ok_def)

text \<open>What the single-frame operations leave alone.\<close>

definition pmm_frame :: "'z pmm_scheme \<Rightarrow> 'z pmm_scheme \<Rightarrow> bool" where
  "pmm_frame s t \<longleftrightarrow> (\<exists>b. t = s\<lparr>bitmap := b\<rparr>) \<and> length (bitmap t) = length (bitmap s)"

lemma pmm_frame_refl [simp]: "pmm_frame s s"
  by (simp add: pmm_frame_def) (metis pmm.surjective pmm.update_convs(1))

lemma pmm_frame_trans: "pmm_frame s t \<Longrightarrow> pmm_frame t u \<Longrightarrow> pmm_frame s u"
  by (auto simp: pmm_frame_def)

lemma pmm_frame_ok: "pmm_frame s t \<Longrightarrow> bitmap_ok t = bitmap_ok s"
  by (simp add: pmm_frame_def bitmap_ok_def)

lemma pmm_frame_total: "pmm_frame s t \<Longrightarrow> total_frames t = total_frames s"
  by (auto simp: pmm_frame_def)

lemma frame_set_used_run:
  assumes "bitmap_ok s" and "unat f < max_frames"
  shows "\<exists>t. frame_set_used f s = Some (Ok () t) \<and> pmm_frame s t \<and> free_frames t = free_frames s - {unat f}"
proof -
  let ?b = "bitmap s ! (unat f div 8) OR ucast (push_bit (unat f mod 8) (1 :: u32))"
  have "bit ?b j = (if j = unat f mod 8 then True else bit (bitmap s ! (unat f div 8)) j)" if "j < 8" for j
    using that by (auto simp: bit_or_iff bit_ucast_iff bit_exp_iff)
  from free_frames_update [OF assms this] show ?thesis
    using assms by (simp add: frame_set_used_def frame_byte_run unat_mod pmm_frame_def) blast
qed

lemma frame_set_free_run:
  assumes "bitmap_ok s" and "unat f < max_frames"
  shows "\<exists>t. frame_set_free f s = Some (Ok () t) \<and> pmm_frame s t \<and> free_frames t = insert (unat f) (free_frames s)"
proof -
  let ?b = "bitmap s ! (unat f div 8) AND ucast (NOT (push_bit (unat f mod 8) (1 :: u32)))"
  have "bit ?b j = (if j = unat f mod 8 then False else bit (bitmap s ! (unat f div 8)) j)" if "j < 8" for j
    using that by (auto simp: bit_and_iff bit_ucast_iff bit_not_iff bit_exp_iff)
  from free_frames_update [OF assms this] show ?thesis
    using assms by (simp add: frame_set_free_def frame_byte_run unat_mod pmm_frame_def) blast
qed

section \<open>Loops over frames\<close>

text \<open>\<open>frees A m\<close> and \<open>reserves A m\<close>: the program frees, or takes, exactly the frames \<open>A\<close>.\<close>

definition frees :: "nat set \<Rightarrow> (unit, 'z pmm_scheme) prog \<Rightarrow> bool" where
  "frees A m \<longleftrightarrow> (\<forall>s. bitmap_ok s \<longrightarrow>
     (\<exists>t. m s = Some (Ok () t) \<and> pmm_frame s t \<and> free_frames t = free_frames s \<union> A))"

definition reserves :: "nat set \<Rightarrow> (unit, 'z pmm_scheme) prog \<Rightarrow> bool" where
  "reserves A m \<longleftrightarrow> (\<forall>s. bitmap_ok s \<longrightarrow>
     (\<exists>t. m s = Some (Ok () t) \<and> pmm_frame s t \<and> free_frames t = free_frames s - A))"

lemma freesE:
  assumes "frees A m" and "bitmap_ok s"
  obtains t where "m s = Some (Ok () t)" "pmm_frame s t" "free_frames t = free_frames s \<union> A"
  using assms unfolding frees_def by blast

lemma reservesE:
  assumes "reserves A m" and "bitmap_ok s"
  obtains t where "m s = Some (Ok () t)" "pmm_frame s t" "free_frames t = free_frames s - A"
  using assms unfolding reserves_def by blast

lemma frees_skip: "frees {} skip"
  by (auto simp: frees_def skip_run)

lemma reserves_skip: "reserves {} skip"
  by (auto simp: reserves_def skip_run)

lemma frees_bind:
  assumes m: "frees A m" and k: "frees B k"
  shows "frees (A \<union> B) (bind m (\<lambda>_. k))"
  unfolding frees_def
proof (intro allI impI)
  fix s :: "'a pmm_scheme" assume "bitmap_ok s"
  with m obtain t where t: "m s = Some (Ok () t)" "pmm_frame s t" "free_frames t = free_frames s \<union> A"
    unfolding frees_def by blast
  with \<open>bitmap_ok s\<close> have "bitmap_ok t" by (simp add: pmm_frame_ok)
  with k obtain u where u: "k t = Some (Ok () u)" "pmm_frame t u" "free_frames u = free_frames t \<union> B"
    unfolding frees_def by blast
  have "bind m (\<lambda>_. k) s = Some (Ok () u)" using t(1) u(1) by (simp add: bind_run)
  moreover have "pmm_frame s u" using t(2) u(2) by (rule pmm_frame_trans)
  moreover have "free_frames u = free_frames s \<union> (A \<union> B)" using t(3) u(3) by auto
  ultimately show "\<exists>u. bind m (\<lambda>_. k) s = Some (Ok () u) \<and> pmm_frame s u
      \<and> free_frames u = free_frames s \<union> (A \<union> B)" by blast
qed

lemma reserves_bind:
  assumes m: "reserves A m" and k: "reserves B k"
  shows "reserves (A \<union> B) (bind m (\<lambda>_. k))"
  unfolding reserves_def
proof (intro allI impI)
  fix s :: "'a pmm_scheme" assume "bitmap_ok s"
  with m obtain t where t: "m s = Some (Ok () t)" "pmm_frame s t" "free_frames t = free_frames s - A"
    unfolding reserves_def by blast
  with \<open>bitmap_ok s\<close> have "bitmap_ok t" by (simp add: pmm_frame_ok)
  with k obtain u where u: "k t = Some (Ok () u)" "pmm_frame t u" "free_frames u = free_frames t - B"
    unfolding reserves_def by blast
  have "bind m (\<lambda>_. k) s = Some (Ok () u)" using t(1) u(1) by (simp add: bind_run)
  moreover have "pmm_frame s u" using t(2) u(2) by (rule pmm_frame_trans)
  moreover have "free_frames u = free_frames s - (A \<union> B)" using t(3) u(3) by auto
  ultimately show "\<exists>u. bind m (\<lambda>_. k) s = Some (Ok () u) \<and> pmm_frame s u
      \<and> free_frames u = free_frames s - (A \<union> B)" by blast
qed

lemma frees_for_each:
  "(\<And>x. x \<in> set xs \<Longrightarrow> frees (A x) (f x)) \<Longrightarrow> frees (\<Union>x\<in>set xs. A x) (for_each xs f)"
  by (induction xs) (simp_all add: frees_skip frees_bind)

lemma reserves_for_each:
  "(\<And>x. x \<in> set xs \<Longrightarrow> reserves (A x) (f x)) \<Longrightarrow> reserves (\<Union>x\<in>set xs. A x) (for_each xs f)"
  by (induction xs) (simp_all add: reserves_skip reserves_bind)

lemma frees_frame: "unat f < max_frames \<Longrightarrow> frees {unat f} (frame_set_free f)"
  using frame_set_free_run by (fastforce simp: frees_def)

lemma reserves_frame: "unat f < max_frames \<Longrightarrow> reserves {unat f} (frame_set_used f)"
  using frame_set_used_run by (fastforce simp: reserves_def)

text \<open>The page loops visit the pages between two aligned addresses.\<close>

lemma for_pages_run:
  assumes "unat a mod 4096 = 0" and "unat stop mod 4096 = 0"
  shows "for_pages a stop f
    = for_each (map (\<lambda>k. word_of_nat (k * 4096)) [unat a div 4096..<unat stop div 4096]) f"
  using assms(1)
proof (induction "unat stop - unat a" arbitrary: a rule: less_induct)
  case less
  show ?case
  proof (cases "a < stop")
    case False
    then have "unat stop div 4096 \<le> unat a div 4096"
      by (simp add: word_less_nat_alt div_le_mono)
    with False show ?thesis by (intro ext) (subst for_pages.simps, simp add: branch_run)
  next
    case True
    then have lt: "unat a < unat stop" by (simp add: word_less_nat_alt)
    obtain x y where xy: "unat a = 4096 * x" "unat stop = 4096 * y"
      using less.prems assms(2) by (metis mod_0_imp_dvd dvdE)
    with lt have le: "unat a + 4096 \<le> unat stop" by simp
    then have nx: "unat (a + PAGE_SIZE) = unat a + 4096"
      using unsigned_less [of stop, where 'a = nat] by (simp add: unat_word_ariths)
    have "(unat a + 4096) div 4096 = Suc (unat a div 4096)" by simp
    then have "for_pages (a + PAGE_SIZE) stop f
      = for_each (map (\<lambda>k. word_of_nat (k * 4096)) [Suc (unat a div 4096)..<unat stop div 4096]) f"
      using less.hyps [of "a + PAGE_SIZE"] less.prems lt le nx by (simp del: div_add_self2)
    moreover have "[unat a div 4096..<unat stop div 4096] = unat a div 4096 # [Suc (unat a div 4096)..<unat stop div 4096]"
      using le by (intro upt_conv_Cons) simp
    moreover have "word_of_nat (unat a div 4096 * 4096) = a"
      using less.prems by (metis add.right_neutral div_mult_mod_eq of_nat_unat ucast_id)
    ultimately show ?thesis
      using True by (intro ext) (subst for_pages.simps, simp add: branch_run)
  qed
qed

lemma unat_page_frame: "unat (page_frame a) = unat a div 4096 mod 2 ^ 32"
  by (simp add: page_frame_def unsigned_ucast_eq take_bit_eq_mod unat_div_page)

lemma page_frame_less: "ucast (page_frame a) < MAX_FRAMES \<longleftrightarrow> unat (page_frame a) < max_frames"
  by (simp add: word_less_nat_alt unat_ucast_up)

text \<open>
  The frames of the pages \<open>i\<close> to \<open>j\<close>: the frame number of a page is its number in 32 bits.
\<close>

definition page_frames :: "nat \<Rightarrow> nat \<Rightarrow> nat set" where
  "page_frames i j = (\<lambda>k. k mod 2 ^ 32) ` {i..<j} \<inter> {..<max_frames}"

lemma page_frames_Union: "page_frames i j
    = (\<Union>k\<in>set [i..<j]. if k mod 2 ^ 32 < max_frames then {k mod 2 ^ 32} else {})"
  by (auto simp: page_frames_def split: if_splits)

lemma page_frames_small: "j \<le> 2 ^ 32 \<Longrightarrow> page_frames i j = {i..<j} \<inter> {..<max_frames}"
  by (force simp: page_frames_def)

lemma page_of_nat:
  assumes "k < unat (b :: u64) div 4096"
  shows "unat (page_frame (word_of_nat (k * 4096))) = k mod 2 ^ 32"
proof -
  have "k * 4096 < 2 ^ 64" using assms unsigned_less [of b, where 'a = nat] by simp
  then have "unat (word_of_nat (k * 4096) :: u64) = k * 4096"
    by (simp only: unat_of_nat) simp
  then show ?thesis by (simp only: unat_page_frame) simp
qed

lemma frees_free_page:
  "frees (if unat (page_frame a) < max_frames then {unat (page_frame a)} else {}) (free_page a)"
  by (simp add: free_page_def page_frame_less frees_skip frees_frame)

lemma frees_page_nat:
  assumes "k < unat (b :: u64) div 4096"
  shows "frees (if k mod 2 ^ 32 < max_frames then {k mod 2 ^ 32} else {}) (free_page (word_of_nat (k * 4096)))"
  using frees_free_page [of "word_of_nat (k * 4096)"] unfolding page_of_nat [OF assms] .

lemma frees_pages:
  assumes "unat a mod 4096 = 0" and "unat b mod 4096 = 0"
  shows "frees (page_frames (unat a div 4096) (unat b div 4096)) (for_pages a b free_page)"
  unfolding for_pages_run [OF assms] for_each_map page_frames_Union
  by (rule frees_for_each, rule frees_page_nat [where b = b]) simp

lemma reserves_reserve_page:
  "reserves (if unat (page_frame a) < max_frames then {unat (page_frame a)} else {}) (reserve_page a)"
  by (simp add: reserve_page_def page_frame_less reserves_skip reserves_frame)

lemma reserves_page_nat:
  assumes "k < unat (b :: u64) div 4096"
  shows "reserves (if k mod 2 ^ 32 < max_frames then {k mod 2 ^ 32} else {}) (reserve_page (word_of_nat (k * 4096)))"
  using reserves_reserve_page [of "word_of_nat (k * 4096)"] unfolding page_of_nat [OF assms] .

lemma reserves_pages:
  assumes "unat a mod 4096 = 0" and "unat b mod 4096 = 0"
  shows "reserves (page_frames (unat a div 4096) (unat b div 4096)) (for_pages a b reserve_page)"
  unfolding for_pages_run [OF assms] for_each_map page_frames_Union
  by (rule reserves_for_each, rule reserves_page_nat [where b = b]) simp

definition region_frames :: "hal_mem_region \<Rightarrow> nat set" where
  "region_frames r = (if type_of r \<noteq> 1 then {}
     else page_frames (unat (page_up (base r)) div 4096) (unat (page_down (base r + length_of r)) div 4096))"

lemma frees_region: "frees (region_frames r) (free_region r)"
  by (simp add: free_region_def region_frames_def frees_skip frees_pages page_up_aligned page_down_aligned)

section \<open>Initialisation\<close>

text \<open>The highest address of a usable region, as the code computes it (64 bits).\<close>

definition top_of :: "hal_mem_region list \<Rightarrow> u64" where
  "top_of rs = fold (\<lambda>r top. if type_of r = 1 then max (base r + length_of r) top else top) rs 0"

lemma region_top_run:
  "unat count \<le> length mmap \<Longrightarrow> region_top mmap count = top_of (take (unat count) mmap)"
proof -
  assume le: "unat count \<le> length mmap"
  have "n \<le> length mmap \<Longrightarrow> fold (\<lambda>i top. if type_of (mmap ! i) = 1
       then (let stop = base (mmap ! i) + length_of (mmap ! i) in if stop > top then stop else top)
       else top) [0..<n] 0 = top_of (take n mmap)" for n
    by (induction n) (auto simp: top_of_def take_Suc_conv_app_nth Let_def max_def)
  with le show ?thesis by (simp add: region_top_def)
qed

lemma set_bitmap_run:
  assumes "n \<le> length (bitmap s)"
  shows "for_each [0..<n] (\<lambda>i s.
     if i < length (bitmap s) then Some (Ok () (s\<lparr>bitmap := (bitmap s)[i := x]\<rparr>)) else Some Undef) s
   = Some (Ok () (s\<lparr>bitmap := replicate n x @ drop n (bitmap s)\<rparr>))"
proof -
  let ?g = "\<lambda>k. s\<lparr>bitmap := replicate k x @ drop k (bitmap s)\<rparr>"
  have "(if k < length (bitmap (?g k)) then Some (Ok () (?g k\<lparr>bitmap := (bitmap (?g k))[k := x]\<rparr>)) else Some Undef)
      = Some (Ok () (?g (Suc k)))" if "k < n" for k
    using that assms by (simp add: list_update_append replicate_append_same flip: Cons_nth_drop_Suc)
  then have "for_each [0..<n] (\<lambda>i s.
     if i < length (bitmap s) then Some (Ok () (s\<lparr>bitmap := (bitmap s)[i := x]\<rparr>)) else Some Undef) (?g 0)
     = Some (Ok () (?g n))"
    by (intro for_each_upt) simp_all
  then show ?thesis by simp
qed

definition pmm_inv :: "'z pmm_scheme \<Rightarrow> bool" where
  "pmm_inv s \<longleftrightarrow> bitmap_ok s \<and> unat (total_frames s) \<le> max_frames \<and> 0 \<notin> free_frames s"

text \<open>
  After initialisation exactly the whole pages of usable regions outside the kernel image
  and low memory are free.
\<close>

lemma full_bitmap:
  assumes "bitmap s = replicate (max_frames div 8) 0xFF"
  shows "free_frames s = {}" "bitmap_ok s"
proof -
  have ff: "bit (0xFF :: u8) j" if "j < 8" for j
  proof -
    have "(0xFF :: u8) = - 1" by simp
    then show ?thesis using that by (simp only: bit_minus_1_iff) simp
  qed
  have "bit (bitmap s ! (k div 8)) (k mod 8)" if "k < max_frames" for k
  proof -
    have "bitmap s ! (k div 8) = 0xFF"
      using that by (simp add: assms max_frames_def less_mult_imp_div_less)
    then show ?thesis by (simp only: ff mod_less_divisor zero_less_numeral)
  qed
  then show "free_frames s = {}" by (auto simp: free_frames_def)
  show "bitmap_ok s" by (simp add: bitmap_ok_def assms)
qed

text \<open>The two passes over the regions and over the pages up to the end of the kernel.\<close>

lemma free_regions_run:
  assumes s: "free_frames s = {}" "bitmap_ok s" and n: "n \<le> length mmap"
  obtains t where "for_each [0..<n] (\<lambda>i. free_region (mmap ! i)) s = Some (Ok () t)" and "pmm_frame s t" and "bitmap_ok t"
    and "free_frames t = (\<Union>r\<in>set (take n mmap). region_frames r)"
proof -
  have "frees (\<Union>i\<in>set [0..<n]. region_frames (mmap ! i)) (for_each [0..<n] (\<lambda>i. free_region (mmap ! i)))"
    by (intro frees_for_each frees_region)
  then obtain t where t: "for_each [0..<n] (\<lambda>i. free_region (mmap ! i)) s = Some (Ok () t)"
    "pmm_frame s t" "free_frames t = free_frames s \<union> (\<Union>i\<in>set [0..<n]. region_frames (mmap ! i))"
    using s freesE by blast
  have "(\<lambda>i. mmap ! i) ` set [0..<n] = set (take n mmap)"
    using nth_image [OF n] by (simp add: atLeast0LessThan)
  then have "(\<Union>i\<in>set [0..<n]. region_frames (mmap ! i)) = (\<Union>r\<in>set (take n mmap). region_frames r)"
    by (simp only: image_image flip: \<open>_ = set (take n mmap)\<close>)
  with t s that show thesis by (simp add: pmm_frame_ok)
qed

lemma reserve_low_run:
  assumes "bitmap_ok s"
  obtains t where "for_pages 0 (page_up kernel_end) reserve_page s = Some (Ok () t)" and "pmm_frame s t"
    and "free_frames t = free_frames s - page_frames 0 (unat (page_up kernel_end) div 4096)"
proof -
  have "reserves (page_frames (unat (0 :: u64) div 4096) (unat (page_up kernel_end) div 4096))
      (for_pages 0 (page_up kernel_end) reserve_page)"
    by (intro reserves_pages page_up_aligned) simp
  then have "reserves (page_frames 0 (unat (page_up kernel_end) div 4096)) (for_pages 0 (page_up kernel_end) reserve_page)" by simp
  from reservesE [OF this assms] that show thesis by blast
qed

text \<open>The part of the initialisation after the memory map was fetched.\<close>

definition pmm_fill :: "u32 \<Rightarrow> hal_mem_region list \<Rightarrow> u64 \<Rightarrow> (unit, 'z pmm_scheme) prog" where
  "pmm_fill count mmap kernel_end = seq [
     for_each [0..<unat (MAX_FRAMES div 8)] (\<lambda>i s.
       if i < length (bitmap s) then Some (Ok () (s\<lparr>bitmap := (bitmap s)[i := 0xFF]\<rparr>)) else Some Undef),
     modify (\<lambda>s. s\<lparr>total_frames := page_frame (region_top mmap count)\<rparr>),
     branch (\<lambda>s. ucast (total_frames s) > MAX_FRAMES)
       (modify (\<lambda>s. s\<lparr>total_frames := ucast MAX_FRAMES\<rparr>)) skip,
     for_each [0..<unat count] (\<lambda>i. free_region (mmap ! i)),
     for_pages 0 (page_up kernel_end) reserve_page]"

definition capped :: "u32 \<Rightarrow> u32" where
  "capped tot = (if ucast tot > MAX_FRAMES then ucast MAX_FRAMES else tot)"

lemma unat_capped: "unat (capped tot) = min max_frames (unat tot)"
proof -
  have "unat (ucast MAX_FRAMES :: u32) = max_frames"
    by (simp add: MAX_FRAMES_def PAGE_SIZE_def max_frames_def)
  then show ?thesis by (auto simp: capped_def word_less_nat_alt unat_ucast_up)
qed

lemma pmm_fill_run:
  assumes ok: "bitmap_ok s" and n: "unat count \<le> length mmap"
  obtains b where "pmm_fill count mmap kernel_end s
      = Some (Ok () (s\<lparr>bitmap := b, total_frames := capped (page_frame (top_of (take (unat count) mmap)))\<rparr>))"
    and "length b = max_frames div 8"
    and "\<And>tot. free_frames (s\<lparr>bitmap := b, total_frames := tot\<rparr>) = (\<Union>r\<in>set (take (unat count) mmap). region_frames r)
      - page_frames 0 (unat (page_up kernel_end) div 4096)"
proof -
  let ?tot = "page_frame (top_of (take (unat count) mmap))"
  define s1 where "s1 = s\<lparr>bitmap := replicate (max_frames div 8) 0xFF\<rparr>"
  define s2 where "s2 = s1\<lparr>total_frames := capped ?tot\<rparr>"
  have set: "for_each [0..<unat (MAX_FRAMES div 8)] (\<lambda>i s.
         if i < length (bitmap s) then Some (Ok () (s\<lparr>bitmap := (bitmap s)[i := 0xFF]\<rparr>)) else Some Undef) s
      = Some (Ok () s1)"
    using ok by (subst set_bitmap_run) (simp_all add: unat_div bitmap_ok_def s1_def)
  have s2: "free_frames s2 = {}" "bitmap_ok s2" by (simp_all add: full_bitmap s1_def s2_def)
  from free_regions_run [OF s2 n] obtain s3 where
    s3: "for_each [0..<unat count] (\<lambda>i. free_region (mmap ! i)) s2 = Some (Ok () s3)" "pmm_frame s2 s3" "bitmap_ok s3"
      "free_frames s3 = (\<Union>r\<in>set (take (unat count) mmap). region_frames r)" .
  from reserve_low_run [OF s3(3), of kernel_end] obtain t where
    t: "for_pages 0 (page_up kernel_end) reserve_page s3 = Some (Ok () t)" "pmm_frame s3 t"
      "free_frames t = free_frames s3 - page_frames 0 (unat (page_up kernel_end) div 4096)" .
  have run: "pmm_fill count mmap kernel_end s = Some (Ok () t)"
    using s3(1) t(1) set by (auto simp: pmm_fill_def bind_run region_top_run [OF n]
        modify_run branch_run skip_run s2_def capped_def split: if_splits)
  from pmm_frame_trans [OF s3(2) t(2)] obtain b where b: "t = s2\<lparr>bitmap := b\<rparr>" by (auto simp: pmm_frame_def)
  have "length b = max_frames div 8" using pmm_frame_ok [OF t(2)] s3(3) b by (simp add: bitmap_ok_def)
  moreover have "free_frames (s\<lparr>bitmap := b, total_frames := tot\<rparr>) = free_frames t" for tot
    by (simp add: b free_frames_def)
  ultimately show thesis
    using that [of b] run t(3) s3(4) by (simp add: b s2_def s1_def)
qed

lemma pmm_init_run:
  assumes "mem_map_inv s" and "bitmap_ok s"
  shows "\<exists>b tot. pmm_init kernel_end s = Some (Ok () (s\<lparr>bitmap := b, total_frames := tot\<rparr>))
    \<and> length b = max_frames div 8
    \<and> unat tot = min max_frames (unat (page_frame (top_of (regions s))))
    \<and> free_frames (s\<lparr>bitmap := b, total_frames := tot\<rparr>) = (\<Union>r\<in>set (regions s). region_frames r)
        - page_frames 0 (unat (page_up kernel_end) div 4096)"
proof -
  define M where "M = replicate 64 \<lparr>base = 0, length_of = 0, type_of = 0 :: u32\<rparr>"
  define n where "n = mem_map_count s"
  define mmap where "mmap = regions s @ drop (unat n) M"
  have n: "unat n \<le> 64" "length (regions s) = unat n"
    using assms(1) by (auto simp: mem_map_inv_def regions_def n_def word_le_nat_alt)
  have get: "hal_mem_get_map M 64 s = Some (Ok (n, mmap) s)"
    using assms(1) by (simp add: hal_mem_get_map_run M_def mmap_def n_def)
  have take: "unat n \<le> length mmap" "take (unat n) mmap = regions s" using n by (simp_all add: mmap_def)
  have "pmm_init kernel_end s = pmm_fill n mmap kernel_end s"
    by (simp add: pmm_init_def pmm_fill_def M_def [symmetric] bind_run [of "hal_mem_get_map _ _"] get)
  with pmm_fill_run [OF assms(2) take(1), of kernel_end] show ?thesis
    unfolding take(2) by (metis unat_capped)
qed

section \<open>Allocation is first fit\<close>

text \<open>The first run of \<open>n\<close> frames of \<open>F\<close> below \<open>m\<close>.\<close>

definition first_fit :: "nat \<Rightarrow> nat set \<Rightarrow> nat \<Rightarrow> nat option" where
  "first_fit n F m = List.find (\<lambda>k. k + n \<le> m \<and> {k..<k + n} \<subseteq> F) [0..<m]"

lemma first_fit_None:
  "first_fit n F m = None \<longleftrightarrow> (\<forall>k<m. k + n \<le> m \<longrightarrow> \<not> {k..<k + n} \<subseteq> F)"
  by (auto simp: first_fit_def find_None_iff)

lemma first_fit_SomeI:
  assumes "k < m" and "k + n \<le> m" and "{k..<k + n} \<subseteq> F"
    and "\<And>j. j < k \<Longrightarrow> \<not> {j..<j + n} \<subseteq> F"
  shows "first_fit n F m = Some k"
  unfolding first_fit_def find_Some_iff
  by (rule exI [of _ k]) (use assms in auto)

lemma first_fit_SomeD:
  assumes "first_fit n F m = Some k"
  shows "k < m" and "k + n \<le> m" and "{k..<k + n} \<subseteq> F"
  using assms by (auto simp: first_fit_def find_Some_iff)

text \<open>
  The state of the scan before the frame \<open>f\<close>: the last \<open>run\<close> frames are free, the one before
  them is not, and no run of \<open>n\<close> frames ends at or before \<open>f\<close>.
\<close>

definition scan_inv :: "nat set \<Rightarrow> nat \<Rightarrow> nat \<Rightarrow> nat \<Rightarrow> nat \<Rightarrow> bool" where
  "scan_inv F n f run start \<longleftrightarrow> run < n \<and> run \<le> f \<and> {f - run..<f} \<subseteq> F
     \<and> (run < f \<longrightarrow> f - run - 1 \<notin> F) \<and> (0 < run \<longrightarrow> start = f - run)
     \<and> (\<forall>k. k + n \<le> f \<longrightarrow> \<not> {k..<k + n} \<subseteq> F)"

lemma scan_inv_used:
  assumes "scan_inv F n f run start" and "f \<notin> F"
  shows "scan_inv F n (Suc f) 0 start"
proof -
  have "\<not> {k..<k + n} \<subseteq> F" if "k + n \<le> Suc f" for k
  proof (cases "k + n \<le> f")
    case True
    with assms(1) show ?thesis by (simp add: scan_inv_def)
  next
    case False
    with that assms(1) have "f \<in> {k..<k + n}" by (auto simp: scan_inv_def)
    with assms(2) show ?thesis by blast
  qed
  with assms show ?thesis by (simp add: scan_inv_def)
qed

lemma scan_inv_free:
  assumes "scan_inv F n f run start" and "f \<in> F" and "Suc run \<noteq> n"
  shows "scan_inv F n (Suc f) (Suc run) (if run = 0 then f else start)"
proof -
  have "\<not> {k..<k + n} \<subseteq> F" if "k + n \<le> Suc f" for k
  proof (cases "k + n \<le> f")
    case True
    with assms(1) show ?thesis by (simp add: scan_inv_def)
  next
    case False
    with that assms(1,3) have "run < f" "f - run - 1 \<in> {k..<k + n}" by (auto simp: scan_inv_def)
    with assms(1) show ?thesis unfolding scan_inv_def by blast
  qed
  moreover have "{f - run..<Suc f} \<subseteq> F"
    using assms by (auto simp: scan_inv_def less_Suc_eq)
  ultimately show ?thesis using assms by (auto simp: scan_inv_def)
qed

lemma scan_inv_found:
  assumes "scan_inv F n f run start" and "f \<in> F" and "Suc run = n" and "f < m"
  shows "first_fit n F m = Some (f - run)" and "(if run = 0 then f else start) = f - run"
    and "f - run + n = Suc f"
proof -
  show n: "f - run + n = Suc f" using assms by (auto simp: scan_inv_def)
  have "\<not> {j..<j + n} \<subseteq> F" if "j < f - run" for j
    using assms(1,3) that by (auto simp: scan_inv_def)
  moreover have "{f - run..<f - run + n} \<subseteq> F"
    unfolding n using assms by (auto simp: scan_inv_def less_Suc_eq)
  ultimately show "first_fit n F m = Some (f - run)"
    using n assms by (intro first_fit_SomeI) auto
  show "(if run = 0 then f else start) = f - run" using assms by (auto simp: scan_inv_def)
qed

text \<open>The loop that marks a block.\<close>

lemma mark_block_run:
  assumes ok: "bitmap_ok s" and k: "unat start = k" and stop: "unat (start + n) = k + unat n" "k + unat n \<le> max_frames"
  obtains t where "for_word start (start + n) frame_set_used s = Some (Ok () t)" and "pmm_frame s t"
    and "free_frames t = free_frames s - {k..<k + unat n}"
proof -
  have "unat (word_of_nat i :: u32) = i" if "i < k + unat n" for i
    using that stop(2) by (simp add: unat_of_nat max_frames_def)
  then have fr: "reserves {i} (frame_set_used (word_of_nat i))" if "i < k + unat n" for i
    using reserves_frame [of "word_of_nat i"] that stop(2) by simp
  have "reserves (\<Union>i\<in>set [k..<k + unat n]. {i}) (for_each [k..<k + unat n] (\<lambda>i. frame_set_used (word_of_nat i)))"
    by (intro reserves_for_each fr) simp
  with ok that show thesis by (auto simp: for_word_for_each k stop(1) for_each_map elim: reservesE)
qed

lemma alloc_scan_step:
  assumes "bitmap_ok s" and "unat (total_frames s) \<le> max_frames" and "f < total_frames s"
  shows "alloc_scan n f run start s = (let start' = (if run = 0 then f else start) in
    if unat f \<in> free_frames s
    then if run + 1 = n then bind (for_word start' (start' + n) frame_set_used) (\<lambda>_. ret (ucast start' * PAGE_SIZE)) s
      else alloc_scan n (f + 1) (run + 1) start' s
    else alloc_scan n (f + 1) 0 start s)"
proof -
  have "unat f < max_frames" using assms(2,3) by (simp add: word_less_nat_alt)
  with assms(1) have "frame_is_free f s = Some (Ok (unat f \<in> free_frames s) s)" by (rule frame_is_free_run)
  with assms(3) show ?thesis by (subst alloc_scan.simps) (simp add: bind_run [of "frame_is_free f"] bind_run [of "gets _"] gets_run Let_def)
qed

lemma alloc_scan_found:
  assumes ok: "bitmap_ok s" "unat (total_frames s) \<le> max_frames" and f: "f < total_frames s"
    and inv: "scan_inv (free_frames s) (unat n) (unat f) (unat run) (unat start)"
    and found: "unat f \<in> free_frames s" "run + 1 = n"
  shows "\<exists>k t. first_fit (unat n) (free_frames s) (unat (total_frames s)) = Some k
    \<and> alloc_scan n f run start s = Some (Ok (word_of_nat (k * 4096)) t)
    \<and> pmm_frame s t \<and> free_frames t = free_frames s - {k..<k + unat n}"
proof -
  let ?F = "free_frames s" and ?k = "unat f - unat run" and ?start = "if run = 0 then f else start"
  have max: "unat (total_frames s) \<le> 131072" and lt: "unat f < unat (total_frames s)"
    using ok(2) f by (simp_all add: max_frames_def word_less_nat_alt)
  have "Suc (unat run) = unat n" using inv lt max found(2) by (auto simp: unat_word_ariths scan_inv_def)
  note fit = scan_inv_found [OF inv found(1) this lt]
  have "unat ?start = (if unat run = 0 then unat f else unat start)" by (simp add: unat_eq_0)
  then have k: "unat ?start = ?k" unfolding fit(2) .
  have room: "?k + unat n \<le> max_frames" using fit(3) lt max by (simp add: max_frames_def)
  have "unat (?start + n) = ?k + unat n"
    using fit(3) lt max by (subst unat_add_less) (simp_all add: k)
  from mark_block_run [OF ok(1) k this room] obtain t where
    t: "for_word ?start (?start + n) frame_set_used s = Some (Ok () t)" "pmm_frame s t" "free_frames t = ?F - {?k..<?k + unat n}" .
  have "ucast ?start * PAGE_SIZE = (word_of_nat (?k * 4096) :: u64)"
    by (simp add: PAGE_SIZE_def flip: k)
  with found alloc_scan_step [OF ok f, of n run start, unfolded Let_def] t(1)
  have "alloc_scan n f run start s = Some (Ok (word_of_nat (?k * 4096)) t)" by (simp add: bind_run ret_run)
  with fit(1) t show ?thesis by simp
qed

lemma alloc_scan_run:
  assumes ok: "bitmap_ok s" "unat (total_frames s) \<le> max_frames"
    and inv: "scan_inv (free_frames s) (unat n) (unat f) (unat run) (unat start)" and le: "f \<le> total_frames s"
  shows "case first_fit (unat n) (free_frames s) (unat (total_frames s)) of
      None \<Rightarrow> alloc_scan n f run start s = Some (Ok 0 s)
    | Some k \<Rightarrow> \<exists>t. alloc_scan n f run start s = Some (Ok (word_of_nat (k * 4096)) t)
        \<and> pmm_frame s t \<and> free_frames t = free_frames s - {k..<k + unat n}"
  using inv le
proof (induction "unat (total_frames s) - unat f" arbitrary: f run start rule: less_induct)
  case less
  let ?F = "free_frames s" and ?m = "unat (total_frames s)"
  have max: "?m \<le> 131072" using ok(2) by (simp add: max_frames_def)
  show ?case
  proof (cases "f < total_frames s")
    case False
    with less.prems(2) have "unat f = ?m" by (simp add: word_le_nat_alt word_less_nat_alt)
    with less.prems(1) have "first_fit (unat n) ?F ?m = None" by (auto simp: first_fit_None scan_inv_def)
    with False show ?thesis by (subst alloc_scan.simps) (simp add: bind_run gets_run ret_run)
  next
    case True
    then have lt: "unat f < ?m" by (simp add: word_less_nat_alt)
    with max have f1: "unat (f + 1) = Suc (unat f)" by (simp add: unat_word_ariths)
    have run1: "unat (run + 1) = Suc (unat run)"
      using less.prems(1) lt max by (simp add: unat_word_ariths scan_inv_def)
    have next_step: "?m - unat (f + 1) < ?m - unat f" "f + 1 \<le> total_frames s"
      using lt f1 by (simp_all add: word_le_nat_alt)
    note IH = less.hyps [OF next_step(1) _ next_step(2)]
    let ?start = "if run = 0 then f else start"
    have st: "unat ?start = (if unat run = 0 then unat f else unat start)" by (simp add: unat_eq_0)
    note step = alloc_scan_step [OF ok True, of n run start, unfolded Let_def]
    consider (used) "unat f \<notin> ?F" | (free) "unat f \<in> ?F" "run + 1 \<noteq> n" | (found) "unat f \<in> ?F" "run + 1 = n" by blast
    then show ?thesis
    proof cases
      case used
      then have "scan_inv ?F (unat n) (unat (f + 1)) (unat (0 :: u32)) (unat start)"
        using scan_inv_used [OF less.prems(1)] f1 by simp
      from IH [OF this] used step show ?thesis by (simp only: if_False)
    next
      case free
      then have "Suc (unat run) \<noteq> unat n" using run1 by (metis word_unat_eq_iff)
      from scan_inv_free [OF less.prems(1) free(1) this]
      have "scan_inv ?F (unat n) (unat (f + 1)) (unat (run + 1)) (unat ?start)" unfolding f1 run1 st .
      from IH [OF this] free step show ?thesis by (simp only: if_True if_False)
    next
      case found
      from alloc_scan_found [OF ok True less.prems(1) found] show ?thesis by auto
    qed
  qed
qed

text \<open>A request for no pages, or for more than there are in a row, is answered 0.\<close>

lemma alloc_scan_none:
  assumes ok: "bitmap_ok s" "unat (total_frames s) \<le> max_frames"
    and run: "run \<le> f" and le: "f \<le> total_frames s"
  shows "alloc_scan 0 f run start s = Some (Ok 0 s)"
  using run le
proof (induction "unat (total_frames s) - unat f" arbitrary: f run start rule: less_induct)
  case less
  show ?case
  proof (cases "f < total_frames s")
    case False
    then show ?thesis by (subst alloc_scan.simps) (simp add: bind_run gets_run ret_run)
  next
    case True
    then have lt: "unat f < unat (total_frames s)" by (simp add: word_less_nat_alt)
    with ok(2) have f1: "unat (f + 1) = Suc (unat f)" "unat f < max_frames"
      by (simp_all add: unat_word_ariths max_frames_def)
    have run1: "unat (run + 1) = Suc (unat run)"
      using less.prems(1) lt ok(2) by (simp add: unat_word_ariths word_le_nat_alt max_frames_def)
    then have "run + 1 \<noteq> 0" by (metis nat.distinct(1) unat_0)
    moreover have "run + 1 \<le> f + 1" "0 \<le> f + 1" "f + 1 \<le> total_frames s"
      using less.prems(1) lt f1 run1 by (simp_all add: word_le_nat_alt)
    moreover have "unat (total_frames s) - unat (f + 1) < unat (total_frames s) - unat f" using lt f1 by simp
    ultimately show ?thesis
      using True frame_is_free_run [OF ok(1) f1(2)] less.hyps [of "f + 1"]
      by (subst alloc_scan.simps) (simp add: bind_run gets_run Let_def)
  qed
qed

lemma pmm_alloc_pages_run:
  assumes ok: "bitmap_ok s" "unat (total_frames s) \<le> max_frames"
  shows "case (if n = 0 then None else first_fit (unat n) (free_frames s) (unat (total_frames s))) of
      None \<Rightarrow> pmm_alloc_pages n s = Some (Ok 0 s)
    | Some k \<Rightarrow> \<exists>t. pmm_alloc_pages n s = Some (Ok (word_of_nat (k * 4096)) t)
        \<and> pmm_frame s t \<and> free_frames t = free_frames s - {k..<k + unat n}"
proof (cases "n = 0")
  case True
  with alloc_scan_none [OF ok, of 0 0] show ?thesis by (simp add: pmm_alloc_pages_def)
next
  case False
  then have "scan_inv (free_frames s) (unat n) (unat (0 :: u32)) (unat (0 :: u32)) (unat (0 :: u32))"
    by (simp add: scan_inv_def unat_gt_0)
  from alloc_scan_run [OF ok this] False show ?thesis
    unfolding pmm_alloc_pages_def by (simp only: if_False) simp
qed

section \<open>Freeing\<close>

lemma free_frames_from_done:
  "\<not> (i < stop \<and> unat i < max_frames) \<Longrightarrow> free_frames_from i stop = skip"
  by (subst free_frames_from.simps) (auto simp: word_le_nat_alt unat_ucast_up)

lemma free_frames_from_step:
  "i < stop \<Longrightarrow> unat i < max_frames \<Longrightarrow>
    free_frames_from i stop = bind (frame_set_free i) (\<lambda>_. free_frames_from (i + 1) stop)"
  by (subst free_frames_from.simps) (auto simp: word_le_nat_alt unat_ucast_up)

lemma frees_from:
  "frees {k. unat i \<le> k \<and> k < unat stop \<and> k < max_frames} (free_frames_from i stop)"
proof (induction "unat stop - unat i" arbitrary: i rule: less_induct)
  case less
  show ?case
  proof (cases "i < stop \<and> unat i < max_frames")
    case False
    then have e: "{k. unat i \<le> k \<and> k < unat stop \<and> k < max_frames} = {}"
      by (auto simp: word_less_nat_alt)
    show ?thesis unfolding e free_frames_from_done [OF False] by (rule frees_skip)
  next
    case True
    then have i1: "unat (i + 1) = Suc (unat i)" and lt: "unat i < unat stop"
      using unat_plus_one [of i stop] by (simp_all add: word_less_nat_alt)
    have e: "{k. unat i \<le> k \<and> k < unat stop \<and> k < max_frames}
        = {unat i} \<union> {k. unat (i + 1) \<le> k \<and> k < unat stop \<and> k < max_frames}"
      using True i1 lt by auto
    show ?thesis
      unfolding e free_frames_from_step [OF conjunct1 [OF True] conjunct2 [OF True]]
      by (intro frees_bind frees_frame less) (use True i1 lt in simp_all)
  qed
qed

text \<open>The frames of a block of \<open>n\<close> pages at an address.\<close>

definition block :: "u64 \<Rightarrow> u32 \<Rightarrow> nat set" where
  "block addr n = {unat addr div 4096..<unat addr div 4096 + unat n}"

lemma frees_block:
  assumes "unat addr div 4096 + unat n < 2 ^ 32"
  shows "frees (block addr n \<inter> {..<max_frames}) (pmm_free_pages addr n)"
proof -
  have "unat (page_frame addr) = unat addr div 4096"
    using assms by (simp add: unat_page_frame)
  moreover from this assms have "unat (page_frame addr + n) = unat addr div 4096 + unat n"
    by (subst unat_add_less) simp_all
  ultimately show ?thesis
    using frees_from [of "page_frame addr" "page_frame addr + n"]
    by (simp add: pmm_free_pages_def block_def Collect_conj_eq atLeastLessThan_def atLeast_def lessThan_def Int_assoc)
qed

section \<open>The interface of the allocator\<close>

text \<open>
  What the kernel relies on: an allocation answers 0 and changes nothing, or answers the
  address of free frames, which are free no longer; freeing a block makes its frames free.
  Frame 0 is never free, so an answer of 0 is not an address.
\<close>

locale page_allocator =
  fixes alloc :: "u32 \<Rightarrow> (u64, 's) prog"
    and dealloc :: "u64 \<Rightarrow> u32 \<Rightarrow> (unit, 's) prog"
    and free_set :: "'s \<Rightarrow> nat set"
    and inv :: "'s \<Rightarrow> bool"
  assumes zero_reserved: "inv s \<Longrightarrow> 0 \<notin> free_set s"
    and alloc_cases: "inv s \<Longrightarrow> alloc n s = Some (Ok 0 s)
      \<or> (\<exists>a t. alloc n s = Some (Ok a t) \<and> inv t \<and> unat a mod 4096 = 0 \<and> 0 < unat n
           \<and> block a n \<subseteq> free_set s \<and> free_set t = free_set s - block a n)"
    and dealloc_block: "inv s \<Longrightarrow> block a n \<subseteq> {1..<max_frames} \<Longrightarrow>
      \<exists>t. dealloc a n s = Some (Ok () t) \<and> inv t \<and> free_set t = free_set s \<union> block a n"
begin

lemma alloc_total: "inv s \<Longrightarrow> \<exists>a t. alloc n s = Some (Ok a t) \<and> inv t"
  using alloc_cases [of s n] by auto

lemma alloc_block:
  assumes "inv s" and "alloc n s = Some (Ok a t)" and "a \<noteq> 0"
  shows "inv t" and "unat a mod 4096 = 0" and "block a n \<subseteq> free_set s"
    and "free_set t = free_set s - block a n"
  using alloc_cases [OF assms(1), of n] assms(2,3) by auto

lemma alloc_nonzero:
  assumes "inv s" and "alloc n s = Some (Ok a t)" and "free_set t \<noteq> free_set s"
  shows "a \<noteq> 0"
proof -
  have "\<not> block 0 n \<subseteq> free_set s" if "0 < unat n"
    using zero_reserved [OF assms(1)] that by (auto simp: block_def)
  with alloc_cases [OF assms(1), of n] assms(2,3) show ?thesis by auto
qed

text \<open>Two blocks handed out one after the other do not overlap.\<close>

lemma alloc_disjoint:
  assumes s: "inv s" and a: "alloc n s = Some (Ok a t)" "a \<noteq> 0"
    and b: "alloc m t = Some (Ok b u)" "b \<noteq> 0"
  shows "block a n \<inter> block b m = {}"
  using alloc_block [OF s a] alloc_block(3) [OF _ b] by blast

text \<open>Freeing what was allocated restores the free frames.\<close>

lemma dealloc_alloc:
  assumes s: "inv s" and a: "alloc n s = Some (Ok a t)" "a \<noteq> 0" and bound: "free_set s \<subseteq> {..<max_frames}"
  shows "\<exists>u. dealloc a n t = Some (Ok () u) \<and> inv u \<and> free_set u = free_set s"
proof -
  note b = alloc_block [OF s a]
  have "block a n \<subseteq> {1..<max_frames}"
  proof
    fix x assume "x \<in> block a n"
    then have "x \<in> free_set s" using b(3) by blast
    moreover from this zero_reserved [OF s] have "x \<noteq> 0" by metis
    ultimately show "x \<in> {1..<max_frames}" using bound by auto
  qed
  from dealloc_block [OF b(1) this] b show ?thesis by auto
qed

end

lemma pmm_inv_frame: "pmm_inv s \<Longrightarrow> pmm_frame s t \<Longrightarrow> 0 \<notin> free_frames t \<Longrightarrow> pmm_inv t"
  by (simp add: pmm_inv_def pmm_frame_ok pmm_frame_total)

lemma pmm_alloc_law:
  assumes s: "pmm_inv s"
  shows "hal_mem_alloc_pages n s = Some (Ok 0 s)
      \<or> (\<exists>a t. hal_mem_alloc_pages n s = Some (Ok a t) \<and> pmm_inv t \<and> unat a mod 4096 = 0 \<and> 0 < unat n
           \<and> block a n \<subseteq> free_frames s \<and> free_frames t = free_frames s - block a n)"
proof -
  have ok: "bitmap_ok s" "unat (total_frames s) \<le> max_frames" using s by (simp_all add: pmm_inv_def)
  show ?thesis
  proof (cases "if n = 0 then None else first_fit (unat n) (free_frames s) (unat (total_frames s))")
    case None
    then show ?thesis using pmm_alloc_pages_run [OF ok, of n] by (simp add: hal_mem_alloc_pages_def)
  next
    case (Some k)
    then have n: "0 < unat n" and fit: "first_fit (unat n) (free_frames s) (unat (total_frames s)) = Some k"
      by (auto simp: unat_gt_0 split: if_splits)
    have "k < max_frames" using first_fit_SomeD(1) [OF fit] ok(2) by simp
    then have "unat (word_of_nat (k * 4096) :: u64) = k * 4096"
      by (simp only: unat_of_nat) (simp add: max_frames_def)
    then have b: "block (word_of_nat (k * 4096)) n = {k..<k + unat n}"
      and al: "unat (word_of_nat (k * 4096) :: u64) mod 4096 = 0" by (simp_all only: block_def) simp_all
    let ?a = "word_of_nat (k * 4096) :: u64"
    from pmm_alloc_pages_run [OF ok, of n] obtain t where
      t: "pmm_alloc_pages n s = Some (Ok ?a t)" "pmm_frame s t" "free_frames t = free_frames s - block ?a n"
      unfolding Some b by auto
    have inv: "pmm_inv t" using t(3) s by (intro pmm_inv_frame [OF s t(2)]) (simp add: pmm_inv_def)
    have sub: "block ?a n \<subseteq> free_frames s" unfolding b by (rule first_fit_SomeD(3) [OF fit])
    show ?thesis
      by (rule disjI2, rule exI [of _ ?a], rule exI [of _ t], unfold hal_mem_alloc_pages_def)
        (intro conjI t inv al n sub)
  qed
qed

lemma pmm_dealloc_law:
  assumes s: "pmm_inv s" and b: "block a n \<subseteq> {1..<max_frames}"
  shows "\<exists>t. hal_mem_free_pages a n s = Some (Ok () t) \<and> pmm_inv t \<and> free_frames t = free_frames s \<union> block a n"
proof (cases "unat a div 4096 + unat n < 2 ^ 32")
  case True
  have "block a n \<inter> {..<max_frames} = block a n" using b by auto
  moreover have "bitmap_ok s" using s by (simp add: pmm_inv_def)
  ultimately obtain t where
    t: "pmm_free_pages a n s = Some (Ok () t)" "pmm_frame s t" "free_frames t = free_frames s \<union> block a n"
    using freesE [OF frees_block [OF True], of s] by metis
  have "0 \<notin> free_frames t" using s b unfolding t(3) pmm_inv_def by fastforce
  then have "pmm_inv t" by (rule pmm_inv_frame [OF s t(2)])
  with t show ?thesis by (simp add: hal_mem_free_pages_def)
next
  case False
  have "unat n = 0"
  proof (rule ccontr)
    assume "unat n \<noteq> 0"
    with False have "unat a div 4096 + unat n - 1 \<in> block a n" by (simp add: block_def)
    with b have "unat a div 4096 + unat n - 1 < max_frames" by (metis atLeastLessThan_iff subsetD)
    with False show False by (simp add: max_frames_def)
  qed
  then have "n = 0" "block a n = {}" by (simp_all add: unat_eq_0 block_def)
  then show ?thesis
    using s by (simp add: hal_mem_free_pages_def pmm_free_pages_def free_frames_from_done skip_run)
qed

interpretation pages: page_allocator hal_mem_alloc_pages hal_mem_free_pages free_frames pmm_inv
  by unfold_locales (simp add: pmm_inv_def, erule pmm_alloc_law, erule (1) pmm_dealloc_law)

end
