(* ===== verification/Heap.thy ===== *)
theory Heap imports Pmm begin

text \<open>
  The kernel heap, \<open>kernel/heap.c\<close>: a bump allocator over 4 MB of page frames that must
  start right behind the kernel image. It provides the interface \<open>bump_allocator\<close> the
  kernel service table hands to programs as \<open>sbrk\<close>.
\<close>

section \<open>State and operations\<close>

definition HEAP_PAGES :: u32 where
  "HEAP_PAGES = 1024"

record heap = pmm +
  heap_base :: u64
  heap_cur :: u64
  heap_limit :: u64

definition heap_init :: "u64 \<Rightarrow> (unit, 'z heap_scheme) prog" where
  "heap_init start = seq [
     modify (\<lambda>s. s\<lparr>heap_base := page_up start\<rparr>),
     bind (hal_mem_alloc_pages HEAP_PAGES) (\<lambda>phys. seq [
       (if phys = 0 then hal_panic (str ''heap_init: out of physical memory'') else skip),
       bind (gets heap_base) (\<lambda>b. if phys \<noteq> b
         then hal_panic (Lit (lit ''heap_init: physical address mismatch '' @ [0xE2, 0x80, 0x94]
           @ lit '' identity mapping broken?'')) else skip)]),
     modify (\<lambda>s. s\<lparr>heap_cur := heap_base s\<rparr>),
     modify (\<lambda>s. s\<lparr>heap_limit := heap_base s + ucast HEAP_PAGES * PAGE_SIZE\<rparr>)]"

text \<open>\<open>incr\<close> is signed: \<open>sint\<close> reads it. \<open>-1\<close> is \<open>(void*)-1\<close>.\<close>

definition heap_sbrk :: "u64 \<Rightarrow> (u64, 'z heap_scheme) prog" where
  "heap_sbrk incr =
     (if sint incr = 0 then gets heap_cur
      else if sint incr < 0 then ret (- 1)
      else bind (gets heap_cur) (\<lambda>old. let new = old + incr in
        branch (\<lambda>s. new > heap_limit s) (ret (- 1))
          (bind (modify (\<lambda>s. s\<lparr>heap_cur := new\<rparr>)) (\<lambda>_. ret old))))"

section \<open>The interface of a growing heap\<close>

locale bump_allocator =
  fixes sbrk :: "u64 \<Rightarrow> (u64, 's) prog"
    and brk :: "'s \<Rightarrow> nat"
    and limit :: "'s \<Rightarrow> nat"
    and inv :: "'s \<Rightarrow> bool"
  assumes brk_limit: "inv s \<Longrightarrow> brk s \<le> limit s \<and> limit s < 2 ^ 63"
    and sbrk_query: "inv s \<Longrightarrow> sbrk 0 s = Some (Ok (word_of_nat (brk s)) s)"
    and sbrk_negative: "inv s \<Longrightarrow> sint n < 0 \<Longrightarrow> sbrk n s = Some (Ok (- 1) s)"
    and sbrk_full: "inv s \<Longrightarrow> 0 < sint n \<Longrightarrow> limit s < brk s + unat n \<Longrightarrow> sbrk n s = Some (Ok (- 1) s)"
    and sbrk_grow: "inv s \<Longrightarrow> 0 < sint n \<Longrightarrow> brk s + unat n \<le> limit s \<Longrightarrow>
      \<exists>t. sbrk n s = Some (Ok (word_of_nat (brk s)) t) \<and> inv t \<and> brk t = brk s + unat n \<and> limit t = limit s"

text \<open>A run of requests, each answered with an address; what an answered request owns.\<close>

fun sbrk_all :: "(u64 \<Rightarrow> (u64, 's) prog) \<Rightarrow> u64 list \<Rightarrow> ((u64 \<times> u64) list, 's) prog" where
  "sbrk_all sbrk [] = ret []"
| "sbrk_all sbrk (n # ns) = bind (sbrk n) (\<lambda>a. bind (sbrk_all sbrk ns) (\<lambda>bs. ret ((a, n) # bs)))"

definition owned :: "u64 \<times> u64 \<Rightarrow> nat set" where
  "owned b = (if fst b = - 1 \<or> sint (snd b) \<le> 0 then {} else {unat (fst b)..<unat (fst b) + unat (snd b)})"

context bump_allocator
begin

lemma brk_address: "inv s \<Longrightarrow> unat (word_of_nat (brk s) :: u64) = brk s"
  using brk_limit [of s] by (simp add: unat_of_nat)

text \<open>Every request is answered, and what a request owns lies above what was used before.\<close>

lemma sbrk_cases:
  assumes "inv s"
  obtains a t where "sbrk n s = Some (Ok a t)" and "inv t" and "limit t = limit s"
    and "brk s \<le> brk t" and "owned (a, n) \<subseteq> {brk s..<brk t}"
proof -
  consider "n = 0" | "sint n < 0" | "0 < sint n" "limit s < brk s + unat n" | "0 < sint n" "brk s + unat n \<le> limit s"
    using sint_zero [of n] by linarith
  then show thesis
  proof cases
    case 1
    with sbrk_query [OF assms] assms show ?thesis by (intro that) (auto simp: owned_def)
  next
    case 2
    with sbrk_negative [OF assms 2] assms show ?thesis by (intro that) (auto simp: owned_def)
  next
    case 3
    with sbrk_full [OF assms 3] assms show ?thesis by (intro that) (auto simp: owned_def)
  next
    case 4
    from sbrk_grow [OF assms 4] obtain t where "sbrk n s = Some (Ok (word_of_nat (brk s)) t)" "inv t"
      "brk t = brk s + unat n" "limit t = limit s" by blast
    moreover have "owned (word_of_nat (brk s), n) \<subseteq> {brk s..<brk s + unat n}"
      by (auto simp: owned_def brk_address [OF assms] split: if_splits)
    ultimately show ?thesis by (intro that [of "word_of_nat (brk s)" t]) auto
  qed
qed

text \<open>However the requests come, what they own never overlaps and stays below the limit.\<close>

lemma sbrk_all_disjoint:
  assumes "inv s"
  shows "\<exists>bs t. sbrk_all sbrk ns s = Some (Ok bs t) \<and> inv t \<and> limit t = limit s \<and> brk s \<le> brk t
    \<and> map snd bs = ns \<and> (\<forall>b\<in>set bs. owned b \<subseteq> {brk s..<brk t})
    \<and> sorted_wrt (\<lambda>b c. owned b \<inter> owned c = {}) bs"
  using assms
proof (induction ns arbitrary: s)
  case Nil
  then show ?case by (simp add: ret_run)
next
  case (Cons n ns)
  from sbrk_cases [OF Cons.prems, of n] obtain a t where t: "sbrk n s = Some (Ok a t)" "inv t"
    "limit t = limit s" "brk s \<le> brk t" "owned (a, n) \<subseteq> {brk s..<brk t}" by metis
  from Cons.IH [OF t(2)] obtain bs u where u: "sbrk_all sbrk ns t = Some (Ok bs u)" "inv u"
    "limit u = limit t" "brk t \<le> brk u" "map snd bs = ns" "\<forall>b\<in>set bs. owned b \<subseteq> {brk t..<brk u}"
    "sorted_wrt (\<lambda>b c. owned b \<inter> owned c = {}) bs" by blast
  have "{brk s..<brk t} \<inter> {brk t..<brk u} = {}" by auto
  with t(5) u(6) have "\<forall>b\<in>set bs. owned (a, n) \<inter> owned b = {}" by blast
  moreover have "owned (a, n) \<subseteq> {brk s..<brk u}" "\<forall>b\<in>set bs. owned b \<subseteq> {brk s..<brk u}"
    using t(4,5) u(4,6) by fastforce+
  moreover have "sbrk_all sbrk (n # ns) s = Some (Ok ((a, n) # bs) u)"
    using t(1) u(1) by (simp add: bind_run ret_run)
  ultimately show ?case using t u by (intro exI [of _ "(a, n) # bs"] exI [of _ u]) simp
qed

end

section \<open>The kernel heap provides it\<close>

definition heap_inv :: "'z heap_scheme \<Rightarrow> bool" where
  "heap_inv s \<longleftrightarrow> heap_base s \<le> heap_cur s \<and> heap_cur s \<le> heap_limit s
     \<and> unat (heap_limit s) = unat (heap_base s) + 1024 * 4096 \<and> unat (heap_limit s) < 2 ^ 63"

lemma heap_add:
  assumes "heap_inv s" and "0 < sint n"
  shows "unat (heap_cur s + n) = unat (heap_cur s) + unat n"
  using assms by (intro unat_add_less) (auto simp: heap_inv_def sint_pos_unat word_le_nat_alt)

lemma heap_sbrk_grow:
  assumes "heap_inv s" and "0 < sint n" and "unat (heap_cur s) + unat n \<le> unat (heap_limit s)"
  shows "heap_sbrk n s = Some (Ok (heap_cur s) (s\<lparr>heap_cur := heap_cur s + n\<rparr>))"
proof -
  have "\<not> heap_limit s < heap_cur s + n"
    using assms heap_add [OF assms(1,2)] by (simp add: word_less_nat_alt)
  with assms(2) show ?thesis
    by (simp add: heap_sbrk_def bind_run gets_run branch_run modify_run ret_run Let_def)
qed

lemma heap_sbrk_full:
  assumes "heap_inv s" and "0 < sint n" and "unat (heap_limit s) < unat (heap_cur s) + unat n"
  shows "heap_sbrk n s = Some (Ok (- 1) s)"
proof -
  have "heap_limit s < heap_cur s + n"
    using assms heap_add [OF assms(1,2)] by (simp add: word_less_nat_alt)
  with assms(2) show ?thesis
    by (simp add: heap_sbrk_def bind_run gets_run branch_run ret_run Let_def)
qed

interpretation heap: bump_allocator heap_sbrk "\<lambda>s. unat (heap_cur s)" "\<lambda>s. unat (heap_limit s)" heap_inv
proof
  fix s :: "'z heap_scheme" and n assume s: "heap_inv s"
  then show "unat (heap_cur s) \<le> unat (heap_limit s) \<and> unat (heap_limit s) < 2 ^ 63"
    by (simp add: heap_inv_def word_le_nat_alt)
  show "heap_sbrk 0 s = Some (Ok (word_of_nat (unat (heap_cur s))) s)"
    by (simp add: heap_sbrk_def gets_run)
  show "heap_sbrk n s = Some (Ok (- 1) s)" if "sint n < 0"
    using that by (simp add: heap_sbrk_def ret_run)
  show "heap_sbrk n s = Some (Ok (- 1) s)" if "0 < sint n" "unat (heap_limit s) < unat (heap_cur s) + unat n"
    using s that by (rule heap_sbrk_full)
  show "\<exists>t. heap_sbrk n s = Some (Ok (word_of_nat (unat (heap_cur s))) t) \<and> heap_inv t
      \<and> unat (heap_cur t) = unat (heap_cur s) + unat n \<and> unat (heap_limit t) = unat (heap_limit s)"
    if n: "0 < sint n" and le: "unat (heap_cur s) + unat n \<le> unat (heap_limit s)"
    using heap_sbrk_grow [OF s n le] heap_add [OF s n] s le
    by (auto simp: heap_inv_def word_le_nat_alt)
qed

section \<open>Initialisation\<close>

text \<open>
  The heap starts at the first free run of 1024 frames. Initialisation succeeds when that
  run begins on the first page behind the image.
\<close>

definition heap_fits :: "u64 \<Rightarrow> 'z heap_scheme \<Rightarrow> bool" where
  "heap_fits start s \<longleftrightarrow>
     first_fit 1024 (free_frames s) (unat (total_frames s)) = Some (unat (page_up start) div 4096)"

definition heap_start :: "u64 \<Rightarrow> 'z heap_scheme \<Rightarrow> 'z heap_scheme" where
  "heap_start start s = s\<lparr>heap_base := page_up start, heap_cur := page_up start,
     heap_limit := page_up start + 1024 * PAGE_SIZE\<rparr>"

lemma page_up_word: "word_of_nat (unat (page_up a) div 4096 * 4096) = page_up a"
  using page_up_aligned [of a] by (metis add.right_neutral div_mult_mod_eq of_nat_unat ucast_id)

lemma heap_init_ok:
  assumes "pmm_inv s" and fits: "heap_fits start s"
  shows "\<exists>b. heap_init start s = Some (Ok () (heap_start start (s\<lparr>bitmap := b\<rparr>)))
    \<and> pmm_inv (s\<lparr>bitmap := b\<rparr>) \<and> heap_inv (heap_start start (s\<lparr>bitmap := b\<rparr>))
    \<and> free_frames (s\<lparr>bitmap := b\<rparr>) = free_frames s - block (page_up start) HEAP_PAGES"
proof -
  let ?s = "s\<lparr>heap_base := page_up start\<rparr>" and ?k = "unat (page_up start) div 4096"
  have ok: "bitmap_ok ?s" "unat (total_frames ?s) \<le> max_frames"
    using assms(1) by (simp_all add: pmm_inv_def bitmap_ok_def)
  have free: "free_frames ?s = free_frames s" by (simp add: free_frames_def)
  have n: "unat HEAP_PAGES = 1024" "HEAP_PAGES \<noteq> 0" by (simp_all add: HEAP_PAGES_def)
  have fit: "first_fit (unat HEAP_PAGES) (free_frames ?s) (unat (total_frames ?s)) = Some ?k"
    using fits by (simp add: heap_fits_def free n)
  from pmm_alloc_pages_run [OF ok, of HEAP_PAGES] obtain t where
    t: "pmm_alloc_pages HEAP_PAGES ?s = Some (Ok (page_up start) t)" "pmm_frame ?s t"
      "free_frames t = free_frames ?s - {?k..<?k + 1024}"
    unfolding if_not_P [OF n(2)] fit option.case page_up_word unfolding n(1) by blast
  from t(2) obtain b where b: "t = ?s\<lparr>bitmap := b\<rparr>" "length b = length (bitmap s)"
    by (auto simp: pmm_frame_def)
  have nz: "page_up start \<noteq> 0"
  proof
    assume "page_up start = 0"
    then have "0 \<in> free_frames s" using first_fit_SomeD(3) [OF fit] free n by auto
    with assms(1) show False by (simp add: pmm_inv_def)
  qed
  have "heap_init start s = Some (Ok () (heap_start start (s\<lparr>bitmap := b\<rparr>)))"
    using t(1) nz by (cases s) (simp add: heap_init_def heap_start_def bind_run modify_run gets_run skip_run
        hal_mem_alloc_pages_def b(1) HEAP_PAGES_def)
  moreover have fr: "free_frames (s\<lparr>bitmap := b\<rparr>) = free_frames s - block (page_up start) HEAP_PAGES"
    using t(3) by (simp add: b(1) free_frames_def block_def n(1))
  moreover have "pmm_inv (s\<lparr>bitmap := b\<rparr>)"
    using assms(1) fr b(2) by (auto simp: pmm_inv_def bitmap_ok_def)
  moreover have "?k + 1024 \<le> 131072"
    using first_fit_SomeD(2) [OF fit] ok(2) n by (simp add: max_frames_def)
  then have "unat (page_up start) + 1024 * 4096 < 2 ^ 63"
    using page_up_aligned [of start] by (simp add: mod_0_imp_dvd dvd_div_mult_self)
  then have "heap_inv (heap_start start (s\<lparr>bitmap := b\<rparr>))"
    by (auto simp: heap_inv_def heap_start_def PAGE_SIZE_def unat_add_less word_le_nat_alt)
  ultimately show ?thesis by blast
qed

text \<open>Anything else is a panic: the allocator answers 0 or another address.\<close>

lemma heap_frames_elsewhere:
  assumes "pmm_inv s" and con: "con_inv s" and fits: "\<not> heap_fits start s"
  obtains a t where "pmm_alloc_pages HEAP_PAGES (s\<lparr>heap_base := page_up start\<rparr>) = Some (Ok a t)" and "con_inv t"
    and "heap_base t = page_up start" and "a = 0 \<or> a \<noteq> page_up start"
proof -
  let ?s = "s\<lparr>heap_base := page_up start\<rparr>"
  have ok: "bitmap_ok ?s" "unat (total_frames ?s) \<le> max_frames"
    using assms(1) by (simp_all add: pmm_inv_def bitmap_ok_def)
  have free: "free_frames ?s = free_frames s" by (simp add: free_frames_def)
  have n: "unat HEAP_PAGES = 1024" "HEAP_PAGES \<noteq> 0" by (simp_all add: HEAP_PAGES_def)
  note alloc = pmm_alloc_pages_run [OF ok, of HEAP_PAGES, unfolded if_not_P [OF n(2)]]
  show thesis
  proof (cases "first_fit (unat HEAP_PAGES) (free_frames ?s) (unat (total_frames ?s))")
    case None
    with alloc con that show thesis by (simp add: con_inv_def vga_inv_def on_serial_def)
  next
    case (Some k)
    with alloc obtain t where t: "pmm_alloc_pages HEAP_PAGES ?s = Some (Ok (word_of_nat (k * 4096)) t)"
      "pmm_frame ?s t" unfolding Some option.case by blast
    from t(2) obtain b where b: "t = ?s\<lparr>bitmap := b\<rparr>" by (auto simp: pmm_frame_def)
    have "k < max_frames" using first_fit_SomeD(1) [OF Some] ok(2) by simp
    then have k: "unat (word_of_nat (k * 4096) :: u64) = k * 4096"
      by (simp only: unat_of_nat) (simp add: max_frames_def)
    have "word_of_nat (k * 4096) \<noteq> page_up start"
    proof
      assume "word_of_nat (k * 4096) = page_up start"
      with k have "unat (page_up start) div 4096 = k" by simp
      with Some fits show False by (simp add: heap_fits_def free n)
    qed
    with t(1) con that show thesis by (simp add: b con_inv_def vga_inv_def on_serial_def)
  qed
qed

lemma heap_init_panics:
  assumes "pmm_inv s" and "con_inv s" and "\<not> heap_fits start s"
  shows "\<exists>t. (heap_init start s = Some (Halt t) \<or> heap_init start s = Some (Wait t))
    \<and> con_inv t \<and> \<not> intr_enabled t"
proof -
  from heap_frames_elsewhere [OF assms] obtain a t where
    t: "pmm_alloc_pages HEAP_PAGES (s\<lparr>heap_base := page_up start\<rparr>) = Some (Ok a t)" "con_inv t"
      "heap_base t = page_up start" "a = 0 \<or> a \<noteq> page_up start" .
  note run = heap_init_def bind_run modify_run gets_run skip_run hal_mem_alloc_pages_def
  show ?thesis
  proof (cases "a = 0")
    case True
    from hal_panic_lit [OF t(2)] obtain u and r :: "(unit, _) outcome" where
      "hal_panic (str ''heap_init: out of physical memory'') t = Some r" "r = Halt u \<or> r = Wait u"
      "con_inv u \<and> \<not> intr_enabled u" by blast
    with t(1) True show ?thesis by (auto simp: run simp del: lit_Cons)
  next
    case False
    let ?m = "Lit (lit ''heap_init: physical address mismatch '' @ [0xE2, 0x80, 0x94]
           @ lit '' identity mapping broken?'')"
    from hal_panic_lit [OF t(2)] obtain u and r :: "(unit, _) outcome" where
      "hal_panic ?m t = Some r" "r = Halt u \<or> r = Wait u"
      "con_inv u \<and> \<not> intr_enabled u" by blast
    with t False show ?thesis by (auto simp: run simp del: lit_Cons)
  qed
qed

end
