(* ===== verification/Idt.thy ===== *)
theory Idt imports Heap begin

text \<open>
  Interrupt descriptors and exceptions, \<open>kernel/arch/x86_64/idt.c\<close>: the gates, the task
  state segment with its descriptor, the loads of the three system registers, and the
  exception handler with its one-shot hook.
\<close>

section \<open>State\<close>

record idt_entry =
  offset_low :: u16
  selector :: u16
  ist :: u8
  type_attr :: u8
  offset_mid :: u16
  offset_high :: u32
  reserved :: u32

record idt_ptr =
  ptr_limit :: u16
  ptr_base :: u64

text \<open>The members of the task state segment the kernel writes; the others stay zero.\<close>

record tss64 =
  ist1 :: u64
  iopb_offset :: u16

definition IDT_INTERRUPT_GATE :: u8 where
  "IDT_INTERRUPT_GATE = 0x8E"

definition IDT_TRAP_GATE :: u8 where
  "IDT_TRAP_GATE = 0x8F"

definition IST1_SIZE :: u64 where
  "IST1_SIZE = 4096"

definition sizeof_tss :: u32 where
  "sizeof_tss = 104"

text \<open>
  The static variables, and the registers \<open>lgdt\<close>, \<open>ltr\<close> and \<open>lidt\<close> load. A function
  pointer is its address; \<open>exc_hook = 0\<close> is \<open>NULL\<close>.
\<close>

record idts = heap +
  idt :: "idt_entry list"
  kernel_tss :: tss64
  kernel_gdt :: "u64 list"
  gdt_ptr :: idt_ptr
  idt_ptr :: idt_ptr
  exc_hook :: u64
  gdtr :: idt_ptr
  task_register :: u16
  idtr :: idt_ptr

text \<open>The addresses the linker gives to the symbols whose address the code takes.\<close>

record layout =
  kernel_end :: u64
  isr_table :: "u64 list"
  ist1_stack :: u64
  tss_address :: u64
  gdt_address :: u64
  idt_address :: u64

definition initial_gdt :: "u64 list" where
  "initial_gdt = [0,
     push_bit 43 1 OR push_bit 44 1 OR push_bit 47 1 OR push_bit 53 1,
     push_bit 41 1 OR push_bit 44 1 OR push_bit 47 1, 0, 0]"

section \<open>Operations\<close>

definition idt_set_exc_hook :: "u64 \<Rightarrow> (unit, 'z idts_scheme) prog" where
  "idt_set_exc_hook fn = modify (\<lambda>s. s\<lparr>exc_hook := fn\<rparr>)"

definition idt_clear_exc_hook :: "(unit, 'z idts_scheme) prog" where
  "idt_clear_exc_hook = modify (\<lambda>s. s\<lparr>exc_hook := 0\<rparr>)"

definition make_gate :: "u64 \<Rightarrow> u8 \<Rightarrow> idt_entry" where
  "make_gate handler attr_byte = \<lparr>
     offset_low = ucast (handler AND 0xFFFF),
     selector = 0x08,
     ist = 0,
     type_attr = attr_byte,
     offset_mid = ucast (drop_bit 16 handler AND 0xFFFF),
     offset_high = ucast (drop_bit 32 handler AND 0xFFFFFFFF),
     reserved = 0\<rparr>"

definition idt_set_gate :: "u8 \<Rightarrow> u64 \<Rightarrow> u8 \<Rightarrow> (unit, 'z idts_scheme) prog" where
  "idt_set_gate vec handler attr_byte = branch (\<lambda>s. unat vec < length (idt s))
     (modify (\<lambda>s. s\<lparr>idt := (idt s)[unat vec := make_gate handler attr_byte]\<rparr>)) undef"

definition tss_low :: "u64 \<Rightarrow> u32 \<Rightarrow> u64" where
  "tss_low start limit = ucast (limit AND 0xFFFF) OR push_bit 16 (start AND 0xFFFFFF)
     OR push_bit 40 0x89 OR push_bit 48 (ucast (drop_bit 16 limit AND 0xF))
     OR push_bit 56 (drop_bit 24 start AND 0xFF)"

definition tss_high :: "u64 \<Rightarrow> u64" where
  "tss_high start = drop_bit 32 start AND 0xFFFFFFFF"

definition gdt_set_tss_entry :: "u64 \<Rightarrow> u32 \<Rightarrow> (unit, 'z idts_scheme) prog" where
  "gdt_set_tss_entry start limit =
     modify (\<lambda>s. s\<lparr>kernel_gdt := (kernel_gdt s)[3 := tss_low start limit, 4 := tss_high start]\<rparr>)"

text \<open>
  \<open>ltr\<close> takes the descriptor of an available 64-bit task state segment (present, type 9)
  and marks it busy; on any other descriptor it raises a general protection fault.
\<close>

definition tss_busy :: "u64 \<Rightarrow> u64" where
  "tss_busy d = d OR push_bit 41 1"

definition ltr :: "u16 \<Rightarrow> (unit, 'z idts_scheme) prog" where
  "ltr sel s = (let i = unat (sel div 8); d = kernel_gdt s ! i in
     if i < length (kernel_gdt s) \<and> drop_bit 40 d AND 0xFF = 0x89
     then Some (Ok () (s\<lparr>task_register := sel, kernel_gdt := (kernel_gdt s)[i := tss_busy d]\<rparr>))
     else Some (Trap 13 s))"

definition idt_init :: "layout \<Rightarrow> (unit, 'z idts_scheme) prog" where
  "idt_init lay = seq [
     for_each [0..<32] (\<lambda>i. idt_set_gate (of_nat i) (isr_table lay ! i) IDT_INTERRUPT_GATE),
     modify (\<lambda>s. s\<lparr>kernel_tss := kernel_tss s
       \<lparr>ist1 := ist1_stack lay + IST1_SIZE, iopb_offset := ucast sizeof_tss\<rparr>\<rparr>),
     gdt_set_tss_entry (tss_address lay) (sizeof_tss - 1),
     modify (\<lambda>s. s\<lparr>gdt_ptr := \<lparr>ptr_limit = 5 * 8 - 1, ptr_base = gdt_address lay\<rparr>\<rparr>),
     modify (\<lambda>s. s\<lparr>gdtr := gdt_ptr s\<rparr>),
     ltr 0x18,
     branch (\<lambda>s. 8 < length (idt s)) (modify (\<lambda>s. s\<lparr>idt := (idt s)[8 := (idt s ! 8)\<lparr>ist := 1\<rparr>]\<rparr>)) undef,
     modify (\<lambda>s. s\<lparr>idt_ptr := \<lparr>ptr_limit = 256 * 16 - 1, ptr_base = idt_address lay\<rparr>\<rparr>),
     modify (\<lambda>s. s\<lparr>idtr := idt_ptr s\<rparr>)]"

section \<open>Exceptions\<close>

record interrupt_frame =
  r15 :: u64  r14 :: u64  r13 :: u64  r12 :: u64  r11 :: u64  r10 :: u64  r9 :: u64  r8 :: u64
  rdi :: u64  rsi :: u64  rbp :: u64  rdx :: u64  rcx :: u64  rbx :: u64  rax :: u64
  vector :: u64
  error_code :: u64
  rip :: u64
  cs :: u64
  rflags :: u64
  rsp :: u64
  ss :: u64

definition exception_names :: "string list" where
  "exception_names = [
     ''#DE Division Error'', ''#DB Debug'', ''NMI'', ''#BP Breakpoint'', ''#OF Overflow'',
     ''#BR Bound Range Exceeded'', ''#UD Invalid Opcode'', ''#NM Device Not Available'',
     ''#DF Double Fault'', ''Coprocessor Segment Overrun'', ''#TS Invalid TSS'',
     ''#NP Segment Not Present'', ''#SS Stack-Segment Fault'', ''#GP General Protection Fault'',
     ''#PF Page Fault'', ''Reserved (15)'', ''#MF x87 Floating-Point'', ''#AC Alignment Check'',
     ''#MC Machine Check'', ''#XF SIMD Floating-Point'', ''Reserved (20)'', ''Reserved (21)'',
     ''Reserved (22)'', ''Reserved (23)'', ''Reserved (24)'', ''Reserved (25)'', ''Reserved (26)'',
     ''Reserved (27)'', ''Reserved (28)'', ''Reserved (29)'', ''#SX Security Exception'',
     ''Reserved (31)'']"

abbreviation newline :: cstr where
  "newline \<equiv> Lit [0x0A]"

text \<open>
  \<open>call\<close> runs the hook: from the address, the vector, the interrupted address and the error
  code to the values it leaves in \<open>*out_rip\<close> and \<open>*out_rsp\<close>, which start as 0. The handler
  returns the frame that \<open>iretq\<close> will pop.
\<close>

definition exception_handler ::
  "(u64 \<Rightarrow> u64 \<Rightarrow> u64 \<Rightarrow> u64 \<Rightarrow> (u64 \<times> u64, 'z idts_scheme) prog) \<Rightarrow> interrupt_frame
    \<Rightarrow> (interrupt_frame, 'z idts_scheme) prog" where
  "exception_handler call f = bind (gets exc_hook) (\<lambda>fn.
     if fn \<noteq> 0 then
       bind (modify (\<lambda>s. s\<lparr>exc_hook := 0\<rparr>)) (\<lambda>_.
       bind (call fn (vector f) (rip f) (error_code f)) (\<lambda>(new_rip, new_rsp).
       ret (if new_rip \<noteq> 0 then f\<lparr>rip := new_rip, rsp := new_rsp, rflags := 0x202\<rparr> else f)))
     else
       bind (seq [
         hal_console_panic_color,
         hal_console_print (Lit ([0x0A, 0x0A] @ lit ''  EXCEPTION: '')),
         hal_console_print (str (if vector f < 32 then exception_names ! unat (vector f) else ''Unknown'')),
         hal_console_print newline,
         hal_console_print (str ''  RIP: ''), hal_console_print_hex (rip f),
         hal_console_print (str ''  CS:  ''), hal_console_print_hex (cs f), hal_console_print newline,
         hal_console_print (str ''  RSP: ''), hal_console_print_hex (rsp f),
         hal_console_print (str ''  SS:  ''), hal_console_print_hex (ss f), hal_console_print newline,
         hal_console_print (str ''  RFLAGS: ''), hal_console_print_hex (rflags f), hal_console_print newline,
         (if error_code f \<noteq> 0 then seq [
            hal_console_print (str ''  ERR: ''), hal_console_print_hex (error_code f), hal_console_print newline]
          else skip),
         hal_console_print (str ''  RAX: ''), hal_console_print_hex (rax f),
         hal_console_print (str ''  RBX: ''), hal_console_print_hex (rbx f), hal_console_print newline,
         hal_console_print (str ''  RCX: ''), hal_console_print_hex (rcx f),
         hal_console_print (str ''  RDX: ''), hal_console_print_hex (rdx f), hal_console_print newline])
       (\<lambda>_. hal_cpu_halt))"

definition hal_idt_init :: "layout \<Rightarrow> (unit, 'z idts_scheme) prog" where
  "hal_idt_init lay = idt_init lay"

definition hal_set_exc_hook :: "u64 \<Rightarrow> (unit, 'z idts_scheme) prog" where
  "hal_set_exc_hook fn = idt_set_exc_hook fn"

definition hal_clear_exc_hook :: "(unit, 'z idts_scheme) prog" where
  "hal_clear_exc_hook = idt_clear_exc_hook"

section \<open>Descriptors say what they were made from\<close>

definition gate_handler :: "idt_entry \<Rightarrow> u64" where
  "gate_handler g = ucast (offset_low g) OR push_bit 16 (ucast (offset_mid g)) OR push_bit 32 (ucast (offset_high g))"

text \<open>The base and the limit the processor reads from the two halves of a system descriptor.\<close>

definition desc_base :: "u64 \<Rightarrow> u64 \<Rightarrow> u64" where
  "desc_base lo hi = (drop_bit 16 lo AND mask 24) OR push_bit 24 (drop_bit 56 lo AND mask 8)
     OR push_bit 32 (hi AND mask 32)"

definition desc_limit :: "u64 \<Rightarrow> u64" where
  "desc_limit lo = (lo AND mask 16) OR push_bit 16 (drop_bit 48 lo AND mask 4)"

lemma masks: "(0xF :: 'a::len word) = mask 4" "(0xFF :: 'a::len word) = mask 8" "(0xFFFF :: 'a::len word) = mask 16"
  "(0xFFFFFF :: 'a::len word) = mask 24" "(0xFFFFFFFF :: 'a::len word) = mask 32"
  by (simp_all add: mask_eq_exp_minus_1)

lemma gate_handler_make: "gate_handler (make_gate h t) = h"
proof (rule bit_word_eqI)
  fix n assume n: "n < LENGTH(64)"
  consider "n < 16" | k where "n = 16 + k" "k < 16" | k where "n = 32 + k" "k < 32"
  proof -
    assume a: "n < 16 \<Longrightarrow> thesis" "\<And>k. n = 16 + k \<Longrightarrow> k < 16 \<Longrightarrow> thesis" "\<And>k. n = 32 + k \<Longrightarrow> k < 32 \<Longrightarrow> thesis"
    show thesis using a(1) a(2) [of "n - 16"] a(3) [of "n - 32"] n by simp linarith
  qed
  then show "bit (gate_handler (make_gate h t)) n = bit h n"
    by cases (simp_all add: gate_handler_def make_gate_def masks bit_simps)
qed

text \<open>The bits of the lower half of the descriptor.\<close>

lemma bit_0x89: "bit (0x89 :: u64) n \<longleftrightarrow> n = 0 \<or> n = 3 \<or> n = 7"
proof -
  have "(0x89 :: u64) = push_bit 0 1 OR (push_bit 3 1 OR push_bit 7 1)" by simp
  then show ?thesis by (simp only: bit_or_iff bit_push_bit_iff bit_1_iff) auto
qed

lemma bit_tss_low:
  assumes "j < 64"
  shows "bit (tss_low b l) j \<longleftrightarrow> (j < 16 \<and> bit l j) \<or> (16 \<le> j \<and> j < 40 \<and> bit b (j - 16))
    \<or> j = 40 \<or> j = 43 \<or> j = 47 \<or> (48 \<le> j \<and> j < 52 \<and> bit l (j - 32)) \<or> (56 \<le> j \<and> bit b (j - 32))"
proof -
  have "bit (tss_low b l) j \<longleftrightarrow> bit (ucast (l AND mask 16) :: u64) j
      \<or> (16 \<le> j \<and> bit (b AND mask 24) (j - 16)) \<or> (40 \<le> j \<and> (j - 40 = 0 \<or> j - 40 = 3 \<or> j - 40 = 7))
      \<or> (48 \<le> j \<and> bit (ucast (drop_bit 16 l AND mask 4) :: u64) (j - 48))
      \<or> (56 \<le> j \<and> bit (drop_bit 24 b AND mask 8) (j - 56))"
    using assms by (simp only: tss_low_def masks bit_or_iff bit_push_bit_iff bit_0x89) simp
  moreover have "bit (ucast (l AND mask 16) :: u64) j \<longleftrightarrow> j < 16 \<and> bit l j"
    using assms by (auto simp: bit_ucast_iff bit_and_iff bit_mask_iff)
  moreover have "16 \<le> j \<and> bit (b AND mask 24) (j - 16) \<longleftrightarrow> 16 \<le> j \<and> j < 40 \<and> bit b (j - 16)"
    by (auto simp: bit_and_iff bit_mask_iff)
  moreover have "40 \<le> j \<and> (j - 40 = 0 \<or> j - 40 = 3 \<or> j - 40 = 7) \<longleftrightarrow> j = 40 \<or> j = 43 \<or> j = 47"
    by linarith
  moreover have "48 \<le> j \<and> bit (ucast (drop_bit 16 l AND mask 4) :: u64) (j - 48)
      \<longleftrightarrow> 48 \<le> j \<and> j < 52 \<and> bit l (j - 32)"
  proof (cases "48 \<le> j")
    case True
    then have "16 + (j - 48) = j - 32" by simp
    with True show ?thesis using assms by (auto simp: bit_ucast_iff bit_and_iff bit_mask_iff bit_drop_bit_eq)
  qed simp
  moreover have "56 \<le> j \<and> bit (drop_bit 24 b AND mask 8) (j - 56) \<longleftrightarrow> 56 \<le> j \<and> bit b (j - 32)"
  proof (cases "56 \<le> j")
    case True
    then have "24 + (j - 56) = j - 32" by simp
    with True show ?thesis using assms by (auto simp: bit_and_iff bit_mask_iff bit_drop_bit_eq)
  qed simp
  ultimately show ?thesis by (simp only: disj_assoc)
qed

lemma desc_base_tss: "desc_base (tss_low b l) (tss_high b) = b"
proof (rule bit_word_eqI)
  fix n assume n: "n < LENGTH(64)"
  consider "n < 24" | k where "n = 24 + k" "k < 8" | k where "n = 32 + k" "k < 32"
  proof -
    assume a: "n < 24 \<Longrightarrow> thesis" "\<And>k. n = 24 + k \<Longrightarrow> k < 8 \<Longrightarrow> thesis" "\<And>k. n = 32 + k \<Longrightarrow> k < 32 \<Longrightarrow> thesis"
    show thesis using a(1) a(2) [of "n - 24"] a(3) [of "n - 32"] n by simp linarith
  qed
  then show "bit (desc_base (tss_low b l) (tss_high b)) n = bit b n"
    by cases (auto simp: desc_base_def tss_high_def masks bit_or_iff bit_and_iff bit_push_bit_iff
        bit_mask_iff bit_drop_bit_eq bit_tss_low)
qed

lemma desc_limit_tss: "l < 0x100000 \<Longrightarrow> desc_limit (tss_low b l) = ucast l"
proof (rule bit_word_eqI)
  fix n assume n: "n < LENGTH(64)" and l: "l < 0x100000"
  have hi: "\<not> bit l n" if "20 \<le> n"
  proof
    assume "bit l n"
    then have "2 ^ n \<le> unat l" by (metis bit_unsigned_iff bit_nat_def div_less even_zero not_less possible_bit_nat)
    moreover have "(2 :: nat) ^ 20 \<le> 2 ^ n" using that by (rule power_increasing) simp
    ultimately show False using l by (simp add: word_less_nat_alt)
  qed
  consider "n < 16" | k where "n = 16 + k" "k < 4" | "20 \<le> n"
  proof -
    assume a: "n < 16 \<Longrightarrow> thesis" "\<And>k. n = 16 + k \<Longrightarrow> k < 4 \<Longrightarrow> thesis" "20 \<le> n \<Longrightarrow> thesis"
    show thesis using a(1) a(2) [of "n - 16"] a(3) by (cases "n < 16"; cases "n < 20") simp_all
  qed
  then show "bit (desc_limit (tss_low b l)) n = bit (ucast l :: u64) n"
    using n hi by cases (auto simp: desc_limit_def bit_or_iff bit_and_iff bit_push_bit_iff
        bit_mask_iff bit_drop_bit_eq bit_tss_low bit_ucast_iff)
qed

lemma tss_low_type: "drop_bit 40 (tss_low b l) AND 0xFF = 0x89"
proof (rule bit_word_eqI)
  fix n assume n: "n < LENGTH(64)"
  show "bit (drop_bit 40 (tss_low b l) AND 0xFF) n = bit (0x89 :: u64) n"
    unfolding masks bit_0x89 using n
    by (auto simp: bit_and_iff bit_mask_iff bit_drop_bit_eq bit_tss_low)
qed

lemma bit_tss_busy: "j < 64 \<Longrightarrow> bit (tss_busy d) j \<longleftrightarrow> bit d j \<or> j = 41"
  by (simp only: tss_busy_def bit_or_iff bit_push_bit_iff bit_1_iff) auto

lemma desc_base_busy: "desc_base (tss_busy d) hi = desc_base d hi"
proof (rule bit_word_eqI)
  fix n assume "n < LENGTH(64)"
  then show "bit (desc_base (tss_busy d) hi) n = bit (desc_base d hi) n"
    by (auto simp: desc_base_def bit_or_iff bit_and_iff bit_push_bit_iff bit_mask_iff bit_drop_bit_eq bit_tss_busy)
qed

lemma desc_limit_busy: "desc_limit (tss_busy d) = desc_limit d"
proof (rule bit_word_eqI)
  fix n assume "n < LENGTH(64)"
  then show "bit (desc_limit (tss_busy d)) n = bit (desc_limit d) n"
    by (auto simp: desc_limit_def bit_or_iff bit_and_iff bit_push_bit_iff bit_mask_iff bit_drop_bit_eq bit_tss_busy)
qed

section \<open>Initialisation\<close>

definition tables_ok :: "'z idts_scheme \<Rightarrow> bool" where
  "tables_ok s \<longleftrightarrow> length (idt s) = 256 \<and> length (kernel_gdt s) = 5"

lemma set_gates_run:
  assumes "length (idt s) = 256" and "n \<le> 32"
  shows "for_each [0..<n] (\<lambda>i. idt_set_gate (of_nat i) (h i) ty) s
    = Some (Ok () (s\<lparr>idt := map (\<lambda>i. make_gate (h i) ty) [0..<n] @ drop n (idt s)\<rparr>))"
proof -
  let ?g = "\<lambda>k. s\<lparr>idt := map (\<lambda>i. make_gate (h i) ty) [0..<k] @ drop k (idt s)\<rparr>"
  have "idt_set_gate (of_nat k) (h k) ty (?g k) = Some (Ok () (?g (Suc k)))" if "k < n" for k
  proof -
    have k: "unat (of_nat k :: u8) = k" "k < length (idt s)" using that assms by (simp_all add: unat_of_nat)
    have "(map f [0..<k] @ drop k xs)[k := f k] = map f [0..<Suc k] @ drop (Suc k) xs" if "k < length xs" for f and xs :: "idt_entry list"
      by (simp add: list_update_append that flip: Cons_nth_drop_Suc [OF that])
    from this [OF k(2), of "\<lambda>i. make_gate (h i) ty"] k show ?thesis
      by (simp add: idt_set_gate_def branch_run modify_run del: upt_Suc)
  qed
  then have "for_each [0..<n] (\<lambda>i. idt_set_gate (of_nat i) (h i) ty) (?g 0) = Some (Ok () (?g n))"
    by (intro for_each_upt) simp_all
  then show ?thesis by simp
qed

definition kernel_gate :: "layout \<Rightarrow> nat \<Rightarrow> idt_entry" where
  "kernel_gate lay i = (make_gate (isr_table lay ! i) IDT_INTERRUPT_GATE)\<lparr>ist := (if i = 8 then 1 else 0)\<rparr>"

definition idt_state :: "layout \<Rightarrow> 'z idts_scheme \<Rightarrow> 'z idts_scheme" where
  "idt_state lay s = s\<lparr>
     idt := map (kernel_gate lay) [0..<32] @ drop 32 (idt s),
     kernel_tss := kernel_tss s\<lparr>ist1 := ist1_stack lay + IST1_SIZE, iopb_offset := ucast sizeof_tss\<rparr>,
     kernel_gdt := (kernel_gdt s)
       [3 := tss_busy (tss_low (tss_address lay) (sizeof_tss - 1)), 4 := tss_high (tss_address lay)],
     gdt_ptr := \<lparr>ptr_limit = 39, ptr_base = gdt_address lay\<rparr>,
     idt_ptr := \<lparr>ptr_limit = 4095, ptr_base = idt_address lay\<rparr>,
     gdtr := \<lparr>ptr_limit = 39, ptr_base = gdt_address lay\<rparr>,
     task_register := 0x18,
     idtr := \<lparr>ptr_limit = 4095, ptr_base = idt_address lay\<rparr>\<rparr>"

lemma idt_init_run:
  assumes "tables_ok s"
  shows "idt_init lay s = Some (Ok () (idt_state lay s))"
proof -
  let ?g = "\<lambda>i. make_gate (isr_table lay ! i) IDT_INTERRUPT_GATE"
  have len: "length (idt s) = 256" "length (kernel_gdt s) = 5" using assms by (simp_all add: tables_ok_def)
  have gates: "(map ?g [0..<32] @ drop 32 (idt s))[8 := (?g 8)\<lparr>ist := 1\<rparr>]
      = map (kernel_gate lay) [0..<32] @ drop 32 (idt s)"
  proof -
    have "kernel_gate lay i = (if i = 8 then (?g 8)\<lparr>ist := 1\<rparr> else ?g i)" for i
      by (simp add: kernel_gate_def make_gate_def)
    then have "(map ?g [0..<32])[8 := (?g 8)\<lparr>ist := 1\<rparr>] = map (kernel_gate lay) [0..<32]"
      by (intro nth_equalityI) (auto simp: nth_list_update)
    then show ?thesis by (simp add: list_update_append)
  qed
  have "ltr 0x18 t = Some (Ok () (t\<lparr>task_register := 0x18, kernel_gdt := (kernel_gdt t)[3 := tss_busy d]\<rparr>))"
    if "length (kernel_gdt t) = 5" "kernel_gdt t ! 3 = d" "d = tss_low b l" for t :: "'a idts_scheme" and d b l
    using that tss_low_type by (simp add: ltr_def Let_def)
  note ltr = this [OF _ _ refl]
  show ?thesis
    using len gates
    by (simp add: idt_init_def bind_run set_gates_run modify_run gdt_set_tss_entry_def ltr branch_run
        skip_run nth_append idt_state_def list_update_swap)
qed

section \<open>Exceptions without and with a hook\<close>

lemma con_local_True [simp]: "con_local (\<lambda>_. c)"
  by (rule con_localI) simp_all

text \<open>Without a hook an exception never returns.\<close>

lemma exception_panics:
  fixes s :: "'z idts_scheme"
  assumes "con_inv s" and "exc_hook s = 0"
  shows "\<exists>t r. exception_handler call f s = Some r \<and> (r = Halt t \<or> r = Wait t) \<and> con_inv t"
proof -
  define m :: "(unit, 'z idts_scheme) prog" where "m = seq [
         hal_console_panic_color,
         hal_console_print (Lit ([0x0A, 0x0A] @ lit ''  EXCEPTION: '')),
         hal_console_print (str (if vector f < 32 then exception_names ! unat (vector f) else ''Unknown'')),
         hal_console_print newline,
         hal_console_print (str ''  RIP: ''), hal_console_print_hex (rip f),
         hal_console_print (str ''  CS:  ''), hal_console_print_hex (cs f), hal_console_print newline,
         hal_console_print (str ''  RSP: ''), hal_console_print_hex (rsp f),
         hal_console_print (str ''  SS:  ''), hal_console_print_hex (ss f), hal_console_print newline,
         hal_console_print (str ''  RFLAGS: ''), hal_console_print_hex (rflags f), hal_console_print newline,
         (if error_code f \<noteq> 0 then seq [
            hal_console_print (str ''  ERR: ''), hal_console_print_hex (error_code f), hal_console_print newline]
          else skip),
         hal_console_print (str ''  RAX: ''), hal_console_print_hex (rax f),
         hal_console_print (str ''  RBX: ''), hal_console_print_hex (rbx f), hal_console_print newline,
         hal_console_print (str ''  RCX: ''), hal_console_print_hex (rcx f),
         hal_console_print (str ''  RDX: ''), hal_console_print_hex (rdx f), hal_console_print newline]"
  have "keeps (con_and (\<lambda>_. True)) m"
    unfolding m_def by (intro keeps_intros) simp_all
  then have "keeps con_inv m" by simp
  moreover have "exception_handler call f s = bind m (\<lambda>_. hal_cpu_halt) s"
    using assms(2) unfolding exception_handler_def m_def [symmetric]
    by (simp add: bind_def gets_def)
  ultimately show ?thesis
    using assms(1) by (elim keepsE [of _ _ s]) (auto simp: bind_run hal_cpu_halt_run)
qed

text \<open>
  With a hook the handler clears it before it calls it, and redirects the frame when the
  hook names an address to continue at.
\<close>

lemma exception_hooked:
  assumes "exc_hook s = fn" and "fn \<noteq> 0"
  shows "exception_handler call f s =
    bind (call fn (vector f) (rip f) (error_code f)) (\<lambda>(new_rip, new_rsp).
      ret (if new_rip \<noteq> 0 then f\<lparr>rip := new_rip, rsp := new_rsp, rflags := 0x202\<rparr> else f)) (s\<lparr>exc_hook := 0\<rparr>)"
  using assms by (simp add: exception_handler_def bind_def gets_def modify_def)

end
