(* ===== verification/Elf.thy ===== *)
theory Elf imports Hw begin

text \<open>
  The program loader, \<open>kernel/elf.c\<close> with the constants of \<open>elf_arch.h\<close>: it reads the
  headers of an image in memory and copies its segments to their addresses. The headers
  are read again on every use, as the code reads them through its pointers.
\<close>

section \<open>Headers\<close>

definition ET_EXEC :: u64 where
  "ET_EXEC = 2"

definition PT_LOAD :: u64 where
  "PT_LOAD = 1"

definition EI_CLASS :: u64 where
  "EI_CLASS = 4"

definition ELF_CLASS :: u8 where
  "ELF_CLASS = 2"

definition ELF_MACHINE :: u64 where
  "ELF_MACHINE = 62"

definition PROG_LOAD_MIN :: u64 where
  "PROG_LOAD_MIN = 0x100000"

definition PROG_LOAD_MAX :: u64 where
  "PROG_LOAD_MAX = 0x8000000"

text \<open>\<open>sizeof\<close> of the two packed structs, and their members by offset and width.\<close>

definition EHDR_SIZE :: u64 where
  "EHDR_SIZE = 64"

definition PHDR_SIZE :: u64 where
  "PHDR_SIZE = 56"

definition e_ident :: "u64 \<Rightarrow> u64 \<Rightarrow> (u8, 'z hw_scheme) prog" where
  "e_ident eh i = load8 (eh + i)"

definition e_type :: "u64 \<Rightarrow> (u64, 'z hw_scheme) prog" where
  "e_type eh = load 2 (eh + 16)"

definition e_machine :: "u64 \<Rightarrow> (u64, 'z hw_scheme) prog" where
  "e_machine eh = load 2 (eh + 18)"

definition e_entry :: "u64 \<Rightarrow> (u64, 'z hw_scheme) prog" where
  "e_entry eh = load 8 (eh + 24)"

definition e_phoff :: "u64 \<Rightarrow> (u64, 'z hw_scheme) prog" where
  "e_phoff eh = load 8 (eh + 32)"

definition e_phentsize :: "u64 \<Rightarrow> (u64, 'z hw_scheme) prog" where
  "e_phentsize eh = load 2 (eh + 54)"

definition e_phnum :: "u64 \<Rightarrow> (u64, 'z hw_scheme) prog" where
  "e_phnum eh = load 2 (eh + 56)"

definition p_type :: "u64 \<Rightarrow> (u64, 'z hw_scheme) prog" where
  "p_type ph = load 4 ph"

definition p_offset :: "u64 \<Rightarrow> (u64, 'z hw_scheme) prog" where
  "p_offset ph = load 8 (ph + 8)"

definition p_vaddr :: "u64 \<Rightarrow> (u64, 'z hw_scheme) prog" where
  "p_vaddr ph = load 8 (ph + 16)"

definition p_filesz :: "u64 \<Rightarrow> (u64, 'z hw_scheme) prog" where
  "p_filesz ph = load 8 (ph + 32)"

definition p_memsz :: "u64 \<Rightarrow> (u64, 'z hw_scheme) prog" where
  "p_memsz ph = load 8 (ph + 40)"

section \<open>Memory helpers\<close>

text \<open>
  A byte written through a pointer of the loader. The address comes from the image and may be
  one of the resident ones: the write then changes the code or a static variable of the kernel
  or of the shell behind the back of the C program, which is undefined behaviour.
\<close>

definition poke :: "u64 \<Rightarrow> u8 \<Rightarrow> (unit, 'z hw_scheme) prog" where
  "poke a v = branch (\<lambda>s. a < MAP_LIMIT \<and> resident s a) undef (store8 a v)"

text \<open>\<open>while (n--) *d++ = *s++;\<close>, the count as a natural number.\<close>

primrec km_memcpy :: "u64 \<Rightarrow> u64 \<Rightarrow> nat \<Rightarrow> (unit, 'z hw_scheme) prog" where
  "km_memcpy d s 0 = skip"
| "km_memcpy d s (Suc n) = bind (load8 s) (\<lambda>b. bind (poke d b) (\<lambda>_. km_memcpy (d + 1) (s + 1) n))"

primrec km_memset :: "u64 \<Rightarrow> u8 \<Rightarrow> nat \<Rightarrow> (unit, 'z hw_scheme) prog" where
  "km_memset d c 0 = skip"
| "km_memset d c (Suc n) = bind (poke d c) (\<lambda>_. km_memset (d + 1) c n)"

section \<open>The loader\<close>

text \<open>The checks of the file header, one early return each.\<close>

definition ehdr_ok :: "u64 \<Rightarrow> (bool, 'z hw_scheme) prog" where
  "ehdr_ok eh =
     bind (e_ident eh 0) (\<lambda>c. if c \<noteq> 0x7F then ret False else
     bind (e_ident eh 1) (\<lambda>c. if c \<noteq> 0x45 then ret False else
     bind (e_ident eh 2) (\<lambda>c. if c \<noteq> 0x4C then ret False else
     bind (e_ident eh 3) (\<lambda>c. if c \<noteq> 0x46 then ret False else
     bind (e_ident eh EI_CLASS) (\<lambda>c. if c \<noteq> ELF_CLASS then ret False else
     bind (e_type eh) (\<lambda>v. if v \<noteq> ET_EXEC then ret False else
     bind (e_machine eh) (\<lambda>v. if v \<noteq> ELF_MACHINE then ret False else
     bind (e_phoff eh) (\<lambda>v. if v = 0 then ret False else
     bind (e_phentsize eh) (\<lambda>v. if v < PHDR_SIZE then ret False else ret True)))))))))"

text \<open>
  One \<open>PT_LOAD\<close> segment: the checks, the copy and the zeroed tail; \<open>False\<close> is \<open>return 0\<close>.
\<close>

definition load_segment :: "u64 \<Rightarrow> u64 \<Rightarrow> u64 \<Rightarrow> (bool, 'z hw_scheme) prog" where
  "load_segment data sz ph =
     bind (p_vaddr ph) (\<lambda>vaddr. if vaddr < PROG_LOAD_MIN then ret False else
     bind (p_memsz ph) (\<lambda>memsz. if memsz > PROG_LOAD_MAX - vaddr then ret False else
     bind (p_filesz ph) (\<lambda>filesz. if filesz > sz then ret False else
     bind (p_offset ph) (\<lambda>offset. if offset > sz - filesz then ret False else
     bind (km_memcpy vaddr (data + offset) (unat filesz)) (\<lambda>_.
     bind (p_memsz ph) (\<lambda>memsz. bind (p_filesz ph) (\<lambda>filesz.
     bind (if memsz > filesz
       then bind (p_vaddr ph) (\<lambda>vaddr. km_memset (vaddr + filesz) 0 (unat (memsz - filesz)))
       else skip) (\<lambda>_. ret True))))))))"

partial_function (option) load_segments ::
  "u64 \<Rightarrow> u64 \<Rightarrow> u16 \<Rightarrow> bool \<Rightarrow> (u64, 'z hw_scheme) prog" where
  "load_segments data sz i loaded s = bind (e_phnum data) (\<lambda>phnum.
     if ucast i < phnum then
       bind (e_phoff data) (\<lambda>phoff. bind (e_phentsize data) (\<lambda>phentsize.
       let off = phoff + ucast i * phentsize in
       if off + PHDR_SIZE > sz then ret 0
       else bind (p_type (data + off)) (\<lambda>ty.
         if ty \<noteq> PT_LOAD then load_segments data sz (i + 1) loaded
         else bind (load_segment data sz (data + off)) (\<lambda>ok.
           if ok then load_segments data sz (i + 1) True else ret 0))))
     else if loaded then e_entry data else ret 0) s"

definition elf_load :: "u64 \<Rightarrow> u64 \<Rightarrow> (u64, 'z hw_scheme) prog" where
  "elf_load data sz = (if sz < EHDR_SIZE then ret 0
     else bind (ehdr_ok data) (\<lambda>ok. if ok then load_segments data sz 0 False else ret 0))"

section \<open>Copies\<close>

text \<open>Address ranges, and the effect of a copy and of a fill on the memory.\<close>

definition span :: "u64 \<Rightarrow> nat \<Rightarrow> nat set" where
  "span a n = {unat a..<unat a + n}"

definition copied :: "memory \<Rightarrow> u64 \<Rightarrow> memory \<Rightarrow> u64 \<Rightarrow> nat \<Rightarrow> memory" where
  "copied from src m dst n = (\<lambda>a. if unat a \<in> span dst n then from (src + (a - dst)) else m a)"

definition filled :: "memory \<Rightarrow> u64 \<Rightarrow> u8 \<Rightarrow> nat \<Rightarrow> memory" where
  "filled m dst c n = (\<lambda>a. if unat a \<in> span dst n then c else m a)"

lemma mappedD: "mapped a n \<Longrightarrow> unat a + n \<le> 0x8000000"
  by (simp add: mapped_def MAP_LIMIT_def)

lemma mapped_Suc:
  assumes "mapped a (Suc n)"
  shows "a < MAP_LIMIT" and "unat (a + 1) = Suc (unat a)" and "mapped (a + 1) n"
  using mappedD [OF assms] by (simp_all add: mapped_def MAP_LIMIT_def word_less_nat_alt unat_word_ariths)

lemma span_Suc: "mapped a (Suc n) \<Longrightarrow> span a (Suc n) = insert (unat a) (span (a + 1) n)"
  by (auto simp: span_def mapped_Suc(2))

lemma not_in_span_Suc: "mapped a (Suc n) \<Longrightarrow> unat a \<notin> span (a + 1) n"
  by (auto simp: span_def mapped_Suc(2))

text \<open>\<open>clear_of K a n\<close>: none of the \<open>n\<close> addresses from \<open>a\<close> on is in \<open>K\<close>.\<close>

definition clear_of :: "(u64 \<Rightarrow> bool) \<Rightarrow> u64 \<Rightarrow> nat \<Rightarrow> bool" where
  "clear_of K a n \<longleftrightarrow> (\<forall>x. unat x \<in> span a n \<longrightarrow> \<not> K x)"

lemma clear_of_Suc:
  assumes "mapped a (Suc n)" and "clear_of K a (Suc n)"
  shows "\<not> K a" and "clear_of K (a + 1) n"
  using assms(2) by (auto simp: clear_of_def span_Suc [OF assms(1)])

lemma clear_of_subset: "clear_of K b k \<Longrightarrow> span a n \<subseteq> span b k \<Longrightarrow> clear_of K a n"
  by (auto simp: clear_of_def)

lemma poke_run: "a < MAP_LIMIT \<Longrightarrow> \<not> resident s a \<Longrightarrow> poke a v s = Some (Ok () (s\<lparr>mem := (mem s)(a := v)\<rparr>))"
  by (simp add: poke_def branch_run store8_run)

lemma km_memset_run:
  assumes "mapped d n" and "clear_of (resident s) d n"
  shows "km_memset d c n s = Some (Ok () (s\<lparr>mem := filled (mem s) d c n\<rparr>))"
  using assms
proof (induction n arbitrary: d s)
  case 0
  then show ?case by (simp add: skip_run filled_def span_def)
next
  case (Suc n)
  note d = mapped_Suc [OF Suc.prems(1)] and K = clear_of_Suc [OF Suc.prems]
  have "filled ((mem s)(d := c)) (d + 1) c n = filled (mem s) d c (Suc n)"
    by (auto simp: filled_def span_Suc [OF Suc.prems(1)] fun_eq_iff word_unat_eq_iff)
  with d K Suc.IH [of "d + 1" "s\<lparr>mem := (mem s)(d := c)\<rparr>"] show ?case by (simp add: bind_run poke_run del: fun_upd_apply)
qed

lemma km_memcpy_run:
  assumes "mapped d n" and "mapped a n" and "span d n \<inter> span a n = {}" and "clear_of (resident s) d n"
  shows "km_memcpy d a n s = Some (Ok () (s\<lparr>mem := copied (mem s) a (mem s) d n\<rparr>))"
  using assms
proof (induction n arbitrary: d a s)
  case 0
  then show ?case by (simp add: skip_run copied_def span_def)
next
  case (Suc n)
  note d = mapped_Suc [OF Suc.prems(1)] and a = mapped_Suc [OF Suc.prems(2)] and K = clear_of_Suc [OF Suc.prems(1,4)]
  let ?m = "(mem s)(d := mem s a)"
  have "span (d + 1) n \<inter> span (a + 1) n = {}"
    using Suc.prems(3) span_Suc [OF Suc.prems(1)] span_Suc [OF Suc.prems(2)] by auto
  from Suc.IH [OF d(3) a(3) this, of "s\<lparr>mem := ?m\<rparr>"] K(2)
  have run: "km_memcpy d a (Suc n) s = Some (Ok () (s\<lparr>mem := copied ?m (a + 1) ?m (d + 1) n\<rparr>))"
    using d(1) a(1) K(1) by (simp add: bind_run poke_run load8_run del: fun_upd_apply)
  have "copied ?m (a + 1) ?m (d + 1) n = copied (mem s) a (mem s) d (Suc n)"
  proof
    fix x
    show "copied ?m (a + 1) ?m (d + 1) n x = copied (mem s) a (mem s) d (Suc n) x"
    proof (cases "unat x \<in> span (d + 1) n")
      case True
      define k where "k = unat x - unat d"
      have "d \<le> x" using True d(2) by (auto simp: span_def word_le_nat_alt)
      then have "unat (x - d) = k" by (simp add: k_def unat_sub_le)
      then have k: "0 < k" "k < Suc n" "x - d = of_nat k"
        using True d(2) by (auto simp: span_def k_def)
      have "unat (a + of_nat k) = unat a + k"
        using mappedD [OF Suc.prems(2)] k by (simp add: unat_word_ariths unat_of_nat)
      then have "unat (a + (x - d)) \<in> span a (Suc n)" using k by (simp add: span_def)
      moreover have "unat d \<in> span d (Suc n)" by (simp add: span_def)
      ultimately have "a + (x - d) \<noteq> d" using Suc.prems(3) by (metis disjoint_iff)
      moreover have "a + 1 + (x - (d + 1)) = a + (x - d)" by simp
      ultimately show ?thesis using True by (simp add: copied_def span_Suc [OF Suc.prems(1)])
    next
      case False
      moreover have "unat x = unat d \<longleftrightarrow> x = d" by (simp add: word_unat_eq_iff)
      ultimately show ?thesis by (auto simp: copied_def span_Suc [OF Suc.prems(1)])
    qed
  qed
  with run show ?case by simp
qed

section \<open>What is loaded\<close>

text \<open>
  The same header fields, as functions of a memory. \<open>phdr\<close> is the address of a program
  header, \<open>load_phdrs\<close> the \<open>PT_LOAD\<close> ones in order.
\<close>

definition phnum_of :: "memory \<Rightarrow> u64 \<Rightarrow> nat" where
  "phnum_of m data = unat (read_le m (data + 56) 2)"

definition phdr_off :: "memory \<Rightarrow> u64 \<Rightarrow> nat \<Rightarrow> nat" where
  "phdr_off m data i = unat (read_le m (data + 32) 8) + i * unat (read_le m (data + 54) 2)"

definition phdr :: "memory \<Rightarrow> u64 \<Rightarrow> nat \<Rightarrow> u64" where
  "phdr m data i = data + of_nat (phdr_off m data i)"

definition load_phdrs :: "memory \<Rightarrow> u64 \<Rightarrow> u64 list" where
  "load_phdrs m data = filter (\<lambda>ph. read_le m ph 4 = PT_LOAD) (map (phdr m data) [0..<phnum_of m data])"

definition vaddr_of :: "memory \<Rightarrow> u64 \<Rightarrow> u64" where
  "vaddr_of m ph = read_le m (ph + 16) 8"

definition offset_of :: "memory \<Rightarrow> u64 \<Rightarrow> u64" where
  "offset_of m ph = read_le m (ph + 8) 8"

definition filesz_of :: "memory \<Rightarrow> u64 \<Rightarrow> u64" where
  "filesz_of m ph = read_le m (ph + 32) 8"

definition memsz_of :: "memory \<Rightarrow> u64 \<Rightarrow> u64" where
  "memsz_of m ph = read_le m (ph + 40) 8"

definition entry_of :: "memory \<Rightarrow> u64 \<Rightarrow> u64" where
  "entry_of m data = read_le m (data + 24) 8"

text \<open>A file header that passes the checks, with the program header table inside the image.\<close>

definition header_ok :: "memory \<Rightarrow> u64 \<Rightarrow> nat \<Rightarrow> bool" where
  "header_ok m data sz \<longleftrightarrow> 64 \<le> sz \<and> mapped data sz
     \<and> m data = 0x7F \<and> m (data + 1) = 0x45 \<and> m (data + 2) = 0x4C \<and> m (data + 3) = 0x46
     \<and> m (data + 4) = ELF_CLASS \<and> read_le m (data + 16) 2 = ET_EXEC
     \<and> read_le m (data + 18) 2 = ELF_MACHINE \<and> read_le m (data + 32) 8 \<noteq> 0
     \<and> 56 \<le> unat (read_le m (data + 54) 2)
     \<and> phdr_off m data (phnum_of m data) \<le> sz"

text \<open>
  A segment of the load window, with its file part inside the image and no larger than its
  memory part, away from the image itself and from the resident addresses \<open>K\<close>.
\<close>

definition segment_ok :: "(u64 \<Rightarrow> bool) \<Rightarrow> memory \<Rightarrow> u64 \<Rightarrow> nat \<Rightarrow> u64 \<Rightarrow> bool" where
  "segment_ok K m data sz ph \<longleftrightarrow> unat PROG_LOAD_MIN \<le> unat (vaddr_of m ph)
     \<and> unat (vaddr_of m ph) + unat (memsz_of m ph) \<le> unat PROG_LOAD_MAX
     \<and> unat (filesz_of m ph) \<le> unat (memsz_of m ph)
     \<and> unat (offset_of m ph) + unat (filesz_of m ph) \<le> sz
     \<and> span (vaddr_of m ph) (unat (memsz_of m ph)) \<inter> span data sz = {}
     \<and> clear_of K (vaddr_of m ph) (unat (memsz_of m ph))"

text \<open>The memory with a segment in it: its bytes of the file, then zeros.\<close>

definition with_segment :: "memory \<Rightarrow> u64 \<Rightarrow> u64 \<Rightarrow> memory \<Rightarrow> memory" where
  "with_segment file data ph m = (\<lambda>a.
     if unat a \<in> span (vaddr_of file ph) (unat (filesz_of file ph))
     then file (data + offset_of file ph + (a - vaddr_of file ph))
     else if unat a \<in> span (vaddr_of file ph) (unat (memsz_of file ph)) then 0 else m a)"

definition agree :: "memory \<Rightarrow> memory \<Rightarrow> u64 \<Rightarrow> nat \<Rightarrow> bool" where
  "agree m m' data sz \<longleftrightarrow> (\<forall>a. unat a \<in> span data sz \<longrightarrow> m a = m' a)"

lemma unat_in_image:
  assumes "mapped data sz" and "i \<le> sz"
  shows "unat (data + of_nat i) = unat data + i"
  using mappedD [OF assms(1)] assms(2) by (simp add: unat_word_ariths unat_of_nat)

lemma load_image:
  assumes map: "mapped data sz" and k: "k + n \<le> sz" and ag: "agree m (mem s) data sz"
  shows "load n (data + of_nat k) s = Some (Ok (read_le m (data + of_nat k) n) s)"
proof -
  have "mapped (data + of_nat k) n"
    using map k by (intro mapped_offset [where n = sz]) simp_all
  moreover have "read_le (mem s) (data + of_nat k) n = read_le m (data + of_nat k) n"
  proof (rule read_le_cong)
    fix i assume "i < n"
    with k unat_in_image [OF map, of "k + i"] have "unat (data + of_nat k + of_nat i) \<in> span data sz"
      by (simp add: span_def add.assoc)
    with ag show "mem s (data + of_nat k + of_nat i) = m (data + of_nat k + of_nat i)"
      by (simp add: agree_def)
  qed
  ultimately show ?thesis by (simp add: load_run)
qed

lemma read_le_bits: "bit (read_le m a n) j \<Longrightarrow> j < 8 * n"
proof (induction n arbitrary: a j)
  case (Suc n)
  have b: "bit (m a) j \<Longrightarrow> j < 8" using bit_imp_le_length [of "m a" j] by simp
  from Suc.prems consider "bit (m a) j" | "8 \<le> j" "bit (read_le m (a + 1) n) (j - 8)"
    by (auto simp: bit_or_iff bit_push_bit_iff bit_ucast_iff)
  then show ?case
  proof cases
    case 1
    with b show ?thesis by simp
  next
    case 2
    from Suc.IH [OF 2(2)] 2(1) show ?thesis by arith
  qed
qed simp

lemma read_le_bound: "unat (read_le m a n) < 2 ^ (8 * n)"
proof -
  have "read_le m a n = take_bit (8 * n) (read_le m a n)"
    by (rule bit_word_eqI) (auto simp: bit_take_bit_iff dest: read_le_bits)
  then have "unat (read_le m a n) = take_bit (8 * n) (unat (read_le m a n))"
    by (metis unsigned_take_bit_eq)
  then show ?thesis by (metis take_bit_nat_less_exp)
qed

section \<open>A segment is loaded\<close>

text \<open>
  \<open>file\<close> is the memory the loader started with; the current memory still agrees with it on
  the image.
\<close>

lemma phdr_fields:
  assumes map: "mapped data sz" and k: "k + 56 \<le> sz" and ag: "agree m (mem s) data sz"
    and ph: "ph = data + of_nat k"
  shows "p_type ph s = Some (Ok (read_le m ph 4) s)"
    and "p_vaddr ph s = Some (Ok (vaddr_of m ph) s)"
    and "p_offset ph s = Some (Ok (offset_of m ph) s)"
    and "p_filesz ph s = Some (Ok (filesz_of m ph) s)"
    and "p_memsz ph s = Some (Ok (memsz_of m ph) s)"
proof -
  have l: "load n (ph + of_nat j) s = Some (Ok (read_le m (ph + of_nat j) n) s)" if "j + n \<le> 56" for j n
    using load_image [OF map _ ag, of "k + j" n] k that by (simp add: ph add.assoc)
  show "p_type ph s = Some (Ok (read_le m ph 4) s)"
    using l [of 0 4] by (simp add: p_type_def)
  show "p_vaddr ph s = Some (Ok (vaddr_of m ph) s)"
    using l [of 16 8] by (simp add: p_vaddr_def vaddr_of_def)
  show "p_offset ph s = Some (Ok (offset_of m ph) s)"
    using l [of 8 8] by (simp add: p_offset_def offset_of_def)
  show "p_filesz ph s = Some (Ok (filesz_of m ph) s)"
    using l [of 32 8] by (simp add: p_filesz_def filesz_of_def)
  show "p_memsz ph s = Some (Ok (memsz_of m ph) s)"
    using l [of 40 8] by (simp add: p_memsz_def memsz_of_def)
qed

lemma agree_refl [simp]: "agree m m data sz"
  by (simp add: agree_def)

lemma agree_with_segment:
  assumes "agree m m' data sz" and "segment_ok K m data sz ph"
  shows "agree m (with_segment m data ph m') data sz"
proof -
  have "span (vaddr_of m ph) (unat (filesz_of m ph)) \<subseteq> span (vaddr_of m ph) (unat (memsz_of m ph))"
    using assms(2) by (auto simp: segment_ok_def span_def)
  with assms show ?thesis by (auto simp: agree_def with_segment_def segment_ok_def)
qed

text \<open>What a good segment means for the checks, for the part in the file and for the window.\<close>

lemma segment_okD:
  assumes "segment_ok K m data sz ph"
  shows "unat PROG_LOAD_MIN \<le> unat (vaddr_of m ph)"
    and "unat (vaddr_of m ph) + unat (memsz_of m ph) \<le> 0x8000000"
    and "unat (filesz_of m ph) \<le> unat (memsz_of m ph)"
    and "unat (offset_of m ph) + unat (filesz_of m ph) \<le> sz"
    and "span (vaddr_of m ph) (unat (memsz_of m ph)) \<inter> span data sz = {}"
    and "clear_of K (vaddr_of m ph) (unat (memsz_of m ph))"
  using assms by (simp_all add: segment_ok_def PROG_LOAD_MAX_def)

lemma segment_checks:
  assumes "segment_ok K m data (unat sz) ph"
  shows "\<not> vaddr_of m ph < PROG_LOAD_MIN" and "\<not> PROG_LOAD_MAX - vaddr_of m ph < memsz_of m ph"
    and "\<not> sz < filesz_of m ph" and "\<not> sz - filesz_of m ph < offset_of m ph"
proof -
  note seg = segment_okD [OF assms]
  show "\<not> vaddr_of m ph < PROG_LOAD_MIN" using seg by (simp add: word_less_nat_alt)
  have "vaddr_of m ph \<le> PROG_LOAD_MAX" using seg(2) by (simp add: word_le_nat_alt PROG_LOAD_MAX_def)
  then have "unat (PROG_LOAD_MAX - vaddr_of m ph) = unat PROG_LOAD_MAX - unat (vaddr_of m ph)" by (rule unat_sub_le)
  then show "\<not> PROG_LOAD_MAX - vaddr_of m ph < memsz_of m ph" using seg(2) by (simp add: word_less_nat_alt PROG_LOAD_MAX_def)
  have "filesz_of m ph \<le> sz" using seg by (simp add: word_le_nat_alt)
  then show "\<not> sz < filesz_of m ph" and "\<not> sz - filesz_of m ph < offset_of m ph"
    using seg(4) by (simp_all add: unat_sub_le word_less_nat_alt)
qed

lemma segment_window:
  assumes "segment_ok K m data sz ph"
  shows "unat (vaddr_of m ph + filesz_of m ph) = unat (vaddr_of m ph) + unat (filesz_of m ph)"
    and "unat (memsz_of m ph - filesz_of m ph) = unat (memsz_of m ph) - unat (filesz_of m ph)"
    and "mapped (vaddr_of m ph) (unat (filesz_of m ph))"
    and "mapped (vaddr_of m ph + filesz_of m ph) (unat (memsz_of m ph - filesz_of m ph))"
    and "clear_of K (vaddr_of m ph) (unat (filesz_of m ph))"
    and "clear_of K (vaddr_of m ph + filesz_of m ph) (unat (memsz_of m ph - filesz_of m ph))"
proof -
  note seg = segment_okD [OF assms]
  show vf: "unat (vaddr_of m ph + filesz_of m ph) = unat (vaddr_of m ph) + unat (filesz_of m ph)"
    using seg(2,3) by (simp add: unat_word_ariths)
  show nf: "unat (memsz_of m ph - filesz_of m ph) = unat (memsz_of m ph) - unat (filesz_of m ph)"
    using seg(3) by (simp add: unat_sub_le word_le_nat_alt)
  show "mapped (vaddr_of m ph) (unat (filesz_of m ph))"
    "mapped (vaddr_of m ph + filesz_of m ph) (unat (memsz_of m ph - filesz_of m ph))"
    using seg(2,3) by (simp_all add: mapped_def MAP_LIMIT_def vf nf)
  show "clear_of K (vaddr_of m ph) (unat (filesz_of m ph))"
    "clear_of K (vaddr_of m ph + filesz_of m ph) (unat (memsz_of m ph - filesz_of m ph))"
    using seg(3) by (auto intro: clear_of_subset [OF seg(6)] simp: span_def vf nf)
qed

lemma segment_source:
  assumes map: "mapped data sz" and ok: "segment_ok K m data sz ph"
  shows "unat (data + offset_of m ph) = unat data + unat (offset_of m ph)"
    and "mapped (data + offset_of m ph) (unat (filesz_of m ph))"
    and "span (vaddr_of m ph) (unat (filesz_of m ph)) \<inter> span data sz = {}"
    and "span (vaddr_of m ph) (unat (filesz_of m ph)) \<inter> span (data + offset_of m ph) (unat (filesz_of m ph)) = {}"
proof -
  note seg = segment_okD [OF ok]
  show so: "unat (data + offset_of m ph) = unat data + unat (offset_of m ph)"
    using unat_in_image [OF map, of "unat (offset_of m ph)"] seg(4) by simp
  show "mapped (data + offset_of m ph) (unat (filesz_of m ph))"
    using seg(4) mappedD [OF map] by (simp add: mapped_def MAP_LIMIT_def so)
  show disj: "span (vaddr_of m ph) (unat (filesz_of m ph)) \<inter> span data sz = {}"
    using seg(3,5) by (auto simp: span_def)
  have "span (data + offset_of m ph) (unat (filesz_of m ph)) \<subseteq> span data sz" using seg(4) by (auto simp: span_def so)
  with disj show "span (vaddr_of m ph) (unat (filesz_of m ph)) \<inter> span (data + offset_of m ph) (unat (filesz_of m ph)) = {}" by blast
qed

lemma segment_byte:
  assumes map: "mapped data sz" and ok: "segment_ok K m data sz ph" and ag: "agree m m' data sz"
    and a: "unat a \<in> span (vaddr_of m ph) (unat (filesz_of m ph))"
  shows "m' (data + offset_of m ph + (a - vaddr_of m ph)) = m (data + offset_of m ph + (a - vaddr_of m ph))"
proof -
  let ?v = "vaddr_of m ph" and ?f = "filesz_of m ph" and ?o = "offset_of m ph"
  note seg = segment_okD [OF ok]
  have "?v \<le> a" using a by (simp add: span_def word_le_nat_alt)
  then have "unat (a - ?v) = unat a - unat ?v" by (rule unat_sub_le)
  then have i: "unat (a - ?v) < unat ?f" using a by (simp add: span_def) linarith
  have "data + ?o + (a - ?v) = data + of_nat (unat ?o + unat (a - ?v))" by (simp add: add.assoc)
  then have "unat (data + ?o + (a - ?v)) = unat data + (unat ?o + unat (a - ?v))"
    using unat_in_image [OF map, of "unat ?o + unat (a - ?v)"] i seg(4) by (simp add: add.assoc)
  with i seg(4) ag show ?thesis by (simp add: agree_def span_def)
qed

text \<open>The copy and the zeroed tail together are the segment.\<close>

lemma segment_memory:
  assumes map: "mapped data sz" and ok: "segment_ok K m data sz ph" and ag: "agree m m' data sz"
    and c: "c = copied m' (data + offset_of m ph) m' (vaddr_of m ph) (unat (filesz_of m ph))"
  shows "(if memsz_of m ph > filesz_of m ph
    then filled c (vaddr_of m ph + filesz_of m ph) 0 (unat (memsz_of m ph - filesz_of m ph)) else c) = with_segment m data ph m'"
proof
  fix a
  show "(if memsz_of m ph > filesz_of m ph
    then filled c (vaddr_of m ph + filesz_of m ph) 0 (unat (memsz_of m ph - filesz_of m ph)) else c) a = with_segment m data ph m' a"
    using segment_byte [OF map ok ag, of a] segment_okD(3) [OF ok]
    by (auto simp: c filled_def copied_def with_segment_def span_def segment_window(1,2) [OF ok] word_less_nat_alt)
qed

lemma load_segment_run:
  assumes map: "mapped data (unat sz)" and k: "k + 56 \<le> unat sz" and ag: "agree m (mem s) data (unat sz)"
    and ph: "ph = data + of_nat k" and ok: "segment_ok (resident s) m data (unat sz) ph"
  shows "load_segment data sz ph s = Some (Ok True (s\<lparr>mem := with_segment m data ph (mem s)\<rparr>))"
proof -
  let ?v = "vaddr_of m ph" and ?f = "filesz_of m ph" and ?n = "memsz_of m ph" and ?o = "offset_of m ph"
  define c where "c = copied (mem s) (data + ?o) (mem s) ?v (unat ?f)"
  have cp: "km_memcpy ?v (data + ?o) (unat ?f) s = Some (Ok () (s\<lparr>mem := c\<rparr>))"
    unfolding c_def by (rule km_memcpy_run [OF segment_window(3) [OF ok] segment_source(2,4) [OF map ok] segment_window(5) [OF ok]])
  have "agree m c data (unat sz)"
    using ag segment_source(3) [OF map ok] by (auto simp: agree_def copied_def c_def)
  note fields = phdr_fields [OF map k ag ph]
    phdr_fields [where s = "s\<lparr>mem := c\<rparr>", OF map k _ ph, simplified, OF this]
  have "km_memset (?v + ?f) 0 (unat (?n - ?f)) (s\<lparr>mem := c\<rparr>)
      = Some (Ok () (s\<lparr>mem := filled c (?v + ?f) 0 (unat (?n - ?f))\<rparr>))"
    using segment_window(4,6) [OF ok] by (simp add: km_memset_run)
  then show ?thesis
    unfolding segment_memory [OF map ok ag c_def, symmetric] using segment_checks [OF ok]
    by (simp add: load_segment_def bind_run fields cp ret_run skip_run)
qed

section \<open>An image is loaded\<close>

lemma ehdr_fields:
  assumes map: "mapped data sz" and sz: "64 \<le> sz" and ag: "agree m (mem s) data sz"
  shows "i < 64 \<Longrightarrow> load8 (data + of_nat i) s = Some (Ok (m (data + of_nat i)) s)"
    and "e_type data s = Some (Ok (read_le m (data + 16) 2) s)"
    and "e_machine data s = Some (Ok (read_le m (data + 18) 2) s)"
    and "e_entry data s = Some (Ok (entry_of m data) s)"
    and "e_phoff data s = Some (Ok (read_le m (data + 32) 8) s)"
    and "e_phentsize data s = Some (Ok (read_le m (data + 54) 2) s)"
    and "e_phnum data s = Some (Ok (read_le m (data + 56) 2) s)"
proof -
  have l: "load n (data + of_nat j) s = Some (Ok (read_le m (data + of_nat j) n) s)" if "j + n \<le> 64" for j n
    using load_image [OF map _ ag, of j n] sz that by simp
  show "load8 (data + of_nat i) s = Some (Ok (m (data + of_nat i)) s)" if "i < 64"
  proof -
    have "unat (data + of_nat i) = unat data + i" using unat_in_image [OF map, of i] sz that by simp
    with mappedD [OF map] sz that ag show ?thesis
      by (simp add: load8_def word_less_nat_alt MAP_LIMIT_def agree_def span_def)
  qed
  show "e_type data s = Some (Ok (read_le m (data + 16) 2) s)"
    using l [of 16 2] by (simp add: e_type_def)
  show "e_machine data s = Some (Ok (read_le m (data + 18) 2) s)"
    using l [of 18 2] by (simp add: e_machine_def)
  show "e_entry data s = Some (Ok (entry_of m data) s)"
    using l [of 24 8] by (simp add: e_entry_def entry_of_def)
  show "e_phoff data s = Some (Ok (read_le m (data + 32) 8) s)"
    using l [of 32 8] by (simp add: e_phoff_def)
  show "e_phentsize data s = Some (Ok (read_le m (data + 54) 2) s)"
    using l [of 54 2] by (simp add: e_phentsize_def)
  show "e_phnum data s = Some (Ok (read_le m (data + 56) 2) s)"
    using l [of 56 2] by (simp add: e_phnum_def)
qed

lemma ehdr_ok_run:
  assumes ok: "header_ok m data sz" and ag: "agree m (mem s) data sz"
  shows "ehdr_ok data s = Some (Ok True s)"
proof -
  have map: "mapped data sz" and sz: "64 \<le> sz" using ok by (simp_all add: header_ok_def)
  note f = ehdr_fields [OF map sz ag]
  have "\<not> read_le m (data + 54) 2 < PHDR_SIZE"
    using ok by (simp add: header_ok_def PHDR_SIZE_def word_less_nat_alt)
  then show ?thesis
    using ok f(1) [of 0] f(1) [of 1] f(1) [of 2] f(1) [of 3] f(1) [of 4]
    by (simp add: ehdr_ok_def e_ident_def EI_CLASS_def bind_run f ret_run header_ok_def)
qed

lemma phdr_off_less:
  assumes ok: "header_ok m data sz" and i: "i < phnum_of m data"
  shows "phdr_off m data i + 56 \<le> sz"
    and "unat (read_le m (data + 32) 8 + of_nat i * read_le m (data + 54) 2) = phdr_off m data i"
proof -
  let ?e = "unat (read_le m (data + 54) 2)" and ?p = "unat (read_le m (data + 32) 8)"
  have "Suc i * ?e \<le> phnum_of m data * ?e" using i by (intro mult_le_mono1) simp
  then have "phdr_off m data i + ?e \<le> phdr_off m data (phnum_of m data)" by (simp add: phdr_off_def)
  with ok show le: "phdr_off m data i + 56 \<le> sz" by (simp add: header_ok_def)
  have map: "mapped data sz" using ok by (simp add: header_ok_def)
  have n: "i < 2 ^ 16" using i read_le_bound [of m "data + 56" 2] by (simp add: phnum_of_def)
  have "i * ?e \<le> sz" "?p + i * ?e \<le> sz" using le by (simp_all add: phdr_off_def)
  then show "unat (read_le m (data + 32) 8 + of_nat i * read_le m (data + 54) 2) = phdr_off m data i"
    using mappedD [OF map] n by (simp add: unat_word_ariths unat_of_nat phdr_off_def)
qed

text \<open>The \<open>PT_LOAD\<close> headers from the header \<open>i\<close> on.\<close>

definition load_phdrs_from :: "memory \<Rightarrow> u64 \<Rightarrow> nat \<Rightarrow> u64 list" where
  "load_phdrs_from m data i = filter (\<lambda>ph. read_le m ph 4 = PT_LOAD) (map (phdr m data) [i..<phnum_of m data])"

lemma load_phdrs_from_step:
  "i < phnum_of m data \<Longrightarrow> load_phdrs_from m data i
    = (if read_le m (phdr m data i) 4 = PT_LOAD then phdr m data i # load_phdrs_from m data (Suc i)
       else load_phdrs_from m data (Suc i))"
  by (simp add: load_phdrs_from_def upt_conv_Cons)

text \<open>One round of the loop, as long as the image is intact.\<close>

lemma load_segments_step:
  assumes ok: "header_ok m data (unat sz)" and ag: "agree m (mem s) data (unat sz)"
    and lt: "unat i < phnum_of m data"
  shows "load_segments data sz i loaded s =
      (if read_le m (phdr m data (unat i)) 4 \<noteq> PT_LOAD then load_segments data sz (i + 1) loaded s
       else bind (load_segment data sz (phdr m data (unat i)))
         (\<lambda>ok. if ok then load_segments data sz (i + 1) True else ret 0) s)"
    and "unat (i + 1) = Suc (unat i)"
proof -
  have map: "mapped data (unat sz)" and sz: "64 \<le> unat sz" using ok by (simp_all add: header_ok_def)
  note f = ehdr_fields [OF map sz ag]
  have cond: "ucast i < read_le m (data + 56) 2"
    using lt by (simp add: word_less_nat_alt phnum_of_def unat_ucast_up)
  have "unat i < 2 ^ 16 - 1"
    using lt read_le_bound [of m "data + 56" 2] by (simp add: phnum_of_def)
  then show "unat (i + 1) = Suc (unat i)" by (simp add: unat_word_ariths)
  let ?off = "read_le m (data + 32) 8 + ucast i * read_le m (data + 54) 2" and ?ph = "phdr m data (unat i)"
  have "ucast i = (of_nat (unat i) :: u64)" by simp
  with phdr_off_less(2) [OF ok lt] have off: "unat ?off = phdr_off m data (unat i)" by (simp only:)
  then have ph: "data + ?off = ?ph" unfolding phdr_def off [symmetric] by simp
  note le = phdr_off_less(1) [OF ok lt]
  have "unat (?off + PHDR_SIZE) = phdr_off m data (unat i) + 56"
    using le mappedD [OF map] off by (simp add: PHDR_SIZE_def unat_word_ariths)
  then have in_file: "\<not> sz < ?off + PHDR_SIZE" using le by (simp add: word_less_nat_alt)
  show "load_segments data sz i loaded s =
      (if read_le m ?ph 4 \<noteq> PT_LOAD then load_segments data sz (i + 1) loaded s
       else bind (load_segment data sz ?ph) (\<lambda>ok. if ok then load_segments data sz (i + 1) True else ret 0) s)"
    using cond in_file
    by (subst load_segments.simps) (simp add: bind_run f Let_def ph phdr_fields(1) [OF map le ag phdr_def])
qed

lemma load_segments_run:
  assumes ok: "header_ok m data (unat sz)" and ag: "agree m (mem s) data (unat sz)"
    and seg: "\<forall>ph\<in>set (load_phdrs m data). segment_ok K m data (unat sz) ph" and K: "resident s = K"
    and i: "unat i \<le> phnum_of m data"
  shows "load_segments data sz i loaded s =
    Some (Ok (if loaded \<or> load_phdrs_from m data (unat i) \<noteq> [] then entry_of m data else 0)
      (s\<lparr>mem := fold (with_segment m data) (load_phdrs_from m data (unat i)) (mem s)\<rparr>))"
  using ag i K
proof (induction "phnum_of m data - unat i" arbitrary: i loaded s)
  case 0
  have map: "mapped data (unat sz)" and sz: "64 \<le> unat sz" using ok by (simp_all add: header_ok_def)
  note f = ehdr_fields [OF map sz 0(2)]
  from 0 have i: "unat i = phnum_of m data" by simp
  then have "\<not> ucast i < read_le m (data + 56) 2"
    by (simp add: word_less_nat_alt phnum_of_def unat_ucast_up)
  moreover have "load_phdrs_from m data (unat i) = []" by (simp add: load_phdrs_from_def i)
  ultimately show ?case
    by (subst load_segments.simps) (simp add: bind_run f ret_run)
next
  case (Suc x)
  have map: "mapped data (unat sz)" using ok by (simp add: header_ok_def)
  have lt: "unat i < phnum_of m data" using Suc.hyps(2) by simp
  note step = load_segments_step [OF ok Suc.prems(1) lt]
  have le1: "unat (i + 1) \<le> phnum_of m data" and x1: "x = phnum_of m data - unat (i + 1)"
    using lt step(2) Suc.hyps(2) by simp_all
  let ?ph = "phdr m data (unat i)"
  show ?case
  proof (cases "read_le m ?ph 4 = PT_LOAD")
    case False
    with lt step Suc.hyps(1) [OF x1 Suc.prems(1) le1 Suc.prems(3)] show ?thesis by (simp add: load_phdrs_from_step)
  next
    case True
    have "?ph \<in> set (load_phdrs m data)" using lt True by (simp add: load_phdrs_def)
    with seg have sok: "segment_ok K m data (unat sz) ?ph" by blast
    let ?s = "s\<lparr>mem := with_segment m data ?ph (mem s)\<rparr>"
    have run: "load_segment data sz ?ph s = Some (Ok True ?s)"
      by (rule load_segment_run [OF map phdr_off_less(1) [OF ok lt] Suc.prems(1) phdr_def sok [folded Suc.prems(3)]])
    have "agree m (mem ?s) data (unat sz)"
      using agree_with_segment [OF Suc.prems(1) sok] by simp
    then show ?thesis
      using True lt step run Suc.hyps(1) [OF x1 _ le1, of ?s True] Suc.prems(3) by (simp add: load_phdrs_from_step bind_run)
  qed
qed

text \<open>
  The loader on a well-formed image: it returns the entry point, and every segment is in
  memory, file part and zeroed tail, in the order of the headers.
\<close>

lemma elf_load_run:
  assumes ok: "header_ok (mem s) data (unat sz)"
    and seg: "\<forall>ph\<in>set (load_phdrs (mem s) data). segment_ok (resident s) (mem s) data (unat sz) ph"
  shows "elf_load data sz s = Some (Ok (if load_phdrs (mem s) data = [] then 0 else entry_of (mem s) data)
    (s\<lparr>mem := fold (with_segment (mem s) data) (load_phdrs (mem s) data) (mem s)\<rparr>))"
proof -
  have "\<not> sz < EHDR_SIZE" using ok by (simp add: header_ok_def EHDR_SIZE_def word_less_nat_alt)
  then show ?thesis
    using ehdr_ok_run [OF ok agree_refl] load_segments_run [OF ok agree_refl seg refl, of 0 False]
    by (auto simp: elf_load_def bind_run load_phdrs_from_def load_phdrs_def)
qed

text \<open>Bytes outside every segment are what they were, the image and low memory among them.\<close>

lemma fold_with_segment_outside:
  "\<forall>ph\<in>set phs. segment_ok K file data sz ph \<and> unat a \<notin> span (vaddr_of file ph) (unat (memsz_of file ph)) \<Longrightarrow>
    fold (with_segment file data) phs m a = m a"
proof (induction phs arbitrary: m)
  case (Cons ph phs)
  then have "with_segment file data ph m a = m a"
    by (auto simp: with_segment_def segment_ok_def span_def)
  with Cons show ?case by simp
qed simp

text \<open>A byte of the last segment that covers it.\<close>

lemma fold_with_segment_inside:
  assumes "\<forall>p\<in>set qs. segment_ok K file data sz p \<and> unat a \<notin> span (vaddr_of file p) (unat (memsz_of file p))"
    and "unat a \<in> span (vaddr_of file ph) (unat (memsz_of file ph))"
  shows "fold (with_segment file data) (ps @ ph # qs) m a =
    (if unat a \<in> span (vaddr_of file ph) (unat (filesz_of file ph))
     then file (data + offset_of file ph + (a - vaddr_of file ph)) else 0)"
  using fold_with_segment_outside [OF assms(1)] assms(2) by (simp add: with_segment_def)

section \<open>Images that are refused\<close>

definition header_bad :: "memory \<Rightarrow> u64 \<Rightarrow> bool" where
  "header_bad m data \<longleftrightarrow> [m data, m (data + 1), m (data + 2), m (data + 3), m (data + 4)] \<noteq> [0x7F, 0x45, 0x4C, 0x46, ELF_CLASS]
     \<or> read_le m (data + 16) 2 \<noteq> ET_EXEC \<or> read_le m (data + 18) 2 \<noteq> ELF_MACHINE
     \<or> read_le m (data + 32) 8 = 0 \<or> unat (read_le m (data + 54) 2) < 56"

text \<open>The four checks of a segment; the subtraction of the second wraps around.\<close>

definition segment_refused :: "memory \<Rightarrow> u64 \<Rightarrow> u64 \<Rightarrow> bool" where
  "segment_refused m sz ph \<longleftrightarrow> vaddr_of m ph < PROG_LOAD_MIN \<or> PROG_LOAD_MAX - vaddr_of m ph < memsz_of m ph
     \<or> sz < filesz_of m ph \<or> sz - filesz_of m ph < offset_of m ph"

lemma elf_load_bad_header:
  assumes map: "mapped data (unat sz)" and bad: "unat sz < 64 \<or> header_bad (mem s) data"
  shows "elf_load data sz s = Some (Ok 0 s)"
proof (cases "unat sz < 64")
  case True
  then show ?thesis by (simp add: elf_load_def EHDR_SIZE_def word_less_nat_alt ret_run)
next
  case False
  then have sz: "64 \<le> unat sz" by simp
  note f = ehdr_fields [where m = "mem s" and s = s, OF map sz agree_refl]
  have "ehdr_ok data s = Some (Ok False s)"
    using bad False f(1) [of 0] f(1) [of 1] f(1) [of 2] f(1) [of 3] f(1) [of 4]
    by (auto simp add: ehdr_ok_def e_ident_def EI_CLASS_def bind_run f ret_run header_bad_def PHDR_SIZE_def word_less_nat_alt)
  with sz show ?thesis by (simp add: elf_load_def bind_run ret_run EHDR_SIZE_def word_less_nat_alt)
qed

text \<open>
  At a segment that fails a check the loader gives up; the segments before it stay in memory.
\<close>

lemma load_segment_refused:
  assumes map: "mapped data (unat sz)" and k: "k + 56 \<le> unat sz" and ag: "agree m (mem s) data (unat sz)"
    and ph: "ph = data + of_nat k" and bad: "segment_refused m sz ph"
  shows "load_segment data sz ph s = Some (Ok False s)"
  using bad by (auto simp: load_segment_def bind_run phdr_fields [OF map k ag ph] ret_run segment_refused_def)

lemma load_segments_refused:
  assumes ok: "header_ok m data (unat sz)" and ag: "agree m (mem s) data (unat sz)"
    and phs: "load_phdrs_from m data (unat i) = ps @ ph # qs" and i: "unat i \<le> phnum_of m data"
    and seg: "\<forall>p\<in>set ps. segment_ok K m data (unat sz) p" and bad: "segment_refused m sz ph"
    and K: "resident s = K"
  shows "load_segments data sz i loaded s = Some (Ok 0 (s\<lparr>mem := fold (with_segment m data) ps (mem s)\<rparr>))"
  using ag phs i seg K
proof (induction "phnum_of m data - unat i" arbitrary: i loaded s ps)
  case 0
  then show ?case by (simp add: load_phdrs_from_def)
next
  case (Suc x)
  have map: "mapped data (unat sz)" using ok by (simp add: header_ok_def)
  have lt: "unat i < phnum_of m data" using Suc.hyps(2) by simp
  note step = load_segments_step [OF ok Suc.prems(1) lt] and le = phdr_off_less(1) [OF ok lt]
  have x1: "x = phnum_of m data - unat (i + 1)" and le1: "unat (i + 1) \<le> phnum_of m data"
    using lt step(2) Suc.hyps(2) by simp_all
  let ?ph = "phdr m data (unat i)"
  show ?case
  proof (cases "read_le m ?ph 4 = PT_LOAD")
    case False
    with lt step Suc.prems(2) Suc.hyps(1) [OF x1 Suc.prems(1) _ le1 Suc.prems(4,5)] show ?thesis
      by (simp add: load_phdrs_from_step)
  next
    case True
    with Suc.prems(2) lt have phs: "?ph # load_phdrs_from m data (unat (i + 1)) = ps @ ph # qs"
      by (simp add: load_phdrs_from_step step(2))
    show ?thesis
    proof (cases ps)
      case Nil
      with phs bad have "load_segment data sz ?ph s = Some (Ok False s)"
        by (intro load_segment_refused [OF map le Suc.prems(1) phdr_def]) simp
      with Nil True step(1) show ?thesis by (simp add: bind_run ret_run)
    next
      case (Cons p ps')
      with phs Suc.prems(4) have p: "p = ?ph" "load_phdrs_from m data (unat (i + 1)) = ps' @ ph # qs"
        "segment_ok K m data (unat sz) ?ph" "\<forall>p\<in>set ps'. segment_ok K m data (unat sz) p" by auto
      let ?s = "s\<lparr>mem := with_segment m data ?ph (mem s)\<rparr>"
      have "load_segment data sz ?ph s = Some (Ok True ?s)"
        by (rule load_segment_run [OF map le Suc.prems(1) phdr_def p(3) [folded Suc.prems(5)]])
      moreover have "agree m (mem ?s) data (unat sz)"
        using agree_with_segment [OF Suc.prems(1) p(3)] by simp
      ultimately show ?thesis
        using True Cons p(1) step(1) Suc.hyps(1) [OF x1 _ p(2) le1 p(4), of ?s True] Suc.prems(5) by (simp add: bind_run)
    qed
  qed
qed

lemma elf_load_refused:
  assumes ok: "header_ok (mem s) data (unat sz)" and phs: "load_phdrs (mem s) data = ps @ ph # qs"
    and seg: "\<forall>p\<in>set ps. segment_ok (resident s) (mem s) data (unat sz) p" and bad: "segment_refused (mem s) sz ph"
  shows "elf_load data sz s = Some (Ok 0 (s\<lparr>mem := fold (with_segment (mem s) data) ps (mem s)\<rparr>))"
proof -
  have "\<not> sz < EHDR_SIZE" using ok by (simp add: header_ok_def EHDR_SIZE_def word_less_nat_alt)
  moreover have "load_phdrs_from (mem s) data (unat (0 :: u16)) = ps @ ph # qs"
    using phs by (simp add: load_phdrs_from_def load_phdrs_def)
  ultimately show ?thesis
    using ehdr_ok_run [OF ok agree_refl] load_segments_refused [OF ok agree_refl _ _ seg bad refl, of 0 qs False]
    by (simp add: elf_load_def bind_run)
qed

section \<open>Any image\<close>

text \<open>Whatever the bytes are, even when a segment overwrites the headers, the loader stops.\<close>

lemma stops_poke [stops_intros]: "stops (poke a v)"
  unfolding poke_def by (intro stops_intros)

lemma stops_km_memcpy [stops_intros]: "stops (km_memcpy d s n)"
  by (induction n arbitrary: d s) (auto intro: stops_intros)

lemma stops_km_memset [stops_intros]: "stops (km_memset d c n)"
  by (induction n arbitrary: d) (auto intro: stops_intros)

lemmas field_defs = e_ident_def e_type_def e_machine_def e_entry_def e_phoff_def e_phentsize_def
  e_phnum_def p_type_def p_offset_def p_vaddr_def p_filesz_def p_memsz_def

lemma stops_fields [stops_intros]:
  "stops (e_phoff data)" "stops (e_phentsize data)" "stops (p_type data)" "stops (e_entry data)"
  "stops (e_phnum data)"
  unfolding field_defs by (intro stops_intros)+

lemma stops_load_segment [stops_intros]: "stops (load_segment data sz ph)"
  unfolding load_segment_def field_defs by (intro stops_intros)

lemma stops_ehdr_ok [stops_intros]: "stops (ehdr_ok eh)"
  unfolding ehdr_ok_def field_defs by (intro stops_intros)

lemma stops_load_segments:
  fixes s :: "'z hw_scheme"
  shows "load_segments data sz i loaded s \<noteq> None"
proof (induction "2 ^ 16 - unat i" arbitrary: i loaded s rule: less_induct)
  case less
  have "(if ucast i < phnum then
       bind (e_phoff data) (\<lambda>phoff. bind (e_phentsize data) (\<lambda>phentsize.
       let off = phoff + ucast i * phentsize in
       if off + PHDR_SIZE > sz then ret 0
       else bind (p_type (data + off)) (\<lambda>ty.
         if ty \<noteq> PT_LOAD then load_segments data sz (i + 1) loaded
         else bind (load_segment data sz (data + off)) (\<lambda>ok.
           if ok then load_segments data sz (i + 1) True else ret 0))))
     else if loaded then e_entry data else ret 0) t \<noteq> None"
    if n: "e_phnum data s = Some (Ok phnum t)" for phnum t
  proof (cases "ucast i < phnum")
    case False
    with stops_fields(4) [of data, unfolded stops_def, rule_format, of t] show ?thesis by (simp add: ret_run)
  next
    case True
    have "unat phnum < 2 ^ 16"
      using n read_le_bound [of "mem s" "data + 56" 2] by (auto simp: e_phnum_def load_def split: if_splits)
    with True have "unat i < 2 ^ 16 - 1" by (simp add: word_less_nat_alt unat_ucast_up)
    then have "2 ^ 16 - unat (i + 1) < (2 :: nat) ^ 16 - unat i" by (simp add: unat_word_ariths)
    then have IH: "stops (load_segments data sz (i + 1) l :: (u64, 'z hw_scheme) prog)" for l
      using less.hyps by (simp add: stops_def)
    have "stops (bind (e_phoff data) (\<lambda>phoff. bind (e_phentsize data) (\<lambda>phentsize.
       let off = phoff + ucast i * phentsize in
       if off + PHDR_SIZE > sz then ret 0
       else bind (p_type (data + off)) (\<lambda>ty.
         if ty \<noteq> PT_LOAD then load_segments data sz (i + 1) loaded
         else bind (load_segment data sz (data + off)) (\<lambda>ok.
           if ok then load_segments data sz (i + 1) True else ret 0)))) :: (u64, 'z hw_scheme) prog)"
      unfolding Let_def by (intro stops_intros IH)
    with True show ?thesis by (simp add: stops_def)
  qed
  then show ?case
    by (subst load_segments.simps) (rule bind_stops_at, rule stops_fields(5) [unfolded stops_def, rule_format], blast)
qed

lemma stops_elf_load [stops_intros]: "stops (elf_load data sz)"
proof -
  have "stops (load_segments data sz 0 False)" by (simp only: stops_def stops_load_segments) simp
  then show ?thesis unfolding elf_load_def by (intro stops_intros)
qed

text \<open>
  The check of the segment address wraps above the window: a segment that starts past the
  end of the map passes it, and the copy faults.
\<close>

lemma load_segment_high:
  assumes map: "mapped data (unat sz)" and k: "k + 56 \<le> unat sz" and ph: "ph = data + of_nat k"
    and v: "PROG_LOAD_MAX < vaddr_of (mem s) ph"
    and n: "unat (memsz_of (mem s) ph) + (unat (vaddr_of (mem s) ph) - unat PROG_LOAD_MAX) \<le> 2 ^ 64"
    and f: "0 < unat (filesz_of (mem s) ph)" "unat (offset_of (mem s) ph) + unat (filesz_of (mem s) ph) \<le> unat sz"
  shows "load_segment data sz ph s = Some (Trap (fault_vector (vaddr_of (mem s) ph) 1) s)"
proof -
  let ?v = "vaddr_of (mem s) ph" and ?f = "filesz_of (mem s) ph" and ?n = "memsz_of (mem s) ph" and ?o = "offset_of (mem s) ph"
  have v': "unat PROG_LOAD_MAX < unat ?v" using v by (simp add: word_less_nat_alt)
  have c1: "\<not> ?v < PROG_LOAD_MIN"
    using v' by (simp add: word_less_nat_alt PROG_LOAD_MIN_def PROG_LOAD_MAX_def)
  have "unat (PROG_LOAD_MAX - ?v) = 2 ^ 64 + unat PROG_LOAD_MAX - unat ?v"
    using v' by (subst unat_sub_if_size) (simp add: word_le_nat_alt word_size)
  then have c2: "\<not> PROG_LOAD_MAX - ?v < ?n" using n v' by (simp add: word_less_nat_alt)
  have fs: "?f \<le> sz" using f by (simp add: word_le_nat_alt)
  then have c3: "\<not> sz < ?f" and "unat (sz - ?f) = unat sz - unat ?f" by (simp_all add: unat_sub_le)
  then have c4: "\<not> sz - ?f < ?o" using f by (simp add: word_less_nat_alt)
  have so: "unat (data + ?o) = unat data + unat ?o"
    using unat_in_image [OF map, of "unat ?o"] f by simp
  obtain x where x: "unat ?f = Suc x" using f(1) gr0_implies_Suc by blast
  have "data + ?o < MAP_LIMIT" using so f mappedD [OF map] by (simp add: word_less_nat_alt MAP_LIMIT_def)
  moreover have "\<not> ?v < MAP_LIMIT" using v by (simp add: PROG_LOAD_MAX_def MAP_LIMIT_def)
  ultimately have "km_memcpy ?v (data + ?o) (unat ?f) s = Some (Trap (fault_vector ?v 1) s)"
    by (simp add: x bind_run load8_run poke_def branch_run store8_def)
  with c1 c2 c3 c4 show ?thesis
    by (simp add: load_segment_def bind_run phdr_fields [OF map k agree_refl ph] ret_run)
qed

text \<open>The loader writes nothing but the memory.\<close>

lemma unchanged_poke: "(\<And>s x. f (s\<lparr>mem := x\<rparr>) = f s) \<Longrightarrow> unchanged f (poke a v)"
  unfolding poke_def by (intro unchanged_intros)

lemma unchanged_memory_helpers:
  assumes f: "\<And>(s :: 'z hw_scheme) x. f (s\<lparr>mem := x\<rparr>) = f s"
  shows "unchanged f (km_memcpy d a n)" and "unchanged f (km_memset d c n)"
proof -
  show "unchanged f (km_memcpy d a n)" by (induction n arbitrary: d a) (auto intro!: unchanged_intros unchanged_poke f)
  show "unchanged f (km_memset d c n)" by (induction n arbitrary: d) (auto intro!: unchanged_intros unchanged_poke f)
qed

lemma unchanged_load_segments:
  assumes f: "\<And>(s :: 'z hw_scheme) x. f (s\<lparr>mem := x\<rparr>) = f s"
  shows "unchanged f (load_segments data sz i ld)"
proof (rule unchangedI)
  fix s :: "'z hw_scheme" and r assume "load_segments data sz i ld s = Some r"
  then show "leaves f s r"
  proof (rule load_segments.raw_induct [where P = "\<lambda>_ _ _ _ s r. leaves f s r", rotated])
    fix rec :: "u64 \<Rightarrow> u64 \<Rightarrow> u16 \<Rightarrow> bool \<Rightarrow> (u64, 'z hw_scheme) prog" and data sz i ld s r
    assume "\<And>data sz i ld s r. rec data sz i ld s = Some r \<Longrightarrow> leaves f s r"
    then have IH: "unchanged f (rec data sz i ld)" for data sz i ld by (rule unchangedI)
    let ?b = "bind (e_phnum data) (\<lambda>phnum.
     if ucast i < phnum then
       bind (e_phoff data) (\<lambda>phoff. bind (e_phentsize data) (\<lambda>phentsize.
       let off = phoff + ucast i * phentsize in
       if off + PHDR_SIZE > sz then ret 0
       else bind (p_type (data + off)) (\<lambda>ty.
         if ty \<noteq> PT_LOAD then rec data sz (i + 1) ld
         else bind (load_segment data sz (data + off)) (\<lambda>ok.
           if ok then rec data sz (i + 1) True else ret 0))))
     else if ld then e_entry data else ret 0)"
    assume "?b s = Some r"
    moreover have "unchanged f ?b"
      unfolding Let_def load_segment_def field_defs
      by (intro unchanged_intros IH unchanged_memory_helpers f)
    ultimately show "leaves f s r" by (blast intro: unchangedD)
  qed
qed

lemma unchanged_elf_load:
  assumes f: "\<And>(s :: 'z hw_scheme) x. f (s\<lparr>mem := x\<rparr>) = f s"
  shows "unchanged f (elf_load data sz)"
  unfolding elf_load_def ehdr_ok_def field_defs
  by (intro unchanged_intros unchanged_load_segments f)

end
