(* ===== verification/Modules.thy ===== *)
theory Modules imports Idt Elf begin

text \<open>
  Modules and the kernel service table, \<open>kernel/modules.c\<close> with \<open>modules.h\<close> and
  \<open>module_abi.h\<close>: the table of loaded modules, how they are registered, found and started,
  and the services they are handed.
\<close>

section \<open>State\<close>

definition MAX_MODULES :: u32 where
  "MAX_MODULES = 16"

definition MODULE_MAGIC :: u64 where
  "MODULE_MAGIC = 0x444F534D"

definition KST_VERSION :: u32 where
  "KST_VERSION = 2"

datatype module_state =
    MODULE_STATE_ABSENT | MODULE_STATE_LOADED | MODULE_STATE_RUNNING | MODULE_STATE_FAILED

text \<open>
  \<open>header = 0\<close> is \<open>NULL\<close>. A module header lies in the image of the module: the magic, the
  name, the version and a reserved word, 56 bytes.
\<close>

record module =
  mod_start :: u64
  mod_end :: u64
  cmdline :: "u8 list"
  state :: module_state
  header :: u64

definition HEADER_SIZE :: u64 where
  "HEADER_SIZE = 56"

definition header_magic :: "u64 \<Rightarrow> (u64, 'z hw_scheme) prog" where
  "header_magic hdr = load 4 hdr"

definition header_name :: "u64 \<Rightarrow> cstr" where
  "header_name hdr = Ptr (hdr + 4)"

definition header_version :: "u64 \<Rightarrow> cstr" where
  "header_version hdr = Ptr (hdr + 36)"

record kernel = idts +
  modules :: "module list"
  mod_count :: u32

section \<open>Services\<close>

text \<open>\<open>(int)len\<close>: the low 32 bits, signed.\<close>

definition to_int :: "u64 \<Rightarrow> int" where
  "to_int n = sint (ucast n :: u32)"

definition kst_write :: "int \<Rightarrow> u64 \<Rightarrow> u64 \<Rightarrow> (int, 'z kernel_scheme) prog" where
  "kst_write fd buf len =
     (if fd = 1 \<or> fd = 2
      then bind (for_word 0 len (\<lambda>i. bind (load8 (buf + i)) hal_console_putchar)) (\<lambda>_. ret (to_int len))
      else ret (- 1))"

function kst_read_from :: "u64 \<Rightarrow> u64 \<Rightarrow> u64 \<Rightarrow> (int, 'z kernel_scheme) prog" where
  "kst_read_from buf i len = (if i < len then
     bind hal_console_getchar (\<lambda>c. if c < 0 then ret (- 1) else
     bind (store8 (buf + i) (word_of_int c)) (\<lambda>_.
     if c = 0x0A then ret (to_int (i + 1)) else kst_read_from buf (i + 1) len))
   else ret (to_int len))"
  by pat_completeness auto
termination
  by (relation "measure (\<lambda>(buf, i, len). unat len - unat i)")
    (auto simp: unat_plus_one word_less_nat_alt)

declare kst_read_from.simps [simp del]

definition kst_read :: "int \<Rightarrow> u64 \<Rightarrow> u64 \<Rightarrow> (int, 'z kernel_scheme) prog" where
  "kst_read fd buf len = (if fd \<noteq> 0 \<or> len = 0 then ret (- 1) else kst_read_from buf 0 len)"

definition kst_open :: "cstr \<Rightarrow> int \<Rightarrow> int \<Rightarrow> (int, 'z kernel_scheme) prog" where
  "kst_open path flags mode = ret (- 1)"

definition kst_close :: "int \<Rightarrow> (int, 'z kernel_scheme) prog" where
  "kst_close fd = ret (- 1)"

definition kst_isatty :: "int \<Rightarrow> (int, 'z kernel_scheme) prog" where
  "kst_isatty fd = ret (if fd \<ge> 0 \<and> fd \<le> 2 then 1 else 0)"

definition kst_lseek :: "int \<Rightarrow> int \<Rightarrow> int \<Rightarrow> (int, 'z kernel_scheme) prog" where
  "kst_lseek fd offset whence = ret (- 1)"

definition kst_fstat :: "int \<Rightarrow> u64 \<Rightarrow> (int, 'z kernel_scheme) prog" where
  "kst_fstat fd st = ret (- 1)"

definition kst_exit :: "int \<Rightarrow> (unit, 'z kernel_scheme) prog" where
  "kst_exit status = hal_panic (str ''module called exit()'')"

definition kst_getpid :: "(int, 'z kernel_scheme) prog" where
  "kst_getpid = ret 1"

definition kst_set_exc_hook :: "u64 \<Rightarrow> (unit, 'z kernel_scheme) prog" where
  "kst_set_exc_hook fn = hal_set_exc_hook fn"

definition kst_clear_exc_hook :: "(unit, 'z kernel_scheme) prog" where
  "kst_clear_exc_hook = hal_clear_exc_hook"

definition kst_elf_load :: "u64 \<Rightarrow> u64 \<Rightarrow> (u64, 'z kernel_scheme) prog" where
  "kst_elf_load data sz = elf_load data sz"

text \<open>The table \<open>kst_t\<close>: the functions behind its pointers.\<close>

record 's kst =
  version :: u32
  con_print :: "cstr \<Rightarrow> (unit, 's) prog"
  con_print_hex :: "u64 \<Rightarrow> (unit, 's) prog"
  con_print_dec :: "u64 \<Rightarrow> (unit, 's) prog"
  con_putchar :: "u8 \<Rightarrow> (unit, 's) prog"
  con_clear :: "(unit, 's) prog"
  con_getchar :: "(int, 's) prog"
  mem_sbrk :: "u64 \<Rightarrow> (u64, 's) prog"
  io_write :: "int \<Rightarrow> u64 \<Rightarrow> u64 \<Rightarrow> (int, 's) prog"
  io_read :: "int \<Rightarrow> u64 \<Rightarrow> u64 \<Rightarrow> (int, 's) prog"
  io_open :: "cstr \<Rightarrow> int \<Rightarrow> int \<Rightarrow> (int, 's) prog"
  io_close :: "int \<Rightarrow> (int, 's) prog"
  io_isatty :: "int \<Rightarrow> (int, 's) prog"
  io_lseek :: "int \<Rightarrow> int \<Rightarrow> int \<Rightarrow> (int, 's) prog"
  io_fstat :: "int \<Rightarrow> u64 \<Rightarrow> (int, 's) prog"
  sys_exit :: "int \<Rightarrow> (unit, 's) prog"
  sys_panic :: "cstr \<Rightarrow> (unit, 's) prog"
  sys_getpid :: "(int, 's) prog"
  sys_set_exc_hook :: "u64 \<Rightarrow> (unit, 's) prog"
  sys_clear_exc_hook :: "(unit, 's) prog"
  sys_elf_load :: "u64 \<Rightarrow> u64 \<Rightarrow> (u64, 's) prog"

definition kernel_kst :: "'z kernel_scheme kst" where
  "kernel_kst = \<lparr>
     version = KST_VERSION,
     con_print = hal_console_print,
     con_print_hex = hal_console_print_hex,
     con_print_dec = hal_console_print_dec,
     con_putchar = hal_console_putchar,
     con_clear = hal_console_clear,
     con_getchar = hal_console_getchar,
     mem_sbrk = heap_sbrk,
     io_write = kst_write,
     io_read = kst_read,
     io_open = kst_open,
     io_close = kst_close,
     io_isatty = kst_isatty,
     io_lseek = kst_lseek,
     io_fstat = kst_fstat,
     sys_exit = kst_exit,
     sys_panic = hal_panic,
     sys_getpid = kst_getpid,
     sys_set_exc_hook = kst_set_exc_hook,
     sys_clear_exc_hook = kst_clear_exc_hook,
     sys_elf_load = kst_elf_load\<rparr>"

lemma kernel_kst_sel [simp]:
  "con_print kernel_kst = hal_console_print" "con_print_hex kernel_kst = hal_console_print_hex"
  "con_print_dec kernel_kst = hal_console_print_dec" "con_putchar kernel_kst = hal_console_putchar"
  "con_clear kernel_kst = hal_console_clear" "con_getchar kernel_kst = hal_console_getchar"
  "mem_sbrk kernel_kst = heap_sbrk" "io_write kernel_kst = kst_write" "io_read kernel_kst = kst_read"
  "io_open kernel_kst = kst_open" "io_close kernel_kst = kst_close" "io_isatty kernel_kst = kst_isatty"
  "io_lseek kernel_kst = kst_lseek" "io_fstat kernel_kst = kst_fstat" "sys_exit kernel_kst = kst_exit"
  "sys_panic kernel_kst = hal_panic" "sys_getpid kernel_kst = kst_getpid"
  "sys_set_exc_hook kernel_kst = kst_set_exc_hook" "sys_clear_exc_hook kernel_kst = kst_clear_exc_hook"
  "sys_elf_load kernel_kst = kst_elf_load"
  by (simp_all add: kernel_kst_def)

section \<open>The module table\<close>

text \<open>The loop of \<open>str_copy\<close> from the index \<open>i\<close> on; \<open>src\<close> points at \<open>src[i]\<close>.\<close>

function str_copy_from :: "u8 list \<Rightarrow> cstr \<Rightarrow> nat \<Rightarrow> nat \<Rightarrow> (u8 list, 'z hw_scheme) prog" where
  "str_copy_from dst src i limit = bind (deref src) (\<lambda>c.
     if c \<noteq> 0 \<and> i < limit - 1 then str_copy_from (dst[i := c]) (adv src) (i + 1) limit
     else ret (dst[i := 0]))"
  by pat_completeness auto
termination
  by (relation "measure (\<lambda>(dst, src, i, limit). limit - i)") auto

declare str_copy_from.simps [simp del]

definition str_copy :: "u8 list \<Rightarrow> cstr \<Rightarrow> nat \<Rightarrow> (u8 list, 'z hw_scheme) prog" where
  "str_copy dst src limit = str_copy_from dst src 0 limit"

definition module_name_eq :: "module \<Rightarrow> cstr \<Rightarrow> (bool, 'z hw_scheme) prog" where
  "module_name_eq m name = bind (str_eq (Lit (cmdline m)) name) (\<lambda>b. if b then ret True
     else if header m \<noteq> 0 then str_eq (header_name (header m)) name else ret False)"

definition module_is_entry_shell :: "module \<Rightarrow> (bool, 'z hw_scheme) prog" where
  "module_is_entry_shell m = bind (module_name_eq m (str ''COMMAND.KERN'')) (\<lambda>b. if b then ret True
     else module_name_eq m (str ''command.com''))"

text \<open>\<open>module_list.modules[i]\<close>, read and updated; an index past the array is undefined.\<close>

definition get_module :: "nat \<Rightarrow> (module, 'z kernel_scheme) prog" where
  "get_module i s = (if i < length (modules s) then Some (Ok (modules s ! i) s) else Some Undef)"

definition upd_module :: "nat \<Rightarrow> (module \<Rightarrow> module) \<Rightarrow> (unit, 'z kernel_scheme) prog" where
  "upd_module i f s = (if i < length (modules s)
     then Some (Ok () (s\<lparr>modules := (modules s)[i := f (modules s ! i)]\<rparr>)) else Some Undef)"

definition modules_register :: "u64 \<Rightarrow> u64 \<Rightarrow> cstr \<Rightarrow> (unit, 'z kernel_scheme) prog" where
  "modules_register start stop line = branch (\<lambda>s. mod_count s \<ge> MAX_MODULES) skip
     (bind (gets (\<lambda>s. unat (mod_count s))) (\<lambda>i. seq [
       upd_module i (\<lambda>m. m\<lparr>mod_start := start\<rparr>),
       upd_module i (\<lambda>m. m\<lparr>mod_end := stop\<rparr>),
       upd_module i (\<lambda>m. m\<lparr>state := MODULE_STATE_LOADED\<rparr>),
       bind (get_module i) (\<lambda>m. bind (str_copy (cmdline m) line 64) (\<lambda>c.
         upd_module i (\<lambda>m. m\<lparr>cmdline := c\<rparr>))),
       bind (header_magic start) (\<lambda>magic.
         if magic = MODULE_MAGIC then upd_module i (\<lambda>m. m\<lparr>header := start\<rparr>)
         else seq [
           upd_module i (\<lambda>m. m\<lparr>header := 0\<rparr>),
           upd_module i (\<lambda>m. m\<lparr>state := MODULE_STATE_FAILED\<rparr>),
           hal_console_print (str ''  [WARN] ''),
           hal_console_print line,
           hal_console_print (Lit (lit '': missing module header'' @ [0x0A]))]),
       modify (\<lambda>s. s\<lparr>mod_count := mod_count s + 1\<rparr>)]))"

text \<open>
  \<open>entry a\<close> is the code of a module started at the address \<open>a\<close> with \<open>&kernel_kst\<close>: it is
  not part of the kernel, so it is an argument.
\<close>

definition start_module :: "(u64 \<Rightarrow> (unit, 'z kernel_scheme) prog) \<Rightarrow> nat \<Rightarrow> (unit, 'z kernel_scheme) prog" where
  "start_module entry i = seq [
     upd_module i (\<lambda>m. m\<lparr>state := MODULE_STATE_RUNNING\<rparr>),
     bind (get_module i) (\<lambda>m. entry (mod_start m + HEADER_SIZE))]"

definition run_module :: "(u64 \<Rightarrow> (unit, 'z kernel_scheme) prog) \<Rightarrow> nat \<Rightarrow> (unit, 'z kernel_scheme) prog" where
  "run_module entry i = bind (get_module i) (\<lambda>m.
     if state m \<noteq> MODULE_STATE_LOADED \<or> header m = 0 then skip
     else bind (module_is_entry_shell m) (\<lambda>shell. if shell then skip
       else seq [
         hal_console_print (str ''  [MOD] ''),
         hal_console_print (header_name (header m)),
         hal_console_print (str '' v''),
         hal_console_print (header_version (header m)),
         hal_console_print newline,
         start_module entry i]))"

partial_function (option) modules_run_from ::
  "(u64 \<Rightarrow> (unit, 'z kernel_scheme) prog) \<Rightarrow> u32 \<Rightarrow> (unit, 'z kernel_scheme) prog" where
  "modules_run_from entry i s = bind (gets mod_count) (\<lambda>n.
     if i < n then bind (run_module entry (unat i)) (\<lambda>_. modules_run_from entry (i + 1)) else skip) s"

definition modules_run_all :: "(u64 \<Rightarrow> (unit, 'z kernel_scheme) prog) \<Rightarrow> (unit, 'z kernel_scheme) prog" where
  "modules_run_all entry = modules_run_from entry 0"

text \<open>\<open>modules_find\<close> returns the index of the module; \<open>None\<close> is \<open>NULL\<close>.\<close>

partial_function (option) modules_find_from :: "cstr \<Rightarrow> u32 \<Rightarrow> (nat option, 'z kernel_scheme) prog" where
  "modules_find_from name i s = bind (gets mod_count) (\<lambda>n.
     if i < n then bind (get_module (unat i)) (\<lambda>m. bind (module_name_eq m name) (\<lambda>b.
       if b then ret (Some (unat i)) else modules_find_from name (i + 1)))
     else ret None) s"

definition modules_find :: "cstr \<Rightarrow> (nat option, 'z kernel_scheme) prog" where
  "modules_find name = modules_find_from name 0"

fun launch_from :: "(u64 \<Rightarrow> (unit, 'z kernel_scheme) prog) \<Rightarrow> cstr list \<Rightarrow> (unit, 'z kernel_scheme) prog" where
  "launch_from entry [] =
     hal_console_print (Lit (lit ''No entry executable found (COMMAND.KERN or command.com).'' @ [0x0A]))"
| "launch_from entry (name # names) = bind (modules_find name) (\<lambda>r. case r of
     None \<Rightarrow> launch_from entry names
   | Some i \<Rightarrow> bind (get_module i) (\<lambda>m. if header m = 0 then launch_from entry names
       else seq [
         hal_console_print (Lit (0x0A # lit ''Launching '')),
         hal_console_print (header_name (header m)),
         hal_console_print (Lit (lit ''...'' @ [0x0A])),
         start_module entry i]))"

definition modules_launch_entry :: "(u64 \<Rightarrow> (unit, 'z kernel_scheme) prog) \<Rightarrow> (unit, 'z kernel_scheme) prog" where
  "modules_launch_entry entry = launch_from entry [str ''COMMAND.KERN'', str ''command.com'']"

definition modules_count :: "(u32, 'z kernel_scheme) prog" where
  "modules_count = gets mod_count"

section \<open>Names\<close>

text \<open>A copied string: cut to one less than the limit and terminated; the rest of the array stays.\<close>

lemma str_copy_from_run:
  fixes s :: "'z hw_scheme"
  assumes "denotes (mem s) src xs" and "i < limit" and "limit \<le> length dst"
  shows "str_copy_from dst src i limit s = Some (Ok (take i dst @ take (limit - 1 - i) xs @ 0
    # drop (Suc (i + min (limit - 1 - i) (length xs))) dst) s)"
  using assms
proof (induction xs arbitrary: dst src i)
  case Nil
  then show ?case
    by (subst str_copy_from.simps) (simp add: bind_run deref_run ret_run upd_conv_take_nth_drop)
next
  case (Cons x xs)
  show ?case
  proof (cases "i < limit - 1")
    case True
    have "denotes (mem s) (adv src) xs" using Cons.prems by simp
    from Cons.IH [OF this, of "i + 1" "dst[i := x]"] True Cons.prems have
      "str_copy_from (dst[i := x]) (adv src) (i + 1) limit s = Some (Ok (take (Suc i) (dst[i := x])
        @ take (limit - 1 - Suc i) xs @ 0 # drop (Suc (Suc i + min (limit - 1 - Suc i) (length xs))) dst) s)"
      by simp
    moreover have "take (Suc i) (dst[i := x]) = take i dst @ [x]"
      using True Cons.prems by (simp add: take_Suc_conv_app_nth)
    moreover have "limit - 1 - i = Suc (limit - 1 - Suc i)" using True by simp
    ultimately show ?thesis
      using True Cons.prems by (subst str_copy_from.simps) (simp add: bind_run deref_run)
  next
    case False
    then have "i = limit - 1" using Cons.prems by simp
    with Cons.prems show ?thesis
      by (subst str_copy_from.simps) (simp add: bind_run deref_run ret_run upd_conv_take_nth_drop)
  qed
qed

definition c_string :: "u8 list \<Rightarrow> u8 list" where
  "c_string = takeWhile (\<lambda>x. x \<noteq> 0)"

lemma c_string_id: "0 \<notin> set xs \<Longrightarrow> c_string xs = xs"
  by (metis (mono_tags) c_string_def takeWhile_eq_all_conv)

lemma str_copy_run:
  assumes "denotes (mem s) src xs" and "0 < limit" and "limit \<le> length dst"
  shows "\<exists>dst'. str_copy dst src limit s = Some (Ok dst' s)
    \<and> length dst' = length dst \<and> c_string dst' = take (limit - 1) xs"
proof (intro exI conjI)
  let ?d = "take (limit - 1) xs @ 0 # drop (Suc (min (limit - 1) (length xs))) dst"
  show "str_copy dst src limit s = Some (Ok ?d s)"
    using str_copy_from_run [OF assms(1,2,3)] by (simp add: str_copy_def)
  show "length ?d = length dst" using assms by (simp add: min_def)
  have "\<forall>x\<in>set (take (limit - 1) xs). x \<noteq> 0"
    using denotes_no_zero [OF assms(1)] by (auto dest: in_set_takeD)
  then show "c_string ?d = take (limit - 1) xs" by (simp add: c_string_def takeWhile_append2)
qed

text \<open>
  The names of a module: its command line in the table, and the name in its header.
  \<open>N\<close> tells the strings of the header at an address, name and version.
\<close>

type_synonym headers = "u64 \<Rightarrow> u8 list \<times> u8 list"

definition headers_ok :: "headers \<Rightarrow> memory \<Rightarrow> module list \<Rightarrow> bool" where
  "headers_ok N m ms \<longleftrightarrow> (\<forall>x\<in>set ms. header x \<noteq> 0 \<longrightarrow>
     denotes m (header_name (header x)) (fst (N (header x)))
     \<and> denotes m (header_version (header x)) (snd (N (header x))))"

definition named :: "headers \<Rightarrow> u8 list \<Rightarrow> module \<Rightarrow> bool" where
  "named N xs m \<longleftrightarrow> c_string (cmdline m) = xs \<or> (header m \<noteq> 0 \<and> fst (N (header m)) = xs)"

lemma denotes_c_string: "denotes m (Lit xs) (c_string xs)"
  unfolding c_string_def by (rule denotes_Lit_any)

lemma module_name_eq_run:
  assumes "denotes (mem s) name xs" and "headers_ok N (mem s) ms" and "x \<in> set ms"
  shows "module_name_eq x name s = Some (Ok (named N xs x) s)"
proof -
  have "header x \<noteq> 0 \<Longrightarrow> str_eq (header_name (header x)) name s = Some (Ok (fst (N (header x)) = xs) s)"
    using assms by (intro str_eq_run) (auto simp: headers_ok_def)
  with str_eq_run [OF denotes_c_string assms(1)] show ?thesis
    by (simp add: module_name_eq_def bind_run ret_run named_def)
qed

definition SHELLS :: "u8 list list" where
  "SHELLS = [lit ''COMMAND.KERN'', lit ''command.com'']"

lemma denotes_shells:
  "denotes m (str ''COMMAND.KERN'') (lit ''COMMAND.KERN'')" "denotes m (str ''command.com'') (lit ''command.com'')"
  by (rule denotes_Lit, simp)+

definition is_shell :: "headers \<Rightarrow> module \<Rightarrow> bool" where
  "is_shell N m \<longleftrightarrow> (\<exists>xs\<in>set SHELLS. named N xs m)"

lemma module_is_entry_shell_run:
  assumes "headers_ok N (mem s) ms" and "x \<in> set ms"
  shows "module_is_entry_shell x s = Some (Ok (is_shell N x) s)"
  using module_name_eq_run [OF denotes_shells(1) assms] module_name_eq_run [OF denotes_shells(2) assms]
  by (simp add: module_is_entry_shell_def bind_run ret_run is_shell_def SHELLS_def del: lit_Cons)

section \<open>The table\<close>

definition loaded :: "'z kernel_scheme \<Rightarrow> module list" where
  "loaded s = take (unat (mod_count s)) (modules s)"

definition modules_inv :: "'z kernel_scheme \<Rightarrow> bool" where
  "modules_inv s \<longleftrightarrow> length (modules s) = 16 \<and> mod_count s \<le> 16
     \<and> (\<forall>m\<in>set (modules s). length (cmdline m) = 64)"

lemma modules_invD:
  assumes "modules_inv s"
  shows "length (modules s) = 16" and "unat (mod_count s) \<le> 16" and "length (loaded s) = unat (mod_count s)"
    and "i < 16 \<Longrightarrow> length (cmdline (modules s ! i)) = 64"
  using assms by (auto simp: modules_inv_def loaded_def word_le_nat_alt)

lemma loaded_nth: "modules_inv s \<Longrightarrow> i < unat (mod_count s) \<Longrightarrow> loaded s ! i = modules s ! i \<and> i < length (modules s)"
  by (auto simp: loaded_def dest: modules_invD)

lemma get_module_run: "modules_inv s \<Longrightarrow> i < unat (mod_count s) \<Longrightarrow> get_module i s = Some (Ok (loaded s ! i) s)"
  using loaded_nth [of s i] by (simp add: get_module_def)

text \<open>Lookup finds the first module with the name.\<close>

primrec first_index :: "('a \<Rightarrow> bool) \<Rightarrow> 'a list \<Rightarrow> nat option" where
  "first_index P [] = None"
| "first_index P (x # xs) = (if P x then Some 0 else map_option Suc (first_index P xs))"

lemma first_index_Some:
  "first_index P xs = Some i \<Longrightarrow> i < length xs \<and> P (xs ! i) \<and> (\<forall>j<i. \<not> P (xs ! j))"
proof (induction xs arbitrary: i)
  case (Cons x xs)
  then show ?case by (fastforce simp: nth_Cons less_Suc_eq_0_disj split: if_splits nat.splits)
qed simp

lemma first_index_None: "first_index P xs = None \<longleftrightarrow> (\<forall>x\<in>set xs. \<not> P x)"
  by (induction xs) auto

lemma modules_find_from_run:
  fixes s :: "'z kernel_scheme"
  assumes inv: "modules_inv s" and hs: "headers_ok N (mem s) (loaded s)" and name: "denotes (mem s) name xs"
    and i: "unat i \<le> unat (mod_count s)"
  shows "modules_find_from name i s =
    Some (Ok (map_option (\<lambda>k. unat i + k) (first_index (named N xs) (drop (unat i) (loaded s)))) s)"
  using i
proof (induction "unat (mod_count s) - unat i" arbitrary: i)
  case 0
  then have "\<not> i < mod_count s" by (simp add: word_less_nat_alt)
  moreover have "drop (unat i) (loaded s) = []" using 0 modules_invD(3) [OF inv] by simp
  ultimately show ?case
    by (subst modules_find_from.simps) (simp add: bind_run gets_run ret_run)
next
  case (Suc k)
  then have lt: "i < mod_count s" and lt': "unat i < unat (mod_count s)" by (simp_all add: word_less_nat_alt)
  have i1: "unat (i + 1) = Suc (unat i)" by (rule unat_plus_one [OF lt])
  have len: "unat i < length (loaded s)" using lt' modules_invD(3) [OF inv] by simp
  have d: "drop (unat i) (loaded s) = loaded s ! unat i # drop (Suc (unat i)) (loaded s)"
    using len by (rule Cons_nth_drop_Suc [symmetric])
  have "loaded s ! unat i \<in> set (loaded s)" using len by simp
  from module_name_eq_run [OF name hs this] get_module_run [OF inv lt'] lt
  have "modules_find_from name i s = (if named N xs (loaded s ! unat i) then Some (Ok (Some (unat i)) s)
      else modules_find_from name (i + 1) s)"
    by (subst modules_find_from.simps) (simp add: bind_run gets_run ret_run)
  moreover have "modules_find_from name (i + 1) s = Some (Ok (map_option (\<lambda>k. unat (i + 1) + k)
      (first_index (named N xs) (drop (unat (i + 1)) (loaded s)))) s)"
    using Suc i1 by (intro Suc.hyps(1)) simp_all
  ultimately show ?case by (simp add: d i1 option.map_comp comp_def)
qed

lemma modules_find_run:
  assumes "modules_inv s" and "headers_ok N (mem s) (loaded s)" and "denotes (mem s) name xs"
  shows "modules_find name s = Some (Ok (first_index (named N xs) (loaded s)) s)"
  using modules_find_from_run [OF assms, of 0] by (simp add: modules_find_def option.map_ident)

end
