(* ===== verification/Module_Table.thy ===== *)
theory Module_Table imports Modules begin

text \<open>
  The operations on the module table, \<open>kernel/modules.c\<close>: registration appends an entry to an
  abstract table, \<open>modules_run_all\<close> is a loop over the modules chosen before the first of
  them runs, and \<open>modules_launch_entry\<close> starts the shell that \<open>shell_choice\<close> names. The
  contract of the code of the modules is the locale \<open>module_code\<close>.
\<close>

section \<open>Registration\<close>

text \<open>
  What the kernel knows of a module: the array bytes behind the command line are not part
  of it.
\<close>

record module_info =
  info_start :: u64
  info_end :: u64
  info_line :: "u8 list"
  info_state :: module_state
  info_header :: u64

definition module_info :: "module \<Rightarrow> module_info" where
  "module_info m = \<lparr>info_start = mod_start m, info_end = mod_end m, info_line = c_string (cmdline m),
     info_state = state m, info_header = header m\<rparr>"

definition infos :: "'z kernel_scheme \<Rightarrow> module_info list" where
  "infos s = map module_info (loaded s)"

text \<open>The entry of a new module: it is usable when its image starts with a module header.\<close>

definition new_info :: "memory \<Rightarrow> u64 \<Rightarrow> u64 \<Rightarrow> u8 list \<Rightarrow> module_info" where
  "new_info m start stop xs = (if read_le m start 4 = MODULE_MAGIC
     then \<lparr>info_start = start, info_end = stop, info_line = take 63 xs, info_state = MODULE_STATE_LOADED, info_header = start\<rparr>
     else \<lparr>info_start = start, info_end = stop, info_line = take 63 xs, info_state = MODULE_STATE_FAILED, info_header = 0\<rparr>)"

lemma con_local_modules [simp]: "con_local modules" "con_local mod_count"
  by (rule con_localI; simp)+

lemma con_inv_modules [simp]:
  "con_inv (s\<lparr>modules := ms\<rparr>) = con_inv s" "con_inv (s\<lparr>mod_count := n\<rparr>) = con_inv s"
  by (simp_all add: con_inv_def vga_inv_def on_serial_def)

lemma upd_module_run:
  "i < length (modules s) \<Longrightarrow>
    upd_module i f s = Some (Ok () (s\<lparr>modules := (modules s)[i := f (modules s ! i)]\<rparr>))"
  by (simp add: upd_module_def)

lemma modules_register_full:
  "16 \<le> mod_count s \<Longrightarrow> modules_register start stop xs s = Some (Ok () s)"
  by (simp add: modules_register_def branch_run MAX_MODULES_def skip_run)

definition warn_missing :: "cstr \<Rightarrow> (unit, 'z kernel_scheme) prog" where
  "warn_missing c = seq [
     hal_console_print (str ''  [WARN] ''),
     hal_console_print c,
     hal_console_print (Lit (lit '': missing module header'' @ [0x0A]))]"

lemma warn_missing_spec:
  fixes s :: "'z kernel_scheme"
  assumes "con_inv s" and "denotes (mem s) c xs"
  shows "\<exists>r. warn_missing c s = Some r
    \<and> good (\<lambda>_ t. con_inv t \<and> mem t = mem s \<and> modules t = modules s \<and> mod_count t = mod_count s)
        (\<lambda>t. con_inv t \<and> mem t = mem s \<and> modules t = modules s \<and> mod_count t = mod_count s) r"
proof -
  let ?J = "\<lambda>t :: 'z kernel_scheme. mem t = mem s \<and> modules t = modules s \<and> mod_count t = mod_count s"
  have J: "con_local ?J" by (rule con_localI) simp_all
  have "keeps (con_and ?J) (warn_missing c)"
    unfolding warn_missing_def using assms(2) by (intro keeps_intros J) auto
  then obtain r where "warn_missing c s = Some r" "good (\<lambda>_. con_and ?J) (con_and ?J) r"
    using assms(1) by (auto simp: keeps_def con_and_def elim: specE)
  then show ?thesis by (auto simp: con_and_def [abs_def])
qed

lemma str_copy_slot:
  fixes s :: "'z hw_scheme"
  assumes name: "denotes (mem s) name xs" and len: "length old = 64"
  obtains c where "\<And>t :: 'z hw_scheme. mem t = mem s \<Longrightarrow> str_copy old name 64 t = Some (Ok c t)"
    and "length c = 64" and "c_string c = take 63 xs"
proof -
  obtain c where c: "str_copy old name 64 s = Some (Ok c s)" "length c = 64" "c_string c = take 63 xs"
    using str_copy_run [OF name, of 64 old] len by auto
  have "str_copy old name 64 t = Some (Ok c t)" if "mem t = mem s" for t :: "'z hw_scheme"
  proof -
    have "denotes (mem t) name xs" using name that by simp
    from str_copy_from_run [OF this, of 0 64 old] str_copy_from_run [OF name, of 0 64 old] c(1) len
    show ?thesis by (simp add: str_copy_def)
  qed
  with c that show thesis by blast
qed

lemma modules_register_slot:
  fixes s :: "'z kernel_scheme"
  assumes "modules_inv s" and "mod_count s < 16"
    and "denotes (mem s) name xs" and "mapped start 4"
  shows "\<exists>m. modules_inv (s\<lparr>modules := (modules s)[unat (mod_count s) := m], mod_count := mod_count s + 1\<rparr>)
    \<and> module_info m = new_info (mem s) start stop xs
    \<and> modules_register start stop name s = (if read_le (mem s) start 4 = MODULE_MAGIC
        then Some (Ok () (s\<lparr>modules := (modules s)[unat (mod_count s) := m], mod_count := mod_count s + 1\<rparr>))
        else bind (warn_missing name) (\<lambda>_. modify (\<lambda>s. s\<lparr>mod_count := mod_count s + 1\<rparr>))
          (s\<lparr>modules := (modules s)[unat (mod_count s) := m]\<rparr>))"
proof -
  let ?n = "unat (mod_count s)"
  have n: "?n < 16" "?n < length (modules s)"
    using assms(2) modules_invD(1) [OF assms(1)] by (simp_all add: word_less_nat_alt)
  have n1: "unat (mod_count s + 1) = Suc ?n" by (rule unat_plus_one [OF assms(2)])
  let ?old = "modules s ! ?n"
  have len: "length (cmdline ?old) = 64" by (rule modules_invD(4) [OF assms(1) n(1)])
  from str_copy_slot [OF assms(3) len] obtain c where
    c: "\<And>t :: 'z kernel_scheme. mem t = mem s \<Longrightarrow> str_copy (cmdline ?old) name 64 t = Some (Ok c t)"
    "length c = 64" "c_string c = take 63 xs" by blast
  let ?ok = "read_le (mem s) start 4 = MODULE_MAGIC"
  define m where "m = \<lparr>mod_start = start, mod_end = stop, cmdline = c,
    state = (if ?ok then MODULE_STATE_LOADED else MODULE_STATE_FAILED), header = (if ?ok then start else 0)\<rparr>"
  obtain o1 o2 o3 o4 o5 where old: "?old = \<lparr>mod_start = o1, mod_end = o2, cmdline = o3, state = o4, header = o5\<rparr>"
    by (cases ?old) auto
  note c1 = c(1) [unfolded old, simplified]
  have "modules_inv (s\<lparr>modules := (modules s)[?n := m], mod_count := mod_count s + 1\<rparr>)"
    using assms(1) n n1 c(2) by (auto simp: modules_inv_def word_le_nat_alt m_def dest!: set_update_subset_insert [THEN subsetD])
  moreover have "module_info m = new_info (mem s) start stop xs"
    by (simp add: module_info_def new_info_def m_def c(3))
  moreover have "modules_register start stop name s = (if ?ok
        then Some (Ok () (s\<lparr>modules := (modules s)[?n := m], mod_count := mod_count s + 1\<rparr>))
        else bind (warn_missing name) (\<lambda>_. modify (\<lambda>s. s\<lparr>mod_count := mod_count s + 1\<rparr>))
          (s\<lparr>modules := (modules s)[?n := m]\<rparr>))"
  proof -
    have nf: "\<not> MAX_MODULES \<le> mod_count s" using assms(2) by (simp add: MAX_MODULES_def)
    show ?thesis
    proof (cases ?ok)
      case True
      then show ?thesis using n nf
        by (simp add: modules_register_def branch_run bind_run gets_run upd_module_run get_module_def
          c1 old header_magic_def load_run assms(4) modify_run skip_run m_def)
    next
      case False
      have "bind (seq [hal_console_print (str ''  [WARN] ''), hal_console_print name,
          hal_console_print (Lit (lit '': missing module header'' @ [0x0A]))]) k = bind (warn_missing name) k" for k :: "unit \<Rightarrow> (unit, 'z kernel_scheme) prog"
        by (simp add: warn_missing_def)
      with False show ?thesis using n nf
        by (simp add: modules_register_def branch_run bind_run gets_run upd_module_run get_module_def
          c1 old header_magic_def load_run assms(4) modify_run skip_run m_def warn_missing_def del: lit_Cons)
    qed
  qed
  ultimately show ?thesis by blast
qed

text \<open>
  Registering appends one entry to the table, or nothing when the table is full; a wait of
  the serial line may end it in between, with the console and the table well-formed.
\<close>

definition registers :: "u64 \<Rightarrow> u64 \<Rightarrow> u8 list \<Rightarrow> memory \<Rightarrow> module_info list \<Rightarrow> module_info list" where
  "registers start stop xs m is = (if length is < 16 then is @ [new_info m start stop xs] else is)"

lemma infos_update:
  assumes "modules_inv s" and "mod_count s < 16"
    and "t = s\<lparr>modules := (modules s)[unat (mod_count s) := m], mod_count := mod_count s + 1\<rparr>"
  shows "infos t = infos s @ [module_info m]"
proof -
  let ?n = "unat (mod_count s)"
  have "?n < length (modules s)"
    using assms(2) modules_invD(1) [OF assms(1)] by (simp add: word_less_nat_alt)
  then show ?thesis
    using unat_plus_one [OF assms(2)] by (simp add: assms(3) infos_def loaded_def take_Suc_conv_app_nth)
qed

text \<open>A module without a header: the warning, and the entry counts all the same.\<close>

lemma register_failed:
  fixes s u v :: "'z kernel_scheme"
  assumes u: "con_inv u" "modules_inv u" "denotes (mem u) name xs"
    and v: "v = u\<lparr>mod_count := mod_count u + 1\<rparr>" "modules_inv v"
  shows "\<exists>r. bind (warn_missing name) (\<lambda>_. modify (\<lambda>s. s\<lparr>mod_count := mod_count s + 1\<rparr>)) u = Some r
    \<and> good (\<lambda>_ t. con_inv t \<and> modules_inv t \<and> mem t = mem u \<and> infos t = infos v)
        (\<lambda>t. con_inv t \<and> modules_inv t \<and> mem t = mem u) r"
proof -
  have table: "modules_inv t = modules_inv w" "infos t = infos w"
    if "modules t = modules w" "mod_count t = mod_count w" for t w :: "'z kernel_scheme"
    using that by (simp_all add: modules_inv_def infos_def loaded_def)
  from warn_missing_spec [OF u(1,3)] obtain r where r: "warn_missing name u = Some r"
    "good (\<lambda>_ t. con_inv t \<and> mem t = mem u \<and> modules t = modules u \<and> mod_count t = mod_count u)
      (\<lambda>t. con_inv t \<and> mem t = mem u \<and> modules t = modules u \<and> mod_count t = mod_count u) r" by auto
  show ?thesis
  proof (cases r)
    case (Ok a t)
    let ?t = "t\<lparr>mod_count := mod_count t + 1\<rparr>"
    have "modules ?t = modules v" "mod_count ?t = mod_count v" using r Ok v(1) by simp_all
    with table [OF this] v(2) r Ok show ?thesis by (auto simp: bind_run modify_run)
  qed (use r table [of _ u] u(2) in \<open>auto simp: bind_run\<close>)
qed

lemma modules_register_spec:
  fixes s :: "'z kernel_scheme"
  assumes inv: "modules_inv s" "con_inv s" and name: "denotes (mem s) name xs" and "mapped start 4"
  shows "\<exists>r. modules_register start stop name s = Some r
    \<and> good (\<lambda>_ t. con_inv t \<and> modules_inv t \<and> mem t = mem s \<and> infos t = registers start stop xs (mem s) (infos s))
        (\<lambda>t. con_inv t \<and> modules_inv t \<and> mem t = mem s) r"
proof (cases "mod_count s < 16")
  case False
  then have "16 \<le> unat (mod_count s)" by (simp add: word_less_nat_alt)
  then have "\<not> length (infos s) < 16" using modules_invD(3) [OF inv(1)] by (simp add: infos_def)
  with False inv modules_register_full [of s] show ?thesis by (simp add: registers_def not_less)
next
  case True
  have len: "length (infos s) < 16"
    using True modules_invD(3) [OF inv(1)] by (simp add: infos_def word_less_nat_alt)
  from modules_register_slot [OF inv(1) True name assms(4), of stop] obtain m where
    m: "modules_inv (s\<lparr>modules := (modules s)[unat (mod_count s) := m], mod_count := mod_count s + 1\<rparr>)"
      "module_info m = new_info (mem s) start stop xs"
      "modules_register start stop name s = (if read_le (mem s) start 4 = MODULE_MAGIC
        then Some (Ok () (s\<lparr>modules := (modules s)[unat (mod_count s) := m], mod_count := mod_count s + 1\<rparr>))
        else bind (warn_missing name) (\<lambda>_. modify (\<lambda>s. s\<lparr>mod_count := mod_count s + 1\<rparr>))
          (s\<lparr>modules := (modules s)[unat (mod_count s) := m]\<rparr>))" by blast
  let ?u = "s\<lparr>modules := (modules s)[unat (mod_count s) := m]\<rparr>"
  let ?t = "s\<lparr>modules := (modules s)[unat (mod_count s) := m], mod_count := mod_count s + 1\<rparr>"
  have infos: "infos ?t = registers start stop xs (mem s) (infos s)"
    using infos_update [OF inv(1) True refl, of m] len m(2) by (simp add: registers_def)
  have u: "con_inv ?u" "modules_inv ?u" "denotes (mem ?u) name xs"
    using m(1) inv name by (simp_all add: modules_inv_def)
  show ?thesis
  proof (cases "read_le (mem s) start 4 = MODULE_MAGIC")
    case True
    with m inv infos show ?thesis by simp
  next
    case False
    from register_failed [OF u, of ?t] m(1) False show ?thesis unfolding m(3) by (simp add: infos)
  qed
qed

section \<open>Starting modules\<close>

text \<open>
  The contract of the code of the modules: it leaves the table alone and the headers of
  the table readable as before.
\<close>

locale module_code =
  fixes N :: headers
    and entry :: "u64 \<Rightarrow> (unit, 'z kernel_scheme) prog"
  assumes entry_table: "entry a s = Some (Ok () t) \<Longrightarrow> modules t = modules s \<and> mod_count t = mod_count s"
    and entry_headers: "entry a s = Some (Ok () t) \<Longrightarrow> headers_ok N (mem s) ms \<Longrightarrow> headers_ok N (mem t) ms"

definition startable :: "headers \<Rightarrow> module \<Rightarrow> bool" where
  "startable N m \<longleftrightarrow> state m = MODULE_STATE_LOADED \<and> header m \<noteq> 0 \<and> \<not> is_shell N m"

definition announce :: "headers \<Rightarrow> module \<Rightarrow> (unit, 'z kernel_scheme) prog" where
  "announce N m = seq [
     hal_console_print (str ''  [MOD] ''),
     hal_console_print (Lit (fst (N (header m)))),
     hal_console_print (str '' v''),
     hal_console_print (Lit (snd (N (header m)))),
     hal_console_print newline]"

definition start_as :: "(u64 \<Rightarrow> (unit, 'z kernel_scheme) prog) \<Rightarrow> nat \<Rightarrow> module \<Rightarrow> (unit, 'z kernel_scheme) prog" where
  "start_as entry i m = seq [
     upd_module i (\<lambda>m. m\<lparr>state := MODULE_STATE_RUNNING\<rparr>),
     entry (mod_start m + HEADER_SIZE)]"

text \<open>The reference: the modules to start are known before the first of them runs.\<close>

definition start_all :: "headers \<Rightarrow> (u64 \<Rightarrow> (unit, 'z kernel_scheme) prog) \<Rightarrow> module list \<Rightarrow> (unit, 'z kernel_scheme) prog" where
  "start_all N entry ms = for_each (filter (\<lambda>i. startable N (ms ! i)) [0..<length ms])
     (\<lambda>i. seq [announce N (ms ! i), start_as entry i (ms ! i)])"

lemma print_denotes:
  assumes "denotes (mem s) c xs"
  shows "hal_console_print c s = hal_console_print (Lit xs) s"
  by (simp add: hal_console_print_run [OF assms] hal_console_print_run [OF denotes_Lit [OF denotes_no_zero [OF assms]]])

text \<open>A string in memory is printed as its value, wherever the block prints it.\<close>

lemma print_header_run:
  fixes s :: "'z kernel_scheme"
  assumes "denotes (mem s) c xs" and "denotes (mem s) d ys"
  shows "seq [hal_console_print a, hal_console_print c, hal_console_print b, hal_console_print d, hal_console_print e] s
    = seq [hal_console_print a, hal_console_print (Lit xs), hal_console_print b, hal_console_print (Lit ys), hal_console_print e] s"
proof -
  have step: "bind (hal_console_print p) k t = bind (hal_console_print p') k' t"
    if "hal_console_print p t = hal_console_print p' t" "\<And>u. mem u = mem t \<Longrightarrow> k () u = k' () u"
    for p p' k k' and t :: "'z kernel_scheme"
  proof (rule bind_cong_at, rule that(1))
    fix a u assume "hal_console_print p t = Some (Ok a u)"
    from unchanged_OkD [OF unchanged_hal_console_print this, of mem]
    show "k a u = k' a u" using that(2) by simp
  qed
  show ?thesis
    unfolding seq.simps by (intro step) (simp_all add: print_denotes assms del: bind_skip_right)
qed

lemma unchanged_announce: "print_free f \<Longrightarrow> unchanged f (announce N m)"
  unfolding announce_def by (intro unchanged_intros)

text \<open>
  The table when the loop is done: the modules that were started are running. In the middle
  of the loop the entries before \<open>i\<close> are the ones of that table, the ones from \<open>i\<close> on are as
  they were.
\<close>

definition started_table :: "headers \<Rightarrow> module list \<Rightarrow> module list" where
  "started_table N = map (\<lambda>m. if startable N m then m\<lparr>state := MODULE_STATE_RUNNING\<rparr> else m)"

definition at_index :: "headers \<Rightarrow> module list \<Rightarrow> module list \<Rightarrow> nat \<Rightarrow> 'z kernel_scheme \<Rightarrow> bool" where
  "at_index N ms others i s \<longleftrightarrow> length ms \<le> 16 \<and> mod_count s = of_nat (length ms) \<and> headers_ok N (mem s) ms
     \<and> modules s = started_table N (take i ms) @ drop i ms @ others"

lemma at_index_get:
  assumes "at_index N ms others i s" and "i < length ms"
  shows "get_module i s = Some (Ok (ms ! i) s)"
proof -
  have "length (started_table N (take i ms)) = i" using assms(2) by (simp add: started_table_def)
  moreover have "drop i ms = ms ! i # drop (Suc i) ms" using assms(2) by (simp add: Cons_nth_drop_Suc)
  ultimately show ?thesis using assms by (simp add: get_module_def at_index_def nth_append)
qed

lemma at_index_step:
  assumes at: "at_index N ms others i s" and i: "i < length ms"
    and t: "modules t = (if startable N (ms ! i) then (modules s)[i := (ms ! i)\<lparr>state := MODULE_STATE_RUNNING\<rparr>] else modules s)"
    and "mod_count t = mod_count s" and "headers_ok N (mem t) ms"
  shows "at_index N ms others (Suc i) t"
proof -
  have "length (started_table N (take i ms)) = i" using i by (simp add: started_table_def)
  moreover have "drop i ms = ms ! i # drop (Suc i) ms" using i by (simp add: Cons_nth_drop_Suc)
  moreover have "started_table N (take (Suc i) ms) = started_table N (take i ms)
      @ [if startable N (ms ! i) then (ms ! i)\<lparr>state := MODULE_STATE_RUNNING\<rparr> else ms ! i]"
    using i by (simp add: started_table_def take_Suc_conv_app_nth)
  ultimately show ?thesis using assms by (simp add: at_index_def list_update_append)
qed

context module_code
begin

lemma run_module_run:
  fixes s :: "'z kernel_scheme"
  assumes at: "at_index N ms others i s" and i: "i < length ms"
  shows "run_module entry i s = (if startable N (ms ! i)
    then seq [announce N (ms ! i), start_as entry i (ms ! i)] s else skip s)"
proof -
  let ?m = "ms ! i"
  have g: "get_module i s = Some (Ok ?m s)" by (rule at_index_get [OF at i])
  have mem: "?m \<in> set ms" using i by simp
  show ?thesis
  proof (cases "state ?m = MODULE_STATE_LOADED \<and> header ?m \<noteq> 0")
    case False
    with g show ?thesis by (auto simp: run_module_def bind_run startable_def)
  next
    case True
    have hs: "headers_ok N (mem s) ms" using at by (simp add: at_index_def)
    note sh = module_is_entry_shell_run [OF hs mem]
    show ?thesis
    proof (cases "is_shell N ?m")
      case True
      with g sh show ?thesis by (simp add: run_module_def bind_run startable_def)
    next
      case False
      let ?k = "start_module entry i :: (unit, 'z kernel_scheme) prog"
      from hs mem True have d: "denotes (mem s) (header_name (header ?m)) (fst (N (header ?m)))"
        "denotes (mem s) (header_version (header ?m)) (snd (N (header ?m)))"
        by (auto simp: headers_ok_def)
      define b where "b = seq [
         hal_console_print (str ''  [MOD] ''), hal_console_print (header_name (header ?m)),
         hal_console_print (str '' v''), hal_console_print (header_version (header ?m)),
         hal_console_print newline :: (unit, 'z kernel_scheme) prog]"
      have "run_module entry i s = bind b (\<lambda>_. ?k) s"
        using g sh True False by (simp add: run_module_def bind_run [of _ _ s] b_def bind_assoc del: lit_Cons)
      also have "\<dots> = bind (announce N ?m) (\<lambda>_. start_as entry i ?m) s"
      proof (rule bind_cong_at)
        show b: "b s = announce N ?m s"
          unfolding b_def announce_def by (rule print_header_run [OF d])
        fix a u assume "b s = Some (Ok a u)"
        then have u: "announce N ?m s = Some (Ok a u)" by (simp only: b)
        have "modules u = modules s" by (rule unchanged_OkD [OF unchanged_announce u]) simp
        with g show "start_module entry i u = start_as entry i ?m u"
          by (auto simp: start_module_def start_as_def bind_run upd_module_def get_module_def skip_run split: if_splits)
      qed
      finally show ?thesis using True False by (simp add: startable_def)
    qed
  qed
qed

lemma at_index_Suc:
  assumes at: "at_index N ms others i s" and i: "i < length ms" and run: "run_module entry i s = Some (Ok () u)"
  shows "at_index N ms others (Suc i) u"
proof (cases "startable N (ms ! i)")
  case False
  with run_module_run [OF at i] run have "u = s" by (simp add: skip_run)
  with at i False show ?thesis by (intro at_index_step [OF at i]) (simp_all add: at_index_def)
next
  case True
  with run_module_run [OF at i] run
  have "bind (announce N (ms ! i)) (\<lambda>_. start_as entry i (ms ! i)) s = Some (Ok () u)" by simp
  then obtain v where v: "announce N (ms ! i) s = Some (Ok () v)" "start_as entry i (ms ! i) v = Some (Ok () u)"
    by (rule bind_OkD) simp
  have vs: "mem v = mem s" "modules v = modules s" "mod_count v = mod_count s"
    using unchanged_OkD [OF unchanged_announce v(1), of mem] unchanged_OkD [OF unchanged_announce v(1), of modules]
      unchanged_OkD [OF unchanged_announce v(1), of mod_count] by simp_all
  have m: "i < length (modules s)" "modules s ! i = ms ! i"
    using at_index_get [OF at i] by (simp_all add: get_module_def split: if_splits)
  with v(2) vs obtain w where w: "w = v\<lparr>modules := (modules v)[i := (ms ! i)\<lparr>state := MODULE_STATE_RUNNING\<rparr>]\<rparr>"
    and e: "entry (mod_start (ms ! i) + HEADER_SIZE) w = Some (Ok () u)"
    by (auto simp: start_as_def bind_run upd_module_def skip_run)
  have "headers_ok N (mem w) ms" using at w vs by (simp add: at_index_def)
  with entry_table [OF e] entry_headers [OF e] w vs True show ?thesis
    by (intro at_index_step [OF at i]) simp_all
qed

lemma modules_run_from_run:
  assumes "at_index N ms others i s" and "i \<le> length ms"
  shows "modules_run_from entry (of_nat i) s
    = for_each (filter (\<lambda>i. startable N (ms ! i)) [i..<length ms])
        (\<lambda>i. seq [announce N (ms ! i), start_as entry i (ms ! i)]) s"
  using assms
proof (induction "length ms - i" arbitrary: i s)
  case 0
  then have "i = length ms" by simp
  with 0 show ?case
    by (subst modules_run_from.simps) (simp add: bind_run gets_run at_index_def)
next
  case (Suc k)
  then have i: "i < length ms" by simp
  let ?body = "\<lambda>i. seq [announce N (ms ! i), start_as entry i (ms ! i)]"
  have "length ms \<le> 16" using Suc.prems(1) by (simp add: at_index_def)
  then have lt: "of_nat i < mod_count s" "unat (of_nat i :: u32) = i" "of_nat i + 1 = (of_nat (Suc i) :: u32)"
    using i Suc.prems(1) by (simp_all add: at_index_def word_less_nat_alt unat_of_nat)
  have "modules_run_from entry (of_nat i) s = bind (run_module entry i) (\<lambda>_. modules_run_from entry (of_nat (Suc i))) s"
    using lt(1,2) unfolding lt(3) [symmetric]
    by (subst modules_run_from.simps) (simp add: bind_run [of "gets mod_count"] gets_run)
  also have "\<dots> = bind (if startable N (ms ! i) then ?body i else skip)
      (\<lambda>_. for_each (filter (\<lambda>i. startable N (ms ! i)) [Suc i..<length ms]) ?body) s"
  proof (rule bind_cong_at)
    show "run_module entry i s = (if startable N (ms ! i) then ?body i else skip) s"
      using run_module_run [OF Suc.prems(1) i] by simp
    fix a u assume "run_module entry i s = Some (Ok a u)"
    then have "at_index N ms others (Suc i) u" using at_index_Suc [OF Suc.prems(1) i] by simp
    then show "modules_run_from entry (of_nat (Suc i)) u
        = for_each (filter (\<lambda>i. startable N (ms ! i)) [Suc i..<length ms]) ?body u"
      using Suc.hyps(2) i by (intro Suc.hyps(1)) simp_all
  qed
  also have "\<dots> = for_each (filter (\<lambda>i. startable N (ms ! i)) [i..<length ms]) ?body s"
    using i by (simp add: upt_conv_Cons)
  finally show ?case .
qed

lemma at_index_0:
  assumes "modules_inv s" and "headers_ok N (mem s) (loaded s)"
  shows "at_index N (loaded s) (drop (unat (mod_count s)) (modules s)) 0 s"
  using assms modules_invD [OF assms(1)] by (simp add: at_index_def started_table_def) (simp add: loaded_def)

lemma modules_run_all_run:
  assumes "modules_inv s" and "headers_ok N (mem s) (loaded s)"
  shows "modules_run_all entry s = start_all N entry (loaded s) s"
  using modules_run_from_run [OF at_index_0 [OF assms]] by (simp add: modules_run_all_def start_all_def)

text \<open>When the loop returns, the table holds the same modules, the started ones running.\<close>

lemma modules_run_from_table:
  assumes "at_index N ms others i s" and "i \<le> length ms" and "modules_run_from entry (of_nat i) s = Some (Ok () t)"
  shows "at_index N ms others (length ms) t"
  using assms
proof (induction "length ms - i" arbitrary: i s)
  case 0
  then have "i = length ms" by simp
  with 0 show ?case
    by (subst (asm) modules_run_from.simps) (simp add: bind_run gets_run at_index_def skip_run)
next
  case (Suc k)
  then have i: "i < length ms" by simp
  have "length ms \<le> 16" using Suc.prems(1) by (simp add: at_index_def)
  then have lt: "of_nat i < mod_count s" "unat (of_nat i :: u32) = i" "of_nat i + 1 = (of_nat (Suc i) :: u32)"
    using i Suc.prems(1) by (simp_all add: at_index_def word_less_nat_alt unat_of_nat)
  have "modules_run_from entry (of_nat i) s = bind (run_module entry i) (\<lambda>_. modules_run_from entry (of_nat (Suc i))) s"
    using lt(1,2) unfolding lt(3) [symmetric]
    by (subst modules_run_from.simps) (simp add: bind_run [of "gets mod_count"] gets_run)
  with Suc.prems(3) obtain u where u: "run_module entry i s = Some (Ok () u)"
    "modules_run_from entry (of_nat (Suc i)) u = Some (Ok () t)" by (auto elim: bind_OkD)
  from at_index_Suc [OF Suc.prems(1) i u(1)] u(2) Suc.hyps(2) i show ?case
    by (intro Suc.hyps(1) [of "Suc i" u]) simp_all
qed

lemma modules_run_all_table:
  assumes inv: "modules_inv s" and hs: "headers_ok N (mem s) (loaded s)" and run: "modules_run_all entry s = Some (Ok () t)"
  shows "modules_inv t" and "loaded t = started_table N (loaded s)" and "headers_ok N (mem t) (loaded t)"
proof -
  let ?others = "drop (unat (mod_count s)) (modules s)"
  have "at_index N (loaded s) ?others (length (loaded s)) t"
    using modules_run_from_table [OF at_index_0 [OF inv hs]] run by (simp add: modules_run_all_def)
  then have t: "modules t = started_table N (loaded s) @ ?others" "mod_count t = mod_count s" "headers_ok N (mem t) (loaded s)"
    using modules_invD [OF inv] by (simp_all add: at_index_def)
  have len: "length (started_table N (loaded s)) = unat (mod_count s)"
    using modules_invD [OF inv] by (simp add: started_table_def)
  with t show loaded: "loaded t = started_table N (loaded s)" by (simp add: loaded_def)
  have "length (cmdline m) = 64" if "m \<in> set (loaded s) \<union> set ?others" for m
    using inv that by (auto simp: modules_inv_def loaded_def dest: in_set_takeD in_set_dropD)
  then have "\<forall>m\<in>set (modules t). length (cmdline m) = 64" "length (modules t) = length (modules s)"
    unfolding t(1) using len modules_invD [OF inv] by (auto simp: started_table_def)
  with inv t(2) show "modules_inv t" by (simp add: modules_inv_def)
  show "headers_ok N (mem t) (loaded t)" using t(3) unfolding loaded by (auto simp: headers_ok_def started_table_def)
qed

end

section \<open>Launching the shell\<close>

text \<open>
  The shell that is launched: of the two names the first that a module with a header bears,
  where only the first module of each name counts.
\<close>

definition shell_choice :: "headers \<Rightarrow> module list \<Rightarrow> nat option" where
  "shell_choice N ms = (case List.map_filter (\<lambda>xs. first_index (named N xs) ms) SHELLS of
       [] \<Rightarrow> None
     | [i] \<Rightarrow> if header (ms ! i) \<noteq> 0 then Some i else None
     | i # j # _ \<Rightarrow> if header (ms ! i) \<noteq> 0 then Some i else if header (ms ! j) \<noteq> 0 then Some j else None)"

definition launch :: "headers \<Rightarrow> (u64 \<Rightarrow> (unit, 'z kernel_scheme) prog) \<Rightarrow> nat \<Rightarrow> module \<Rightarrow> (unit, 'z kernel_scheme) prog" where
  "launch N entry i m = seq [
     hal_console_print (Lit (0x0A # lit ''Launching '')),
     hal_console_print (Lit (fst (N (header m)))),
     hal_console_print (Lit (lit ''...'' @ [0x0A])),
     start_as entry i m]"

text \<open>The printed name is the one the header denotes.\<close>

lemma launch_denotes:
  fixes s :: "'z kernel_scheme"
  assumes inv: "modules_inv s" and i: "i < length (loaded s)"
    and d: "denotes (mem s) (header_name (header (loaded s ! i))) (fst (N (header (loaded s ! i))))"
  shows "seq [hal_console_print (Lit (0x0A # lit ''Launching '')),
      hal_console_print (header_name (header (loaded s ! i))),
      hal_console_print (Lit (lit ''...'' @ [0x0A])), start_module entry i] s = launch N entry i (loaded s ! i) s"
  unfolding launch_def seq.simps bind_skip_right
proof (rule bind_cong)
  let ?m = "loaded s ! i" and ?dots = "hal_console_print (Lit (lit ''...'' @ [0x0A])) :: (unit, 'z kernel_scheme) prog"
  fix a u assume "hal_console_print (Lit (0x0A # lit ''Launching '')) s = Some (Ok a u)"
  from unchanged_OkD [OF unchanged_hal_console_print this, of mem]
    unchanged_OkD [OF unchanged_hal_console_print this, of modules]
  have u: "mem u = mem s" "modules u = modules s" by simp_all
  show "bind (hal_console_print (header_name (header ?m))) (\<lambda>_. bind ?dots (\<lambda>_. start_module entry i)) u
    = bind (hal_console_print (Lit (fst (N (header ?m))))) (\<lambda>_. bind ?dots (\<lambda>_. start_as entry i ?m)) u"
  proof (rule bind_cong_at)
    show "hal_console_print (header_name (header ?m)) u = hal_console_print (Lit (fst (N (header ?m)))) u"
      using d u by (intro print_denotes) simp
    fix a v assume "hal_console_print (header_name (header ?m)) u = Some (Ok a v)"
    from unchanged_OkD [OF unchanged_hal_console_print this, of modules] u
    have v: "modules v = modules s" by simp
    show "bind ?dots (\<lambda>_. start_module entry i) v = bind ?dots (\<lambda>_. start_as entry i ?m) v"
    proof (rule bind_cong)
      fix a w assume "?dots v = Some (Ok a w)"
      from unchanged_OkD [OF unchanged_hal_console_print this, of modules] v
      have "modules w = modules s" by simp
      then show "start_module entry i w = start_as entry i ?m w"
        using i loaded_nth [OF inv] modules_invD(3) [OF inv]
        by (simp add: start_module_def start_as_def bind_run upd_module_def get_module_def skip_run)
    qed
  qed
qed

lemma launch_one:
  fixes s :: "'z kernel_scheme"
  assumes inv: "modules_inv s" and hs: "headers_ok N (mem s) (loaded s)"
    and name: "denotes (mem s) name xs"
  shows "launch_from entry (name # names) s = (case first_index (named N xs) (loaded s) of
      Some i \<Rightarrow> if header (loaded s ! i) \<noteq> 0 then launch N entry i (loaded s ! i) s else launch_from entry names s
    | None \<Rightarrow> launch_from entry names s)"
proof (cases "first_index (named N xs) (loaded s)")
  case None
  with modules_find_run [OF inv hs name] show ?thesis by (simp add: bind_run)
next
  case (Some i)
  then have i: "i < length (loaded s)" using first_index_Some by blast
  let ?m = "loaded s ! i"
  have g: "get_module i s = Some (Ok ?m s)"
    using get_module_run [OF inv] i modules_invD(3) [OF inv] by simp
  show ?thesis
  proof (cases "header ?m = 0")
    case True
    with Some g modules_find_run [OF inv hs name] show ?thesis by (simp add: bind_run)
  next
    case False
    have "?m \<in> set (loaded s)" using i by simp
    with hs False have d: "denotes (mem s) (header_name (header ?m)) (fst (N (header ?m)))"
      by (auto simp: headers_ok_def)
    have "launch_from entry (name # names) s = seq [
        hal_console_print (Lit (0x0A # lit ''Launching '')),
        hal_console_print (header_name (header ?m)),
        hal_console_print (Lit (lit ''...'' @ [0x0A])), start_module entry i] s"
      using Some g False modules_find_run [OF inv hs name] by (simp add: bind_run [of _ _ s] del: lit_Cons)
    with launch_denotes [where N = N and entry = entry, OF inv i d] Some False show ?thesis by simp
  qed
qed

lemma modules_launch_entry_run:
  assumes "modules_inv s" and "headers_ok N (mem s) (loaded s)"
  shows "modules_launch_entry entry s = (case shell_choice N (loaded s) of
      Some i \<Rightarrow> launch N entry i (loaded s ! i) s
    | None \<Rightarrow> hal_console_print (Lit (lit ''No entry executable found (COMMAND.KERN or command.com).'' @ [0x0A])) s)"
  unfolding modules_launch_entry_def launch_one [OF assms denotes_shells(1)] launch_one [OF assms denotes_shells(2)]
  by (simp add: shell_choice_def SHELLS_def List.map_filter_simps del: lit_Cons split: option.split)

text \<open>
  The started modules are not the shells, and whether a module is started does not change
  which shell is chosen: the two phases of the start-up compose.
\<close>

lemma shell_choice_started: "shell_choice N (started_table N ms) = shell_choice N ms"
proof -
  have "named N xs (if startable N m then m\<lparr>state := MODULE_STATE_RUNNING\<rparr> else m) = named N xs m" for xs m
    by (simp add: named_def)
  then have "first_index (named N xs) (started_table N ms) = first_index (named N xs) ms" for xs
    by (induction ms) (simp_all add: started_table_def)
  moreover have "header (started_table N ms ! i) = header (ms ! i)" if "i < length ms" for i
    using that by (simp add: started_table_def)
  ultimately show ?thesis
    by (auto simp: shell_choice_def SHELLS_def List.map_filter_simps dest: first_index_Some split: option.splits)
qed

lemma shell_not_startable:
  assumes "shell_choice N ms = Some i"
  shows "i < length ms \<and> is_shell N (ms ! i)"
proof -
  from assms have "first_index (named N (lit ''COMMAND.KERN'')) ms = Some i \<or> first_index (named N (lit ''command.com'')) ms = Some i"
    by (auto simp: shell_choice_def SHELLS_def List.map_filter_simps split: option.splits if_splits)
  then show ?thesis by (auto simp: is_shell_def SHELLS_def dest: first_index_Some)
qed

definition start_shell :: "headers \<Rightarrow> (u64 \<Rightarrow> (unit, 'z kernel_scheme) prog) \<Rightarrow> module list \<Rightarrow> (unit, 'z kernel_scheme) prog" where
  "start_shell N entry ms = (case shell_choice N ms of
      Some i \<Rightarrow> launch N entry i (ms ! i)
    | None \<Rightarrow> hal_console_print (Lit (lit ''No entry executable found (COMMAND.KERN or command.com).'' @ [0x0A])))"

context module_code
begin

lemma start_up_run:
  assumes "modules_inv s" and "headers_ok N (mem s) (loaded s)"
  shows "bind (modules_run_all entry) (\<lambda>_. bind (modules_launch_entry entry) k) s
    = bind (start_all N entry (loaded s)) (\<lambda>_. bind (start_shell N entry (loaded s)) k) s"
proof (rule bind_cong_at)
  show run: "modules_run_all entry s = start_all N entry (loaded s) s" by (rule modules_run_all_run [OF assms])
  fix a u assume "modules_run_all entry s = Some (Ok a u)"
  then have ok: "modules_run_all entry s = Some (Ok () u)" by simp
  note u = modules_run_all_table [OF assms ok]
  have "modules_launch_entry entry u = start_shell N entry (loaded s) u"
  proof (cases "shell_choice N (loaded s)")
    case None
    with modules_launch_entry_run [OF u(1,3)] show ?thesis
      by (simp add: u(2) shell_choice_started start_shell_def)
  next
    case (Some i)
    with shell_not_startable have "loaded u ! i = loaded s ! i" by (fastforce simp: u(2) started_table_def startable_def)
    with Some modules_launch_entry_run [OF u(1,3)] show ?thesis
      by (simp add: u(2) shell_choice_started start_shell_def)
  qed
  then show "bind (modules_launch_entry entry) k u = bind (start_shell N entry (loaded s)) k u"
    by (simp add: bind_run)
qed

end

end
