(* ===== verification/Services.thy ===== *)
theory Services imports Module_Table begin

text \<open>
  The kernel service table as its clients see it, \<open>kernel/module_abi.h\<close>: two interfaces. Under
  \<open>kernel_services\<close> a call keeps an invariant and never takes more input than there is, and a
  read of a character uses some up; \<open>line_input\<close> says in addition which characters the reads
  will return. The table of the kernel provides both, the second on the display console.
\<close>

section \<open>The interfaces\<close>

text \<open>\<open>within I budget n\<close>: the invariant, with at most \<open>n\<close> units of input left.\<close>

definition within :: "('s \<Rightarrow> bool) \<Rightarrow> ('s \<Rightarrow> nat) \<Rightarrow> nat \<Rightarrow> 's \<Rightarrow> bool" where
  "within I budget n s \<longleftrightarrow> I s \<and> budget s \<le> n"

locale kernel_services =
  fixes kst :: "'s kst"
    and inv :: "'s \<Rightarrow> bool"
    and budget :: "'s \<Rightarrow> nat"
  assumes print_keeps: "keeps (within inv budget n) (con_print kst (Lit xs))"
    and print_hex_keeps: "keeps (within inv budget n) (con_print_hex kst v)"
    and print_dec_keeps: "keeps (within inv budget n) (con_print_dec kst (ucast (w :: u32)))"
    and putchar_keeps: "keeps (within inv budget n) (con_putchar kst c)"
    and clear_keeps: "keeps (within inv budget n) (con_clear kst)"
    and getchar_takes: "spec (within inv budget n) (con_getchar kst)
      (\<lambda>c s. 0 \<le> c \<and> c < 256 \<and> inv s \<and> budget s < n) (within inv budget n)"
    and panic_ends: "spec (within inv budget n) (sys_panic kst (Lit xs)) (\<lambda>_ _. False) (within inv budget n)"
    and exit_ends: "spec (within inv budget n) (sys_exit kst code) (\<lambda>_ _. False) (within inv budget n)"

text \<open>
  A program that returns, does \<open>f\<close> to the screen, and leaves alone the characters to be read and
  what \<open>obs\<close> observes, the part of the state that has nothing to do with the console.
\<close>

definition says :: "('s \<Rightarrow> bool) \<Rightarrow> ('s \<Rightarrow> int list) \<Rightarrow> ('s \<Rightarrow> 'o) \<Rightarrow> ('s \<Rightarrow> 'd) \<Rightarrow> ('d \<Rightarrow> 'd) \<Rightarrow> (unit, 's) prog \<Rightarrow> bool" where
  "says I pending obs screen f m \<longleftrightarrow> (\<forall>s. I s \<longrightarrow>
     (\<exists>t. m s = Some (Ok () t) \<and> I t \<and> pending t = pending s \<and> obs t = obs s \<and> screen t = f (screen s)))"

lemma saysE:
  assumes "says I pending obs screen f m" and "I s"
  obtains t where "m s = Some (Ok () t)" and "I t" and "pending t = pending s" and "obs t = obs s" and "screen t = f (screen s)"
  using assms by (auto simp: says_def)

lemma says_seq_Nil: "says I pending obs screen id (seq [])"
  by (simp add: says_def skip_run)

lemma says_seq_Cons:
  "says I pending obs screen f m \<Longrightarrow> says I pending obs screen g (seq ms) \<Longrightarrow> says I pending obs screen (g \<circ> f) (seq (m # ms))"
  by (fastforce simp: says_def bind_run)

locale line_input =
  fixes kst :: "'s kst"
    and inv :: "'s \<Rightarrow> bool"
    and pending :: "'s \<Rightarrow> int list"
    and obs :: "'s \<Rightarrow> 'o"
    and screen :: "'s \<Rightarrow> 'd"
    and put :: "u8 \<Rightarrow> 'd \<Rightarrow> 'd"
    and wipe :: "'d \<Rightarrow> 'd"
  assumes pending_byte: "inv s \<Longrightarrow> c \<in> set (pending s) \<Longrightarrow> 0 < c \<and> c < 256"
    and getchar_pending: "inv s \<Longrightarrow> case pending s of
        [] \<Rightarrow> \<exists>t. con_getchar kst s = Some (Wait t) \<and> inv t \<and> obs t = obs s \<and> screen t = screen s
      | c # rest \<Rightarrow> \<exists>t. con_getchar kst s = Some (Ok c t) \<and> inv t \<and> pending t = rest \<and> obs t = obs s \<and> screen t = screen s"
    and print_says: "says inv pending obs screen (fold put (c_string xs)) (con_print kst (Lit xs))"
    and putchar_says: "says inv pending obs screen (put b) (con_putchar kst b)"
    and clear_says: "says inv pending obs screen wipe (con_clear kst)"

section \<open>Input that is left\<close>

text \<open>The reads of the two status ports that the scripts still have.\<close>

definition input_left :: "'z hw_scheme \<Rightarrow> nat" where
  "input_left s = length (port_in s KBD_STATUS) + length (port_in s (COM1 + 5))"

lemma input_ports [simp]: "KBD_STATUS \<noteq> COM1 + 5" "KBD_DATA \<noteq> COM1 + 5" "COM1 \<noteq> COM1 + 5" "COM1 \<noteq> KBD_STATUS" "COM1 + 5 \<noteq> KBD_STATUS" "COM1 + 5 \<noteq> KBD_DATA"
  by (simp_all add: KBD_STATUS_def KBD_DATA_def COM1_def)

text \<open>\<open>spends m\<close>: whatever the outcome of \<open>m\<close>, it leaves no more input than there was.\<close>

fun spends_from :: "'z hw_scheme \<Rightarrow> ('a, 'z hw_scheme) outcome \<Rightarrow> bool" where
  "spends_from s (Ok a t) = (input_left t \<le> input_left s)"
| "spends_from s (Halt t) = (input_left t \<le> input_left s)"
| "spends_from s (Wait t) = (input_left t \<le> input_left s)"
| "spends_from s (Trap v t) = (input_left t \<le> input_left s)"
| "spends_from s Undef = True"

definition spends :: "('a, 'z hw_scheme) prog \<Rightarrow> bool" where
  "spends m \<longleftrightarrow> (\<forall>s r. m s = Some r \<longrightarrow> spends_from s r)"

lemma spends_bind:
  assumes "spends m" and "\<And>a. spends (k a)"
  shows "spends (bind m k)"
proof -
  have "spends_from s r" if "bind m k s = Some r" for s r
  proof -
    from that obtain r' where r': "m s = Some r'" by (auto simp: bind_run split: option.splits)
    with assms(1) have m: "spends_from s r'" by (simp add: spends_def)
    show ?thesis
    proof (cases r')
      case (Ok a t)
      with r' that have "k a t = Some r" by (simp add: bind_run)
      with assms(2) have "spends_from t r" by (simp add: spends_def)
      with m Ok show ?thesis by (cases r) auto
    qed (use r' that m in \<open>auto simp: bind_run\<close>)
  qed
  then show ?thesis by (simp add: spends_def)
qed

lemma spends_leaves: "leaves input_left s r \<Longrightarrow> spends_from s r"
  by (cases r) simp_all

lemma spends_unchanged: "unchanged input_left m \<Longrightarrow> spends m"
  by (simp add: spends_def unchanged_def spends_leaves)

lemma spends_for_each: "(\<And>x. spends (f x)) \<Longrightarrow> spends (for_each xs f)"
  by (induction xs) (auto intro: spends_bind spends_unchanged unchanged_skip)

lemma spends_branch: "spends m \<Longrightarrow> spends k \<Longrightarrow> spends (branch c m k)"
  by (simp add: spends_def branch_run)

lemma spends_poll: "spends (poll port bits)"
proof -
  have "length (dropWhile P xs) \<le> length xs" for P and xs :: "u8 list" by (rule length_dropWhile_le)
  moreover have "spends_from s (poll_result port bits s)" for s :: "'a hw_scheme"
  proof (cases "dropWhile (\<lambda>v. v AND bits = 0) (port_in s port)")
    case (Cons v vs)
    then have "length vs \<le> length (port_in s port)"
      by (metis length_dropWhile_le length_Cons Suc_leD)
    with Cons show ?thesis by (auto simp: poll_result_def input_left_def)
  qed (auto simp: poll_result_def input_left_def simp del: dropWhile_eq_Nil_conv)
  ultimately show ?thesis by (simp add: spends_def poll_run)
qed

lemma spends_serial_putchar: "spends (serial_putchar c)"
  unfolding serial_putchar_def wait_transmit_empty_def seq.simps
  by (intro spends_bind spends_poll spends_unchanged unchanged_outb unchanged_skip) (simp add: input_left_def)

lemma vga_local_input_left [simp]: "vga_local input_left"
  by (simp add: vga_local_def input_left_def)

lemma spends_putchar: "spends (hal_console_putchar c)"
  unfolding hal_console_putchar_def
  by (intro spends_branch spends_serial_putchar spends_unchanged unchanged_vga_putchar vga_local_free vga_local_input_left)

lemma keeps_within:
  fixes m :: "('a, 'z hw_scheme) prog"
  assumes "keeps I m" and "spends m"
  shows "keeps (within I input_left n) m"
proof (rule keepsI)
  fix s assume s: "within I input_left n s"
  with assms(1) obtain r where r: "m s = Some r" "good (\<lambda>_. I) I r"
    by (auto simp: keeps_def within_def elim: specE)
  with assms(2) have "spends_from s r" by (simp add: spends_def)
  with r s show "\<exists>r. m s = Some r \<and> good (\<lambda>_. within I input_left n) (within I input_left n) r"
    by (cases r) (auto simp: within_def)
qed

lemma spends_cong: "(\<And>s. m s = k s) \<Longrightarrow> spends k \<Longrightarrow> spends m"
  by (simp add: spends_def)

lemma spends_print_Lit: "spends (hal_console_print (Lit xs))"
  by (rule spends_cong [OF con_dev.print_Lit]) (intro spends_for_each spends_putchar)

lemma spends_print_hex: "spends (hal_console_print_hex v)"
  by (rule spends_cong [OF con_dev.print_hex_puts]) (intro spends_for_each spends_putchar)

lemma spends_print_dec: "spends (hal_console_print_dec v)"
proof (cases "unat v < 10 ^ 19")
  case True
  then show ?thesis
    by (intro spends_cong [OF hal_console_print_dec_run]) (simp, intro spends_for_each spends_putchar)
next
  case False
  then show ?thesis by (simp add: spends_def hal_console_print_dec_run)
qed

lemma spends_clear: "spends hal_console_clear"
  unfolding hal_console_clear_def
  by (intro spends_branch spends_unchanged unchanged_vga_clear vga_local_free vga_local_input_left unchanged_skip)

lemma spends_panic_color: "spends hal_console_panic_color"
  unfolding hal_console_panic_color_def
  by (intro spends_branch spends_unchanged unchanged_vga_set_color vga_local_input_left unchanged_skip)

lemma spends_panic: "spends (hal_panic (Lit xs))"
  unfolding hal_panic_def seq.simps hal_cpu_disable_interrupts_def
  by (intro spends_bind spends_print_Lit spends_panic_color spends_unchanged unchanged_modify
      unchanged_skip unchanged_hal_cpu_halt) (simp add: input_left_def)

text \<open>A read of a character takes at least one status byte.\<close>

lemma keyboard_getchar_spends:
  assumes "keyboard_getchar s = Some r"
  shows "spends_from s r \<and> (\<forall>c t. r = Ok c t \<longrightarrow> input_left t < input_left s)"
  using assms
proof (rule keyboard_getchar.raw_induct [where P = "\<lambda>s r. spends_from s r \<and> (\<forall>c t. r = Ok c t \<longrightarrow> input_left t < input_left s)", rotated])
  fix rec s r
  assume IH: "\<And>s r. rec s = Some r \<Longrightarrow> spends_from s r \<and> (\<forall>c t. r = Ok c t \<longrightarrow> input_left t < input_left s)"
    and eq: "bind (inb KBD_STATUS) (\<lambda>v. if v AND 0x01 = 0 then rec
       else bind (inb KBD_DATA) (\<lambda>sc. bind (kbd_process sc) (\<lambda>ch. if ch \<noteq> 0 then ret ch else rec))) s = Some r"
  show "spends_from s r \<and> (\<forall>c t. r = Ok c t \<longrightarrow> input_left t < input_left s)"
  proof (cases "port_in s KBD_STATUS")
    case Nil
    with eq show ?thesis by (auto simp: bind_run inb_Nil)
  next
    case (Cons v vs)
    let ?s = "s\<lparr>port_in := (port_in s)(KBD_STATUS := vs)\<rparr>"
    have less: "input_left ?s < input_left s" using Cons by (simp add: input_left_def)
    have rec: "spends_from s r \<and> (\<forall>c t. r = Ok c t \<longrightarrow> input_left t < input_left s)"
      if "rec u = Some r" "input_left u \<le> input_left ?s" for u
      using IH [OF that(1)] that(2) less by (cases r) auto
    show ?thesis
    proof (cases "v AND 0x01 = 0")
      case True
      with eq have "rec ?s = Some r" by (simp add: bind_run inb_Cons [OF Cons])
      then show ?thesis by (rule rec) simp
    next
      case full: False
      show ?thesis
      proof (cases "port_in s KBD_DATA")
        case Nil
        with eq full less show ?thesis by (auto simp: bind_run inb_Cons [OF Cons] inb_Nil)
      next
        case data: (Cons sc scs)
        obtain a b ch where d: "kbd_decode (kbd_flags s) sc = ((a, b), ch)" by (metis surj_pair)
        let ?t = "?s\<lparr>port_in := (port_in ?s)(KBD_DATA := scs), shift_held := a, extended := b\<rparr>"
        have t: "input_left ?t = input_left ?s" by (simp add: input_left_def)
        have "(if ch \<noteq> 0 then Some (Ok ch ?t) else rec ?t) = Some r"
          using eq full d by (simp add: bind_run inb_Cons [OF Cons] inb_Cons [where vs = scs] data kbd_process_run ret_run split: if_splits)
        then show ?thesis using t less rec [of ?t] by (auto split: if_splits)
      qed
    qed
  qed
qed


lemma serial_getchar_spends:
  assumes "serial_getchar s = Some r"
  shows "spends_from s r \<and> (\<forall>c t. r = Ok c t \<longrightarrow> input_left t < input_left s)"
proof (cases "dropWhile (\<lambda>v. v AND 0x01 = 0) (port_in s (COM1 + 5))")
  case Nil
  with assms show ?thesis
    by (auto simp: serial_getchar_def wait_data_ready_def bind_run poll_run poll_result_def input_left_def
        simp del: dropWhile_eq_Nil_conv)
next
  case (Cons v vs)
  then have "length vs < length (port_in s (COM1 + 5))"
    by (metis length_dropWhile_le length_Cons Suc_le_eq)
  with Cons assms show ?thesis
    by (auto simp: serial_getchar_def wait_data_ready_def bind_run poll_run poll_result_def input_left_def
        inb_def ret_run split: list.splits)
qed

lemma hal_console_getchar_spends:
  assumes "hal_console_getchar s = Some r"
  shows "spends_from s r \<and> (\<forall>c t. r = Ok c t \<longrightarrow> input_left t < input_left s)"
  using assms keyboard_getchar_spends serial_getchar_spends
  by (auto simp: hal_console_getchar_def branch_run split: if_splits)

section \<open>Programs that come to an end\<close>

text \<open>
  \<open>settles I m\<close>: from every state in \<open>I\<close> the program ends, by a fault if need be, and when
  it returns it returns in \<open>I\<close>. It is what can be asked of a program that came over the line.
\<close>

definition settles :: "('s \<Rightarrow> bool) \<Rightarrow> ('a, 's) prog \<Rightarrow> bool" where
  "settles I m \<longleftrightarrow> (\<forall>s. I s \<longrightarrow> m s \<noteq> None \<and> (\<forall>a t. m s = Some (Ok a t) \<longrightarrow> I t))"

lemma settlesD: "settles I m \<Longrightarrow> I s \<Longrightarrow> m s \<noteq> None"
  by (simp add: settles_def)

lemma settles_OkD: "settles I m \<Longrightarrow> I s \<Longrightarrow> m s = Some (Ok a t) \<Longrightarrow> I t"
  by (simp add: settles_def)

named_theorems settles_intros

lemma settles_keeps: "keeps I m \<Longrightarrow> settles I m"
  unfolding settles_def keeps_def spec_def by (intro allI impI conjI) (drule spec, drule (1) mp, force split: option.splits)+

lemma settlesI:
  assumes "\<And>s. I s \<Longrightarrow> m s \<noteq> None" and "\<And>s a t. I s \<Longrightarrow> m s = Some (Ok a t) \<Longrightarrow> I t"
  shows "settles I m"
  unfolding settles_def using assms by blast

lemma settles_bind [settles_intros]:
  assumes m: "settles I m" and k: "\<And>a. settles I (k a)"
  shows "settles I (bind m k)"
proof (rule settlesI)
  fix s assume "I s"
  with settlesD [OF m] settlesD [OF k settles_OkD [OF m]] show "bind m k s \<noteq> None"
    by (intro bind_stops_at) blast+
  fix a t assume "bind m k s = Some (Ok a t)"
  then obtain b u where "m s = Some (Ok b u)" "k b u = Some (Ok a t)"
    by (auto simp: bind_run split: option.splits outcome.splits)
  with settles_OkD [OF k settles_OkD [OF m]] \<open>I s\<close> show "I t" by blast
qed

lemma settles_basic [settles_intros]:
  "settles I skip" "settles I (ret a)" "settles I (gets f)" "settles I halt" "settles I undef"
  by (simp_all add: settles_def skip_run ret_run gets_run halt_run undef_run)

lemma settles_modify [settles_intros]: "(\<And>s. I s \<Longrightarrow> I (f s)) \<Longrightarrow> settles I (modify f)"
  by (simp add: settles_def modify_run)

lemma settles_if [settles_intros]: "(c \<Longrightarrow> settles I m) \<Longrightarrow> (\<not> c \<Longrightarrow> settles I k) \<Longrightarrow> settles I (if c then m else k)"
  by simp

lemma settles_branch [settles_intros]: "settles I m \<Longrightarrow> settles I k \<Longrightarrow> settles I (branch c m k)"
  by (rule settlesI; unfold branch_run) (auto split: if_splits dest: settlesD settles_OkD)

lemma settles_seq [settles_intros]: "settles I (seq [])" "settles I m \<Longrightarrow> settles I (seq ms) \<Longrightarrow> settles I (seq (m # ms))"
  by (simp_all add: settles_bind settles_basic)

lemma settles_stops:
  assumes "stops m" and "spends m" and "unchanged con_inv m"
  shows "settles (within con_inv input_left n) m"
proof -
  have "m s \<noteq> None" for s using assms(1) by (simp add: stops_def)
  moreover have "input_left t \<le> input_left s \<and> con_inv t = con_inv s" if "m s = Some (Ok a t)" for s a t
    using assms(2) that unchanged_OkD [OF assms(3) that] by (fastforce simp: spends_def)
  ultimately show ?thesis by (fastforce simp: settles_def within_def)
qed

lemma settles_for_each [settles_intros]: "(\<And>x. settles I (f x)) \<Longrightarrow> settles I (for_each xs f)"
  by (induction xs) (auto intro!: settles_intros)

section \<open>The kernel provides the services\<close>

lemma con_inv_keeps:
  "keeps con_inv (hal_console_print (Lit xs))" "keeps con_inv (hal_console_print_hex v)"
  "keeps con_inv hal_console_clear" "keeps con_inv (hal_console_putchar c)"
  "unat w < 10 ^ 19 \<Longrightarrow> keeps con_inv (hal_console_print_dec w)"
  unfolding con_and_True [symmetric] by (intro keeps_intros; simp)+

lemma within_panic:
  fixes xs :: "u8 list"
  shows "spec (within con_inv input_left n) (hal_panic (Lit xs) :: ('a, 'z hal_scheme) prog) (\<lambda>_ _. False)
    (within con_inv input_left n)"
proof (rule specI)
  fix s :: "'z hal_scheme" assume s: "within con_inv input_left n s"
  then have "con_inv s" by (simp add: within_def)
  from hal_panic_lit [OF this] obtain t and r :: "('a, 'z hal_scheme) outcome" where
    r: "hal_panic (Lit xs) s = Some r" "r = Halt t \<or> r = Wait t" "con_inv t" by blast
  have "spends (hal_panic (Lit xs) :: ('a, 'z hal_scheme) prog)" by (rule spends_panic)
  with r(1) have "spends_from s r" by (simp add: spends_def)
  with r s show "\<exists>r. (hal_panic (Lit xs) :: ('a, 'z hal_scheme) prog) s = Some r
      \<and> good (\<lambda>_ _. False) (within con_inv input_left n) r"
    by (auto simp: within_def)
qed

interpretation kernel: kernel_services kernel_kst con_inv input_left
proof
  fix n :: nat and xs :: "u8 list" and v :: u64 and w :: u32 and c :: u8 and code :: int
  let ?I = "within con_inv input_left n :: 'z kernel_scheme \<Rightarrow> bool"
  have "unat (ucast w :: u64) < 2 ^ 32" using unsigned_less [of w, where 'a = nat] by (simp add: unat_ucast_up)
  then have w: "unat (ucast w :: u64) < 10 ^ 19" by simp
  show "keeps ?I (con_print kernel_kst (Lit xs))"
    by (simp add: keeps_within con_inv_keeps spends_print_Lit)
  show "keeps ?I (con_print_hex kernel_kst v)"
    by (simp add: keeps_within con_inv_keeps spends_print_hex)
  show "keeps ?I (con_print_dec kernel_kst (ucast w))"
    by simp (rule keeps_within [OF con_inv_keeps(5) [OF w] spends_print_dec])
  show "keeps ?I (con_putchar kernel_kst c)"
    by (simp add: keeps_within con_inv_keeps spends_putchar)
  show "keeps ?I (con_clear kernel_kst)"
    by (simp add: keeps_within con_inv_keeps spends_clear)
  show "spec ?I (sys_panic kernel_kst (Lit xs)) (\<lambda>_ _. False) ?I"
    by (simp add: within_panic)
  show "spec ?I (sys_exit kernel_kst code) (\<lambda>_ _. False) ?I"
    by (simp add: kst_exit_def within_panic del: lit_Cons)
  show "spec ?I (con_getchar kernel_kst) (\<lambda>c s. 0 \<le> c \<and> c < 256 \<and> con_inv s \<and> input_left s < n) ?I"
  proof (rule specI)
    fix s :: "'z kernel_scheme" assume s: "?I s"
    have "spec con_inv hal_console_getchar (\<lambda>ch s. con_inv s \<and> 0 \<le> ch \<and> ch < 256)
        (con_inv :: 'z kernel_scheme \<Rightarrow> bool)"
      using hal_console_getchar_spec [of "\<lambda>_. True"] by simp
    then obtain r where r: "hal_console_getchar s = Some r" "good (\<lambda>ch s. con_inv s \<and> 0 \<le> ch \<and> ch < 256) con_inv r"
      using s by (auto simp: within_def elim: specE)
    with hal_console_getchar_spends [OF r(1)] s
    show "\<exists>r. con_getchar kernel_kst s = Some r
        \<and> good (\<lambda>c s. 0 \<le> c \<and> c < 256 \<and> con_inv s \<and> input_left s < n) ?I r"
      by (cases r) (auto simp: within_def)
  qed
qed

section \<open>The display console as a source of characters\<close>

lemma kbd_scan_shorter: "kbd_scan st scs = Some (ch, st', rest) \<Longrightarrow> length rest < length scs"
  by (induction st scs rule: kbd_scan.induct) (fastforce split: prod.splits if_splits)+

function kbd_chars :: "bool \<times> bool \<Rightarrow> u8 list \<Rightarrow> int list" where
  "kbd_chars st scs = (case kbd_scan st scs of None \<Rightarrow> []
     | Some (ch, st', rest) \<Rightarrow> ch # kbd_chars st' rest)"
  by pat_completeness auto
termination
  by (relation "measure (\<lambda>(st, scs). length scs)") (auto dest: kbd_scan_shorter)

declare kbd_chars.simps [simp del]

definition typed :: "'z kbd_scheme \<Rightarrow> int list" where
  "typed s = kbd_chars (kbd_flags s) (available s)"

definition on_display :: "'z hal_scheme \<Rightarrow> bool" where
  "on_display s \<longleftrightarrow> vga_inv s \<and> active_console s = HAL_CONSOLE_VGA"

lemma kbd_chars_ascii: "c \<in> set (kbd_chars st scs) \<Longrightarrow> 0 < c \<and> c < 128"
proof (induction st scs rule: kbd_chars.induct)
  case (1 st scs)
  show ?case
  proof (cases "kbd_scan st scs")
    case None
    with 1(2) show ?thesis by (simp add: kbd_chars.simps)
  next
    case (Some r)
    obtain ch a b rest where r: "r = (ch, (a, b), rest)" by (metis surj_pair)
    with Some 1(2) have "c = ch \<or> c \<in> set (kbd_chars (a, b) rest)" by (simp add: kbd_chars.simps [of st])
    with Some r 1(1) kbd_scan_ascii [of st scs] show ?thesis by auto
  qed
qed

lemma typed_local: "vga_local typed"
  by (simp add: vga_local_def typed_def kbd_flags_def available_def n_full_def)

lemma typed_mem [simp]: "typed (s\<lparr>mem := x\<rparr>) = typed s"
  by (simp add: typed_def kbd_flags_def available_def n_full_def)

text \<open>The state without what the display and the keyboard change.\<close>

definition off_display :: "'z kbd_scheme \<Rightarrow> 'z kbd_scheme" where
  "off_display s = s\<lparr>port_out := [], port_in := (port_in s)(KBD_STATUS := [], KBD_DATA := []),
     vram := [], buffer := 0, cursor_row := 0, cursor_col := 0, current_color := 0,
     shift_held := False, extended := False\<rparr>"

lemma off_display_local: "vga_local off_display" "kbd_free off_display"
  by (simp_all add: vga_local_def kbd_free_def off_display_def KBD_STATUS_def KBD_DATA_def fun_upd_twist)

text \<open>What is read from the rest is the same before and after.\<close>

lemma off_displayD:
  assumes "off_display t = off_display s" and "\<And>s. f (off_display s) = f s"
  shows "f t = f s"
  using assms by metis

lemma off_display_mem: "off_display t = off_display s \<Longrightarrow> mem t = mem s"
  by (erule off_displayD) (simp add: off_display_def)

lemma on_display_mem: "on_display (s\<lparr>mem := x\<rparr>) = on_display s"
  by (simp add: on_display_def vga_inv_def)

lemma display_rest_local: "vga_local (\<lambda>s. (active_console s, typed s, off_display s))"
  by (simp add: vga_local_def typed_local [unfolded vga_local_def] off_display_local(1) [unfolded vga_local_def])

lemma display_for_each:
  assumes "on_display s"
  shows "\<exists>t. for_each xs hal_console_putchar s = Some (Ok () t) \<and> on_display t \<and> typed t = typed s
    \<and> off_display t = off_display s \<and> vga_abs t = fold term_put xs (vga_abs s)"
proof -
  have s: "vga_inv s" "\<not> on_serial s" using assms by (simp_all add: on_display_def on_serial_def)
  from vga_for_each_run [OF s(1)] obtain t where
    t: "for_each xs vga_putchar s = Some (Ok () t)" "vga_inv t" "vga_abs t = fold term_put xs (vga_abs s)" by blast
  from unchanged_OkD [OF unchanged_for_each [OF unchanged_vga_putchar [OF vga_local_free [OF display_rest_local]]] t(1)] t s assms
  show ?thesis by (auto simp: for_each_hal_console_putchar branch_run on_display_def)
qed

lemma display_clear:
  assumes "on_display s"
  shows "\<exists>t. hal_console_clear s = Some (Ok () t) \<and> on_display t \<and> typed t = typed s
    \<and> off_display t = off_display s \<and> vga_abs t = term_clear (vga_abs s)"
proof -
  have s: "vga_inv s" using assms by (simp add: on_display_def)
  with vga_clear_implements obtain t where t: "vga_clear s = Some (Ok () t)" "vga_inv t" "vga_abs t = term_clear (vga_abs s)"
    unfolding implements_def by blast
  from unchanged_OkD [OF unchanged_vga_clear [OF vga_local_free [OF display_rest_local]] t(1)] t assms
  show ?thesis by (auto simp: hal_console_clear_def branch_run on_display_def)
qed

lemma display_getchar:
  fixes s :: "'z hal_scheme"
  assumes s: "on_display s"
  shows "case typed s of
      [] \<Rightarrow> \<exists>t. hal_console_getchar s = Some (Wait t) \<and> on_display t \<and> off_display t = off_display s \<and> vga_abs t = vga_abs s
    | c # rest \<Rightarrow> \<exists>t. hal_console_getchar s = Some (Ok c t) \<and> on_display t \<and> typed t = rest
        \<and> off_display t = off_display s \<and> vga_abs t = vga_abs s"
proof -
  have get: "hal_console_getchar s = keyboard_getchar s"
    using s by (simp add: hal_console_getchar_def branch_run on_display_def on_serial_def)
  have loc: "kbd_free (\<lambda>s :: 'z hal_scheme. (on_display s, off_display s, vga_abs s))"
    using off_display_local(2) by (simp add: kbd_free_def on_display_def vga_inv_def vga_abs_def)
  note frame = unchangedD [OF keyboard_getchar_frame [OF loc]]
  show ?thesis
  proof (cases "kbd_scan (kbd_flags s) (available s)")
    case None
    then have "typed s = []" by (simp add: typed_def kbd_chars.simps)
    moreover from None keyboard_getchar_scan [of s] obtain t where t: "keyboard_getchar s = Some (Wait t)" by auto
    ultimately show ?thesis using s get frame [OF t] by auto
  next
    case (Some r)
    obtain ch st rest where r: "r = (ch, st, rest)" by (cases r)
    with Some have "typed s = ch # kbd_chars st rest"
      by (simp add: typed_def kbd_chars.simps [of "kbd_flags s"])
    moreover from Some r keyboard_getchar_scan [of s] obtain t where
      t: "keyboard_getchar s = Some (Ok ch t)" "kbd_flags t = st" "available t = rest" by auto
    ultimately show ?thesis using s get frame [OF t(1)] by (auto simp: typed_def)
  qed
qed

interpretation display: line_input kernel_kst on_display typed off_display vga_abs term_put term_clear
proof
  fix s :: "'z kernel_scheme" and xs :: "u8 list" and b :: u8 and c :: int
  let ?says = "says on_display typed off_display vga_abs :: _ \<Rightarrow> (unit, 'z kernel_scheme) prog \<Rightarrow> bool"
  show "0 < c \<and> c < 256" if "c \<in> set (typed s)"
    using kbd_chars_ascii that by (fastforce simp: typed_def)
  show "?says (fold term_put (c_string xs)) (con_print kernel_kst (Lit xs))"
    unfolding says_def kernel_kst_sel con_dev.print_Lit c_string_def using display_for_each by blast
  show "?says (term_put b) (con_putchar kernel_kst b)"
    unfolding says_def kernel_kst_sel using display_for_each [of _ "[b]"] by simp blast
  show "?says term_clear (con_clear kernel_kst)"
    unfolding says_def kernel_kst_sel using display_clear by blast
  show "case typed s of
      [] \<Rightarrow> \<exists>t. con_getchar kernel_kst s = Some (Wait t) \<and> on_display t \<and> off_display t = off_display s \<and> vga_abs t = vga_abs s
    | c # rest \<Rightarrow> \<exists>t. con_getchar kernel_kst s = Some (Ok c t) \<and> on_display t \<and> typed t = rest
        \<and> off_display t = off_display s \<and> vga_abs t = vga_abs s"
    if "on_display s"
    unfolding kernel_kst_sel by (rule display_getchar [OF that])
qed

lemma display_print:
  "0 \<notin> set xs \<Longrightarrow> says on_display typed off_display vga_abs (fold term_put xs) (con_print kernel_kst (Lit xs))"
  using display.print_says [of xs] c_string_id [of xs] by simp

end
