(* ===== verification/Kelf.thy ===== *)
theory Kelf imports Services begin

text \<open>
  The KELF transfer over COM2, \<open>command_kern/transfer.c\<close>, a client of the service table.
  \<open>com2_initialized\<close> and the other static variables of the shell are a record of their own
  on top of the kernel's state.
\<close>

record shell = kernel +
  com2_initialized :: bool
  exc_caught :: bool
  exc_vec :: u64
  exc_rip :: u64
  exc_err :: u64
  exc_restore_rsp :: u64

definition COM2 :: u16 where
  "COM2 = 0x2F8"

definition KELF_MAX_SIZE :: u32 where
  "KELF_MAX_SIZE = 2 * 1024 * 1024"

definition com2_init :: "(unit, 'z shell_scheme) prog" where
  "com2_init = seq [
     outb (COM2 + 1) 0x00,
     outb (COM2 + 3) 0x80,
     outb (COM2 + 0) 0x01,
     outb (COM2 + 1) 0x00,
     outb (COM2 + 3) 0x03,
     outb (COM2 + 2) 0xC7,
     outb (COM2 + 4) 0x0B,
     modify (\<lambda>s. s\<lparr>com2_initialized := True\<rparr>)]"

definition com2_recv_byte :: "(u8, 'z hw_scheme) prog" where
  "com2_recv_byte = bind (poll (COM2 + 5) 0x01) (\<lambda>_. inb COM2)"

text \<open>Into a local array (the bytes it will hold) and into memory.\<close>

primrec com2_recv_list :: "nat \<Rightarrow> (u8 list, 'z hw_scheme) prog" where
  "com2_recv_list 0 = ret []"
| "com2_recv_list (Suc n) = bind com2_recv_byte (\<lambda>b. bind (com2_recv_list n) (\<lambda>bs. ret (b # bs)))"

definition com2_recv_buf :: "u64 \<Rightarrow> u32 \<Rightarrow> (unit, 'z hw_scheme) prog" where
  "com2_recv_buf buf n = for_word 0 n (\<lambda>i. bind com2_recv_byte (store8 (buf + ucast i)))"

definition size_of_bytes :: "u8 list \<Rightarrow> u32" where
  "size_of_bytes szb = ucast (szb ! 0) OR push_bit 8 (ucast (szb ! 1))
     OR push_bit 16 (ucast (szb ! 2)) OR push_bit 24 (ucast (szb ! 3))"

text \<open>\<open>None\<close> is the result 0; \<open>Some (buf, size)\<close> is 1 with the two outputs.\<close>

definition transfer_recv_elf :: "'z shell_scheme kst \<Rightarrow> ((u64 \<times> u32) option, 'z shell_scheme) prog" where
  "transfer_recv_elf kst =
     bind (branch com2_initialized skip com2_init) (\<lambda>_.
     bind (com2_recv_list 4) (\<lambda>magic.
     if magic ! 0 \<noteq> 0x4B \<or> magic ! 1 \<noteq> 0x45 \<or> magic ! 2 \<noteq> 0x4C \<or> magic ! 3 \<noteq> 0x46 then ret None
     else bind (com2_recv_list 4) (\<lambda>szb. let sz = size_of_bytes szb in
     if sz = 0 \<or> sz > KELF_MAX_SIZE then ret None
     else bind (mem_sbrk kst (ucast sz)) (\<lambda>buf.
     if buf = - 1 then ret None
     else bind (com2_recv_buf buf sz) (\<lambda>_. ret (Some (buf, sz)))))))"

section \<open>The bytes on the line\<close>

text \<open>
  \<open>com2_bytes s\<close> is what the line is going to deliver: as many bytes of the data port as the
  status port will report. A receive takes them from its front and only moves the scripts.
\<close>

definition com2_line :: "(u16 \<Rightarrow> u8 list) \<Rightarrow> u8 list" where
  "com2_line i = take (length (filter (\<lambda>v. v AND 0x01 \<noteq> 0) (i (COM2 + 5)))) (i COM2)"

definition com2_bytes :: "'z hw_scheme \<Rightarrow> u8 list" where
  "com2_bytes s = com2_line (port_in s)"

lemma com2_ports [simp]: "COM2 + 5 \<noteq> COM2" "COM2 \<noteq> COM2 + 5"
  by (simp_all add: COM2_def)

text \<open>A receive of \<open>k\<close> bytes takes the scripts from \<open>i\<close> to \<open>p\<close>; the other ports are not touched.\<close>

definition took :: "nat \<Rightarrow> (u16 \<Rightarrow> u8 list) \<Rightarrow> (u16 \<Rightarrow> u8 list) \<Rightarrow> bool" where
  "took k i p \<longleftrightarrow> com2_line p = drop k (com2_line i) \<and> (\<forall>q. q \<noteq> COM2 \<and> q \<noteq> COM2 + 5 \<longrightarrow> p q = i q)"

lemma took_0 [simp]: "took 0 i i"
  by (simp add: took_def)

lemma took_line: "took k i p \<Longrightarrow> com2_line p = drop k (com2_line i)"
  by (simp add: took_def)

lemma took_trans: "took k i p \<Longrightarrow> took l p q \<Longrightarrow> took (k + l) i q"
  by (simp add: took_def add.commute)

lemma took_Suc: "took 1 i p \<Longrightarrow> took k p q \<Longrightarrow> took (Suc k) i q"
  using took_trans [of 1 i p k q] by simp

lemma took_trans4: "took 4 i p \<Longrightarrow> took (4 + n) p q \<Longrightarrow> took (8 + n) i q"
  using took_trans [of 4 i p "4 + n" q] by simp

lemma com2_recv_byte_run:
  "case com2_bytes s of
     [] \<Rightarrow> \<exists>t. com2_recv_byte s = Some (Wait t)
   | b # bs \<Rightarrow> \<exists>p. took 1 (port_in s) p \<and> com2_recv_byte s = Some (Ok b (s\<lparr>port_in := p\<rparr>))"
proof -
  let ?ready = "\<lambda>v :: u8. v AND 0x01 \<noteq> 0" and ?st = "port_in s (COM2 + 5)"
  show ?thesis
  proof (cases "dropWhile (\<lambda>v. v AND 0x01 = 0) ?st")
    case Nil
    then have "filter ?ready ?st = []" by (simp add: filter_empty_conv)
    moreover from Nil have "\<exists>t. com2_recv_byte s = Some (Wait t)"
      by (simp add: com2_recv_byte_def bind_run poll_run poll_result_def del: dropWhile_eq_Nil_conv)
    ultimately show ?thesis by (simp add: com2_bytes_def com2_line_def)
  next
    case (Cons v vs)
    then have "?ready v" using hd_dropWhile [of "\<lambda>v. v AND 0x01 = 0" ?st] by simp
    then have f: "filter ?ready ?st = v # filter ?ready vs"
      using filter_dropWhile_not [of ?ready ?st] Cons by simp
    let ?p = "(port_in s)(COM2 + 5 := vs)"
    have poll: "poll (COM2 + 5) 0x01 s = Some (Ok () (s\<lparr>port_in := ?p\<rparr>))" using Cons by (simp add: poll_run poll_result_def)
    show ?thesis
    proof (cases "port_in s COM2")
      case Nil
      then have "com2_recv_byte s = Some (Wait (s\<lparr>port_in := ?p\<rparr>))" by (simp add: com2_recv_byte_def bind_run poll inb_def)
      with Nil show ?thesis by (simp add: com2_bytes_def com2_line_def)
    next
      case data: (Cons b bs)
      have "com2_recv_byte s = Some (Ok b (s\<lparr>port_in := ?p(COM2 := bs)\<rparr>))"
        using data by (simp add: com2_recv_byte_def bind_run poll inb_def)
      moreover have "took 1 (port_in s) (?p(COM2 := bs))" using data f by (simp add: took_def com2_line_def)
      moreover have "com2_bytes s = b # take (length (filter ?ready vs)) bs" using data f by (simp add: com2_bytes_def com2_line_def)
      ultimately show ?thesis by auto
    qed
  qed
qed

lemma com2_recv_list_run:
  "if n \<le> length (com2_bytes s)
   then \<exists>p. took n (port_in s) p \<and> com2_recv_list n s = Some (Ok (take n (com2_bytes s)) (s\<lparr>port_in := p\<rparr>))
   else \<exists>t. com2_recv_list n s = Some (Wait t)"
proof (induction n arbitrary: s)
  case 0
  show ?case by (auto simp: ret_run intro!: exI [of _ "port_in s"])
next
  case (Suc n)
  show ?case
  proof (cases "com2_bytes s")
    case Nil
    with com2_recv_byte_run [of s] show ?thesis by (auto simp: bind_run)
  next
    case (Cons b bs)
    with com2_recv_byte_run [of s] obtain p where
      p: "took 1 (port_in s) p" "com2_recv_byte s = Some (Ok b (s\<lparr>port_in := p\<rparr>))" by auto
    then have "com2_bytes (s\<lparr>port_in := p\<rparr>) = bs" using Cons by (simp add: com2_bytes_def took_def)
    with Suc.IH [of "s\<lparr>port_in := p\<rparr>"] p(2) Cons show ?thesis
      by (auto simp: bind_run ret_run split: if_splits intro: took_Suc [OF p(1)])
  qed
qed

text \<open>The memory with the bytes from an address on.\<close>

definition written :: "memory \<Rightarrow> u64 \<Rightarrow> u8 list \<Rightarrow> memory" where
  "written m a bs = (\<lambda>x. if unat x \<in> span a (length bs) then bs ! (unat x - unat a) else m x)"

lemma written_Nil [simp]: "written m a [] = m"
  by (simp add: written_def span_def)

lemma written_snoc:
  assumes "mapped a (Suc (length bs))"
  shows "(written m a bs)(a + of_nat (length bs) := b) = written m a (bs @ [b])"
proof
  fix x
  have at: "unat (a + of_nat (length bs)) = unat a + length bs"
    by (rule unat_in_image [OF assms]) simp
  show "((written m a bs)(a + of_nat (length bs) := b)) x = written m a (bs @ [b]) x"
  proof (cases "x = a + of_nat (length bs)")
    case True
    with at show ?thesis by (simp add: written_def span_def)
  next
    case False
    then have "unat x \<noteq> unat a + length bs" using at by (metis word_unat_eq_iff)
    with False show ?thesis by (auto simp: written_def span_def nth_append)
  qed
qed

text \<open>The loop of \<open>com2_recv_buf\<close>, over natural numbers.\<close>

lemma com2_recv_buf_loop:
  "com2_recv_buf buf n = for_each [0..<unat n] (\<lambda>i. bind com2_recv_byte (store8 (buf + of_nat i)))"
proof -
  have "ucast (of_nat k :: u32) = (of_nat k :: u64)" if "k < unat n" for k
  proof -
    have "k < 2 ^ 32" using that unsigned_less [of n, where 'a = nat] by simp
    then show ?thesis by (simp add: word_unat_eq_iff unat_ucast_up unat_of_nat)
  qed
  then have "for_each [0..<unat n] (\<lambda>x. bind com2_recv_byte (store8 (buf + ucast (of_nat x :: u32))))
      = for_each [0..<unat n] (\<lambda>i. bind com2_recv_byte (store8 (buf + of_nat i)))"
    by (intro for_each_cong [OF refl]) simp
  then show ?thesis by (simp add: com2_recv_buf_def for_word_for_each for_each_map)
qed

lemma com2_recv_buf_run:
  fixes s :: "'z hw_scheme"
  assumes map: "mapped buf (unat n)"
  shows "if unat n \<le> length (com2_bytes s)
   then \<exists>p. took (unat n) (port_in s) p \<and> com2_recv_buf buf n s
      = Some (Ok () (s\<lparr>port_in := p, mem := written (mem s) buf (take (unat n) (com2_bytes s))\<rparr>))
   else \<exists>t. com2_recv_buf buf n s = Some (Wait t)"
proof -
  let ?f = "\<lambda>i :: nat. bind com2_recv_byte (store8 (buf + of_nat i)) :: (unit, 'z hw_scheme) prog"
  let ?bs = "com2_bytes s" and ?st = "\<lambda>k p. s\<lparr>port_in := p, mem := written (mem s) buf (take k (com2_bytes s))\<rparr>"
  have "if k \<le> length ?bs
   then \<exists>p. took k (port_in s) p \<and> for_each [0..<k] ?f s = Some (Ok () (?st k p))
   else \<exists>t. for_each [0..<k] ?f s = Some (Wait t)" if "k \<le> unat n" for k
    using that
  proof (induction k)
    case 0
    show ?case by (auto simp: skip_run intro!: exI [of _ "port_in s"])
  next
    case (Suc k)
    show ?case
    proof (cases "k \<le> length ?bs")
      case False
      with Suc show ?thesis by (auto simp: for_each_append bind_run)
    next
      case True
      with Suc obtain p where p: "took k (port_in s) p" "for_each [0..<k] ?f s = Some (Ok () (?st k p))" by auto
      have left: "com2_bytes (?st k p) = drop k ?bs" using p(1) by (simp add: com2_bytes_def took_def)
      show ?thesis
      proof (cases "k = length ?bs")
        case True
        with left com2_recv_byte_run [of "?st k p"] p(2) show ?thesis by (auto simp: for_each_append bind_run)
      next
        case False
        with True have k: "k < length ?bs" by simp
        then have "com2_bytes (?st k p) = ?bs ! k # drop (Suc k) ?bs" using left by (simp add: Cons_nth_drop_Suc)
        with com2_recv_byte_run [of "?st k p"] obtain q where
          q: "took 1 p q" "com2_recv_byte (?st k p) = Some (Ok (?bs ! k) ((?st k p)\<lparr>port_in := q\<rparr>))" by auto
        have mk: "mapped buf (Suc k)" using Suc.prems by (intro mapped_less [OF map]) simp
        then have "unat (buf + of_nat k) = unat buf + k" by (rule unat_in_image) simp
        then have lt: "buf + of_nat k < MAP_LIMIT" using mk by (simp add: mapped_def word_less_nat_alt)
        have "(written (mem s) buf (take k ?bs))(buf + of_nat k := ?bs ! k) = written (mem s) buf (take (Suc k) ?bs)"
          using written_snoc [of buf "take k ?bs"] mk k by (simp add: take_Suc_conv_app_nth)
        with q(2) lt have "?f k (?st k p) = Some (Ok () (?st (Suc k) q))" by (simp add: bind_run store8_run)
        with p took_trans [OF p(1) q(1)] k show ?thesis by (auto simp: for_each_append bind_run skip_run simp del: fun_upd_apply)
      qed
    qed
  qed
  from this [OF order_refl] show ?thesis by (simp only: com2_recv_buf_loop)
qed

section \<open>The protocol\<close>

text \<open>The four bytes of a size, low byte first, and the stream a host sends for a file.\<close>

definition size_bytes :: "nat \<Rightarrow> u8 list" where
  "size_bytes n = map (\<lambda>i. of_nat (n div 256 ^ i)) [0..<4]"

definition kelf_encode :: "u8 list \<Rightarrow> u8 list" where
  "kelf_encode file = lit ''KELF'' @ size_bytes (length file) @ file"

lemma bit_size_of_bytes:
  assumes "j < 32"
  shows "bit (size_of_bytes bs) j = bit (bs ! (j div 8)) (j mod 8)"
proof -
  have eight: "bit (b :: u8) k \<Longrightarrow> k < 8" for b k using bit_imp_le_length [of b k] by simp
  define i where "i = j div 8"
  define k where "k = j mod 8"
  note jk = i_def [symmetric] k_def [symmetric]
  have j: "j = 8 * i + k" and k8: "k < 8" by (simp_all add: i_def k_def)
  then have "i = 0 \<or> i = 1 \<or> i = 2 \<or> i = 3" using assms by linarith
  then show ?thesis
    unfolding jk unfolding j size_of_bytes_def using k8
    by (elim disjE; simp add: bit_or_iff bit_push_bit_iff bit_ucast_iff) (auto dest: eight)
qed

lemma size_of_size_bytes: "size_of_bytes (size_bytes n) = of_nat n"
proof (rule bit_word_eqI)
  fix j assume "j < LENGTH(32)"
  then have j: "j < 32" by simp
  then have i: "j div 8 < 4" by linarith
  then have "size_bytes n ! (j div 8) = of_nat (n div 256 ^ (j div 8))" by (simp add: size_bytes_def)
  moreover have "n div 256 ^ (j div 8) = drop_bit (8 * (j div 8)) n"
    by (simp add: drop_bit_eq_div power_mult)
  moreover have "8 * (j div 8) + j mod 8 = j" by simp
  ultimately have "bit (size_bytes n ! (j div 8)) (j mod 8) = bit n j"
    by (simp add: bit_of_nat_iff bit_drop_bit_eq)
  then show "bit (size_of_bytes (size_bytes n)) j = bit (of_nat n :: u32) j"
    using j by (simp add: bit_size_of_bytes bit_of_nat_iff)
qed

text \<open>The state in which the receiver starts to read: the line is initialised.\<close>

lemma com2_init_run:
  "\<exists>out. com2_init s = Some (Ok () (s\<lparr>port_out := out, com2_initialized := True\<rparr>))"
  by (simp add: com2_init_def bind_run outb_run modify_run skip_run) (rule exI, rule refl)

lemma transfer_start:
  fixes s :: "'z shell_scheme"
  obtains out where "branch com2_initialized skip com2_init s = Some (Ok () (s\<lparr>port_out := out, com2_initialized := True\<rparr>))"
proof (cases "com2_initialized s")
  case True
  have "s = s\<lparr>port_out := port_out s, com2_initialized := True\<rparr>" using True by (cases s) simp
  with True show ?thesis using that [of "port_out s"] by (simp add: branch_run skip_run)
next
  case False
  with com2_init_run [of s] that show ?thesis by (auto simp: branch_run)
qed

text \<open>
  What the receiver makes of a stream, with \<open>room\<close> bytes of heap: \<open>None\<close> when the stream ends
  too early, \<open>Some None\<close> when it is rejected.
\<close>

definition kelf_file :: "nat \<Rightarrow> nat \<Rightarrow> u8 list \<Rightarrow> u8 list option option" where
  "kelf_file room n bs =
     (if n = 0 \<or> 2 * 1024 * 1024 < n \<or> room < n then Some None
      else if length bs < n then None else Some (Some (take n bs)))"

definition kelf_sized :: "nat \<Rightarrow> u8 list \<Rightarrow> u8 list option option" where
  "kelf_sized room bs =
     (if length bs < 4 then None else kelf_file room (unat (size_of_bytes (take 4 bs))) (drop 4 bs))"

definition kelf_receive :: "nat \<Rightarrow> u8 list \<Rightarrow> u8 list option option" where
  "kelf_receive room bs =
     (if length bs < 4 then None else if take 4 bs \<noteq> lit ''KELF'' then Some None else kelf_sized room (drop 4 bs))"

text \<open>What is sent is what is received.\<close>

lemma length_size_bytes [simp]: "length (size_bytes n) = 4"
  by (simp add: size_bytes_def)

lemma kelf_receive_encode:
  assumes "length file < 2 ^ 32"
  shows "kelf_receive room (kelf_encode file @ rest) =
    (if file = [] \<or> 2 * 1024 * 1024 < length file \<or> room < length file then Some None else Some (Some file))"
proof -
  have "unat (size_of_bytes (size_bytes (length file))) = length file"
    using assms by (simp add: size_of_size_bytes unat_of_nat)
  then show ?thesis
    by (simp add: kelf_receive_def kelf_sized_def kelf_file_def kelf_encode_def)
qed

lemma magic_bytes:
  "length ms = 4 \<Longrightarrow> (ms ! 0 \<noteq> 0x4B \<or> ms ! 1 \<noteq> 0x45 \<or> ms ! 2 \<noteq> 0x4C \<or> ms ! 3 \<noteq> 0x46) \<longleftrightarrow> ms \<noteq> lit ''KELF''"
  by (auto simp: list_eq_iff_nth_eq less_Suc_eq numeral_eq_Suc)

text \<open>The part of the transfer that follows the size, in the terms of the heap.\<close>

definition recv_file :: "'z shell_scheme kst \<Rightarrow> u32 \<Rightarrow> ((u64 \<times> u32) option, 'z shell_scheme) prog" where
  "recv_file kst sz = (if sz = 0 \<or> sz > KELF_MAX_SIZE then ret None
     else bind (mem_sbrk kst (ucast sz)) (\<lambda>buf.
     if buf = - 1 then ret None
     else bind (com2_recv_buf buf sz) (\<lambda>_. ret (Some (buf, sz)))))"

definition recv_sized :: "'z shell_scheme kst \<Rightarrow> ((u64 \<times> u32) option, 'z shell_scheme) prog" where
  "recv_sized kst = bind (com2_recv_list 4) (\<lambda>szb. recv_file kst (size_of_bytes szb))"

lemma transfer_recv_sized:
  "transfer_recv_elf kst = bind (branch com2_initialized skip com2_init) (\<lambda>_. bind (com2_recv_list 4) (\<lambda>magic.
     if magic ! 0 \<noteq> 0x4B \<or> magic ! 1 \<noteq> 0x45 \<or> magic ! 2 \<noteq> 0x4C \<or> magic ! 3 \<noteq> 0x46 then ret None
     else recv_sized kst))"
  unfolding transfer_recv_elf_def recv_sized_def recv_file_def Let_def by (rule refl)

definition heap_room_left :: "'z heap_scheme \<Rightarrow> nat" where
  "heap_room_left s = unat (heap_limit s) - unat (heap_cur s)"

text \<open>The state after a file was stored: fresh heap holds it, and the line has moved on.\<close>

definition received :: "u8 list \<Rightarrow> (u16 \<Rightarrow> u8 list) \<Rightarrow> 'z shell_scheme \<Rightarrow> 'z shell_scheme" where
  "received file p s = s\<lparr>port_in := p, heap_cur := heap_cur s + of_nat (length file),
     mem := written (mem s) (heap_cur s) file\<rparr>"

lemma recv_file_run:
  fixes s :: "'z shell_scheme"
  assumes heap: "heap_inv s" and low: "unat (heap_limit s) \<le> unat MAP_LIMIT"
  shows "case kelf_file (heap_room_left s) (unat sz) (com2_bytes s) of
      None \<Rightarrow> \<exists>t. recv_file kernel_kst sz s = Some (Wait t)
    | Some None \<Rightarrow> recv_file kernel_kst sz s = Some (Ok None s)
    | Some (Some file) \<Rightarrow> \<exists>p. took (length file) (port_in s) p \<and> length file = unat sz
        \<and> recv_file kernel_kst sz s = Some (Ok (Some (heap_cur s, sz)) (received file p s))"
proof (cases "sz = 0 \<or> sz > KELF_MAX_SIZE")
  case True
  then have "unat sz = 0 \<or> 2 * 1024 * 1024 < unat sz" by (auto simp: KELF_MAX_SIZE_def word_less_nat_alt)
  then have "kelf_file (heap_room_left s) (unat sz) (com2_bytes s) = Some None" by (auto simp: kelf_file_def)
  with True show ?thesis by (simp add: recv_file_def ret_run)
next
  case ok: False
  then have big: "\<not> (unat sz = 0 \<or> 2 * 1024 * 1024 < unat sz)"
    by (simp add: KELF_MAX_SIZE_def word_less_nat_alt unat_eq_0)
  have n: "unat (ucast sz :: u64) = unat sz" by (rule unat_ucast_up) simp
  have "unat sz < 2 ^ 63" using unsigned_less [of sz, where 'a = nat] by simp
  then have pos: "0 < sint (ucast sz :: u64)" using big n by (simp add: sint_pos_unat)
  have cur: "unat (heap_cur s) \<le> unat (heap_limit s)" using heap by (simp add: heap_inv_def word_le_nat_alt)
  show ?thesis
  proof (cases "heap_room_left s < unat sz")
    case True
    then have "heap_sbrk (ucast sz) s = Some (Ok (- 1) s)"
      using heap_sbrk_full [OF heap pos] cur n by (simp add: heap_room_left_def)
    with ok True show ?thesis by (simp add: recv_file_def kelf_file_def ret_run bind_run)
  next
    case room: False
    then have fits: "unat (heap_cur s) + unat (ucast sz :: u64) \<le> unat (heap_limit s)"
      using cur n by (simp add: heap_room_left_def)
    let ?v = "s\<lparr>heap_cur := heap_cur s + ucast sz\<rparr>"
    have "unat (heap_cur s) < 2 ^ 63" using cur low by (simp add: MAP_LIMIT_def)
    then have "heap_cur s \<noteq> - 1" by (auto simp: unsigned_minus_1_eq_mask mask_eq_exp_minus_1)
    then have run: "recv_file kernel_kst sz s = bind (com2_recv_buf (heap_cur s) sz) (\<lambda>_. ret (Some (heap_cur s, sz))) ?v"
      using ok heap_sbrk_grow [OF heap pos fits] by (simp add: recv_file_def bind_run [of "heap_sbrk (ucast sz)"])
    have map: "mapped (heap_cur s) (unat sz)" using fits low n by (simp add: mapped_def)
    have bs: "com2_bytes ?v = com2_bytes s" by (simp add: com2_bytes_def)
    have got: "kelf_file (heap_room_left s) (unat sz) (com2_bytes s) = (if length (com2_bytes s) < unat sz then None
        else Some (Some (take (unat sz) (com2_bytes s))))"
      using big room by (simp add: kelf_file_def)
    note recv = com2_recv_buf_run [OF map, of ?v, unfolded bs]
    show ?thesis
      using recv unfolding got run
      by (auto simp: bind_run ret_run received_def min_def split: if_splits)
  qed
qed

lemma recv_sized_run:
  fixes s :: "'z shell_scheme"
  assumes heap: "heap_inv s" and low: "unat (heap_limit s) \<le> unat MAP_LIMIT"
  shows "case kelf_sized (heap_room_left s) (com2_bytes s) of
      None \<Rightarrow> \<exists>t. recv_sized kernel_kst s = Some (Wait t)
    | Some None \<Rightarrow> \<exists>p. took 4 (port_in s) p \<and> recv_sized kernel_kst s = Some (Ok None (s\<lparr>port_in := p\<rparr>))
    | Some (Some content) \<Rightarrow> \<exists>p. took (4 + length content) (port_in s) p
        \<and> recv_sized kernel_kst s = Some (Ok (Some (heap_cur s, of_nat (length content))) (received content p s))"
proof (cases "length (com2_bytes s) < 4")
  case True
  with com2_recv_list_run [of 4 s] show ?thesis by (auto simp: recv_sized_def bind_run kelf_sized_def)
next
  case False
  let ?bs = "com2_bytes s"
  let ?sz = "size_of_bytes (take 4 ?bs)"
  from False com2_recv_list_run [of 4 s] obtain q where
    q: "took 4 (port_in s) q" "com2_recv_list 4 s = Some (Ok (take 4 ?bs) (s\<lparr>port_in := q\<rparr>))" by auto
  let ?u = "s\<lparr>port_in := q\<rparr>"
  have u: "heap_inv ?u" "unat (heap_limit ?u) \<le> unat MAP_LIMIT" "heap_room_left ?u = heap_room_left s" "com2_bytes ?u = drop 4 ?bs"
    using heap low q(1) by (simp_all add: heap_inv_def heap_room_left_def com2_bytes_def took_def)
  have run: "recv_sized kernel_kst s = recv_file kernel_kst ?sz ?u" using q(2) by (simp add: recv_sized_def bind_run)
  have spec: "kelf_sized (heap_room_left s) ?bs = kelf_file (heap_room_left s) (unat ?sz) (drop 4 ?bs)"
    using False by (simp add: kelf_sized_def)
  have word: "length content = unat ?sz \<Longrightarrow> (of_nat (length content) :: u32) = ?sz" for content :: "u8 list" by simp
  show ?thesis
    using recv_file_run [OF u(1,2), of ?sz] q(1) unfolding run spec u(3,4)
    by (auto simp: received_def word split: option.splits dest: took_trans [OF q(1)])
qed

lemma transfer_recv_elf_run:
  fixes s :: "'z shell_scheme"
  assumes heap: "heap_inv s" and low: "unat (heap_limit s) \<le> unat MAP_LIMIT"
  obtains u where "\<exists>out. u = s\<lparr>port_out := out, com2_initialized := True\<rparr>"
    and "case kelf_receive (heap_room_left s) (com2_bytes s) of
      None \<Rightarrow> \<exists>t. transfer_recv_elf kernel_kst s = Some (Wait t)
    | Some None \<Rightarrow> \<exists>k p. took k (port_in s) p \<and> transfer_recv_elf kernel_kst s = Some (Ok None (u\<lparr>port_in := p\<rparr>))
    | Some (Some content) \<Rightarrow> \<exists>p. took (8 + length content) (port_in s) p
        \<and> transfer_recv_elf kernel_kst s = Some (Ok (Some (heap_cur s, of_nat (length content))) (received content p u))"
proof -
  obtain out where init: "branch com2_initialized skip com2_init s = Some (Ok () (s\<lparr>port_out := out, com2_initialized := True\<rparr>))"
    by (rule transfer_start)
  let ?s = "s\<lparr>port_out := out, com2_initialized := True\<rparr>" and ?bs = "com2_bytes s"
  note step = com2_recv_list_run [of 4 ?s] and run = transfer_recv_sized [of kernel_kst]
  have "case kelf_receive (heap_room_left s) ?bs of
      None \<Rightarrow> \<exists>t. transfer_recv_elf kernel_kst s = Some (Wait t)
    | Some None \<Rightarrow> \<exists>k p. took k (port_in s) p \<and> transfer_recv_elf kernel_kst s = Some (Ok None (?s\<lparr>port_in := p\<rparr>))
    | Some (Some content) \<Rightarrow> \<exists>p. took (8 + length content) (port_in s) p
        \<and> transfer_recv_elf kernel_kst s = Some (Ok (Some (heap_cur s, of_nat (length content))) (received content p ?s))"
  proof (cases "length ?bs < 4")
    case True
    with step init show ?thesis by (auto simp: run bind_run kelf_receive_def com2_bytes_def)
  next
    case False
    with step obtain p where
      p: "took 4 (port_in s) p" "com2_recv_list 4 ?s = Some (Ok (take 4 ?bs) (?s\<lparr>port_in := p\<rparr>))"
      by (auto simp: com2_bytes_def)
    let ?t = "?s\<lparr>port_in := p\<rparr>"
    have t: "heap_inv ?t" "unat (heap_limit ?t) \<le> unat MAP_LIMIT" "heap_room_left ?t = heap_room_left s" "com2_bytes ?t = drop 4 ?bs"
      using heap low p(1) by (simp_all add: heap_inv_def heap_room_left_def com2_bytes_def took_def)
    have "transfer_recv_elf kernel_kst s = (if take 4 ?bs \<noteq> lit ''KELF'' then Some (Ok None ?t) else recv_sized kernel_kst ?t)"
      using magic_bytes [of "take 4 ?bs"] False init p(2) by (simp add: run bind_run ret_run del: lit_Cons)
    moreover have "kelf_receive (heap_room_left s) ?bs
        = (if take 4 ?bs \<noteq> lit ''KELF'' then Some None else kelf_sized (heap_room_left s) (drop 4 ?bs))"
      using False by (simp add: kelf_receive_def del: lit_Cons)
    ultimately show ?thesis
      using recv_sized_run [OF t(1,2)] p(1) unfolding t(3,4)
      by (auto simp: received_def simp del: lit_Cons split: option.splits intro: took_trans [OF p(1)] took_trans4 [OF p(1)])
  qed
  with that show thesis by blast
qed

text \<open>The same by what it leaves in each part of the state.\<close>

lemma kelf_receive_bounds:
  assumes "kelf_receive room bs = Some (Some content)"
  shows "content \<noteq> []" "length content \<le> 2 * 1024 * 1024" "length content \<le> room"
  using assms by (auto simp: kelf_receive_def kelf_sized_def kelf_file_def split: if_splits)

lemma heap_inv_received:
  assumes "heap_inv s" and "length content \<le> heap_room_left s" and "length content \<le> 2 * 1024 * 1024"
  shows "unat (heap_cur (received content p s)) = unat (heap_cur s) + length content" "heap_inv (received content p s)"
proof -
  have "unat (heap_cur s + of_nat (length content)) = unat (heap_cur s) + length content"
    using assms by (simp add: heap_inv_def heap_room_left_def word_le_nat_alt unat_word_ariths unat_of_nat)
  then show "unat (heap_cur (received content p s)) = unat (heap_cur s) + length content" "heap_inv (received content p s)"
    using assms by (auto simp: received_def heap_inv_def heap_room_left_def word_le_nat_alt)
qed

lemma transfer_recv_elf_cases:
  fixes s :: "'z shell_scheme"
  assumes heap: "heap_inv s" and low: "unat (heap_limit s) \<le> unat MAP_LIMIT"
  shows "case kelf_receive (heap_room_left s) (com2_bytes s) of
      None \<Rightarrow> \<exists>t. transfer_recv_elf kernel_kst s = Some (Wait t)
    | Some None \<Rightarrow> \<exists>t. transfer_recv_elf kernel_kst s = Some (Ok None t) \<and> mem t = mem s \<and> heap_cur t = heap_cur s
        \<and> (\<forall>q. q \<noteq> COM2 \<and> q \<noteq> COM2 + 5 \<longrightarrow> port_in t q = port_in s q)
    | Some (Some content) \<Rightarrow> \<exists>t. transfer_recv_elf kernel_kst s = Some (Ok (Some (heap_cur s, of_nat (length content))) t)
        \<and> mem t = written (mem s) (heap_cur s) content \<and> heap_inv t
        \<and> unat (heap_cur t) = unat (heap_cur s) + length content
        \<and> com2_bytes t = drop (8 + length content) (com2_bytes s)
        \<and> (\<forall>q. q \<noteq> COM2 \<and> q \<noteq> COM2 + 5 \<longrightarrow> port_in t q = port_in s q)"
proof -
  from transfer_recv_elf_run [OF assms] obtain u where u: "\<exists>out. u = s\<lparr>port_out := out, com2_initialized := True\<rparr>"
    and run: "case kelf_receive (heap_room_left s) (com2_bytes s) of
      None \<Rightarrow> \<exists>t. transfer_recv_elf kernel_kst s = Some (Wait t)
    | Some None \<Rightarrow> \<exists>k p. took k (port_in s) p \<and> transfer_recv_elf kernel_kst s = Some (Ok None (u\<lparr>port_in := p\<rparr>))
    | Some (Some content) \<Rightarrow> \<exists>p. took (8 + length content) (port_in s) p
        \<and> transfer_recv_elf kernel_kst s = Some (Ok (Some (heap_cur s, of_nat (length content))) (received content p u))" .
  have u_heap: "heap_inv u" "heap_room_left u = heap_room_left s" "mem u = mem s" "heap_cur u = heap_cur s"
    using u heap by (auto simp: heap_inv_def heap_room_left_def)
  show ?thesis
  proof (cases "kelf_receive (heap_room_left s) (com2_bytes s)")
    case None
    with run show ?thesis by simp
  next
    case (Some r)
    show ?thesis
    proof (cases r)
      case None
      with Some run u_heap show ?thesis by (fastforce simp: took_def)
    next
      case content: (Some content)
      with Some have "kelf_receive (heap_room_left u) (com2_bytes s) = Some (Some content)" by (simp add: u_heap)
      note heap_inv_received [OF u_heap(1) kelf_receive_bounds(3,2) [OF this]]
      with Some content run u_heap show ?thesis by (fastforce simp: took_def received_def com2_bytes_def)
    qed
  qed
qed

text \<open>What was framed arrives.\<close>

lemma written_nth:
  assumes "i < length bs" and "unat a + length bs < 2 ^ 64"
  shows "written m a bs (a + of_nat i) = bs ! i"
proof -
  have "unat (a + of_nat i) = unat a + i" using assms by (simp add: unat_word_ariths unat_of_nat)
  with assms(1) show ?thesis by (simp add: written_def span_def)
qed

lemma transfer_framed:
  fixes s :: "'z shell_scheme"
  assumes heap: "heap_inv s" and low: "unat (heap_limit s) \<le> unat MAP_LIMIT"
    and line: "com2_bytes s = kelf_encode bytes @ rest"
    and size: "bytes \<noteq> []" "length bytes \<le> 2 * 1024 * 1024" "length bytes \<le> heap_room_left s"
  shows "\<exists>t. transfer_recv_elf kernel_kst s = Some (Ok (Some (heap_cur s, of_nat (length bytes))) t)
    \<and> (\<forall>i<length bytes. mem t (heap_cur s + of_nat i) = bytes ! i) \<and> com2_bytes t = rest"
proof -
  have "kelf_receive (heap_room_left s) (com2_bytes s) = Some (Some bytes)"
    using size by (simp add: line kelf_receive_encode)
  moreover have "unat (heap_cur s) + length bytes < 2 ^ 64"
    using size(3) heap low by (auto simp: heap_inv_def heap_room_left_def MAP_LIMIT_def word_le_nat_alt)
  moreover have "drop (8 + length bytes) (kelf_encode bytes @ rest) = rest"
    using drop_append [of "length (kelf_encode bytes)" "kelf_encode bytes" rest] by (simp add: kelf_encode_def)
  ultimately show ?thesis
    using transfer_recv_elf_cases [OF heap low] by (auto simp: written_nth line)
qed

end
