(* ===== verification/Shell.thy ===== *)
theory Shell imports Kelf begin

text \<open>
  The shell, \<open>command_kern/main.c\<close>: the line reader, the commands and the recovery from
  exceptions of the programs it runs, a client of the service table.
\<close>

section \<open>The line reader\<close>

definition LINE_MAX :: nat where
  "LINE_MAX = 128"

text \<open>
  \<open>buf[LINE_MAX]\<close> is the local array of \<open>module_main\<close>. The result is \<open>len\<close> with the array.
\<close>

partial_function (option) readline_from :: "'s kst \<Rightarrow> u8 list \<Rightarrow> nat \<Rightarrow> (nat \<times> u8 list, 's) prog" where
  "readline_from kst buf len s = bind (con_getchar kst) (\<lambda>c.
     if c = 0x0D \<or> c = 0x0A then
       bind (con_putchar kst 0x0A) (\<lambda>_. ret (len, buf[len := 0]))
     else if c = 0x08 \<or> c = 0x7F then
       (if len > 0 then bind (con_print kst (Lit [0x08, 0x20, 0x08])) (\<lambda>_. readline_from kst buf (len - 1))
        else readline_from kst buf len)
     else if c \<ge> 0x20 \<and> len < LINE_MAX - 1 then
       bind (con_putchar kst (word_of_int c)) (\<lambda>_. readline_from kst (buf[len := word_of_int c]) (len + 1))
     else readline_from kst buf len) s"

definition readline :: "'s kst \<Rightarrow> u8 list \<Rightarrow> (nat \<times> u8 list, 's) prog" where
  "readline kst buf = readline_from kst buf 0"

section \<open>Programs and their exceptions\<close>

definition exc_names :: "string list" where
  "exc_names = [
     ''#DE Divide Error'', ''#DB Debug'', ''NMI'', ''#BP Breakpoint'', ''#OF Overflow'',
     ''#BR Bound Range'', ''#UD Invalid Opcode'', ''#NM No FPU'', ''#DF Double Fault'',
     ''Coproc Seg Overrun'', ''#TS Invalid TSS'', ''#NP Seg Not Present'', ''#SS Stack Fault'',
     ''#GP General Protection'', ''#PF Page Fault'', ''Reserved'', ''#MF x87 FP'',
     ''#AC Alignment Check'', ''#MC Machine Check'', ''#XF SIMD FP'',
     ''Reserved'', ''Reserved'', ''Reserved'', ''Reserved'',
     ''Reserved'', ''Reserved'', ''Reserved'', ''Reserved'',
     ''Reserved'', ''Reserved'', ''#SX Security'', ''Reserved'']"

definition exc_name :: "u64 \<Rightarrow> string" where
  "exc_name v = (if v < 32 then exc_names ! unat v else ''Unknown'')"

text \<open>
  \<open>exc_hook_fn\<close> with the address of \<open>exc_restore\<close>; the pair is what it leaves in
  \<open>*out_rip\<close> and \<open>*out_rsp\<close>.
\<close>

definition exc_hook_fn :: "u64 \<Rightarrow> u64 \<Rightarrow> u64 \<Rightarrow> u64 \<Rightarrow> (u64 \<times> u64, 'z shell_scheme) prog" where
  "exc_hook_fn exc_restore vec ip err = bind (seq [
     modify (\<lambda>s. s\<lparr>exc_vec := vec\<rparr>),
     modify (\<lambda>s. s\<lparr>exc_rip := ip\<rparr>),
     modify (\<lambda>s. s\<lparr>exc_err := err\<rparr>)])
     (\<lambda>_. bind (gets exc_restore_rsp) (\<lambda>rsp. ret (exc_restore, rsp)))"

text \<open>
  How a program run ends: it returns, or the frame the exception handler leaves takes
  \<open>iretq\<close> to \<open>exc_restore\<close>, which makes \<open>exc_save\<close> return 1.
\<close>

datatype run_end = Returned | Restored

text \<open>
  \<open>run\<close> is the code of the program: from its entry address to how it ends. \<open>hook\<close> is the
  address of \<open>exc_hook_fn\<close> and \<open>sp\<close> the stack pointer of the frame of \<open>elf_exec\<close>.
\<close>

definition elf_exec :: "'z shell_scheme kst \<Rightarrow> (u64 \<Rightarrow> (run_end, 'z shell_scheme) prog) \<Rightarrow> u64 \<Rightarrow> u64 \<Rightarrow> u64
    \<Rightarrow> (unit, 'z shell_scheme) prog" where
  "elf_exec kst run hook sp entry = seq [
     modify (\<lambda>s. s\<lparr>exc_caught := False\<rparr>),
     modify (\<lambda>s. s\<lparr>exc_restore_rsp := sp\<rparr>),
     sys_set_exc_hook kst hook,
     bind (run entry) (\<lambda>r. case r of
       Returned \<Rightarrow> sys_clear_exc_hook kst
     | Restored \<Rightarrow> modify (\<lambda>s. s\<lparr>exc_caught := True\<rparr>))]"

section \<open>Commands\<close>

definition cmd_help :: "'s kst \<Rightarrow> (unit, 's) prog" where
  "cmd_help kst = con_print kst (Lit (lit ''Commands:'' @ [0x0A]
     @ lit ''  help   -- show this help'' @ [0x0A]
     @ lit ''  clear  -- clear the screen'' @ [0x0A]
     @ lit ''  halt   -- halt the system'' @ [0x0A]
     @ lit ''  load   -- receive ELF via COM2 (KELF protocol) and run it'' @ [0x0A]))"

definition print_exception :: "'z shell_scheme kst \<Rightarrow> (unit, 'z shell_scheme) prog" where
  "print_exception kst = bind (gets (\<lambda>s. (exc_vec s, exc_rip s, exc_err s))) (\<lambda>(vec, ip, err). seq [
     con_print kst (Lit (0x0A # lit ''Exception: '')),
     con_print kst (str (exc_name vec)),
     con_print kst (Lit (0x0A # lit ''  RIP=0x'')),
     con_print_hex kst ip,
     (if err \<noteq> 0 then seq [con_print kst (str ''  ERR=0x''), con_print_hex kst err] else skip),
     con_putchar kst 0x0A])"

definition cmd_load :: "'z shell_scheme kst \<Rightarrow> (u64 \<Rightarrow> (run_end, 'z shell_scheme) prog) \<Rightarrow> u64 \<Rightarrow> u64
    \<Rightarrow> (unit, 'z shell_scheme) prog" where
  "cmd_load kst run hook sp =
     bind (con_print kst (Lit (lit ''Waiting for ELF on COM2 (KELF protocol)...'' @ [0x0A]))) (\<lambda>_.
     bind (transfer_recv_elf kst) (\<lambda>r. case r of
       None \<Rightarrow> con_print kst (Lit (lit ''Transfer error: bad magic, size out of range, or OOM.'' @ [0x0A]))
     | Some (buf, sz) \<Rightarrow>
         bind (seq [
           con_print kst (str ''Received ''),
           con_print_dec kst (ucast sz),
           con_print kst (Lit (lit '' bytes. Loading ELF...'' @ [0x0A]))]) (\<lambda>_.
         bind (sys_elf_load kst buf (ucast sz)) (\<lambda>entry.
         if entry = 0
         then con_print kst (Lit (lit ''ELF load failed: invalid or unsupported binary.'' @ [0x0A]))
         else seq [
           con_print kst (str ''Entry at 0x''),
           con_print_hex kst entry,
           con_print kst (Lit (lit ''. Running...'' @ [0x0A])),
           elf_exec kst run hook sp entry,
           branch exc_caught (print_exception kst)
             (con_print kst (Lit (lit ''Program finished.'' @ [0x0A])))]))))"

definition cmd_unknown :: "'s kst \<Rightarrow> cstr \<Rightarrow> (unit, 's) prog" where
  "cmd_unknown kst cmd = seq [
     con_print kst (str ''Unknown command: ''),
     con_print kst cmd,
     con_putchar kst 0x0A]"

text \<open>
  \<open>dispatch\<close>. The test for \<open>halt\<close> has no return after the call: only a panic that comes
  back would go on to the next test.
\<close>

definition dispatch :: "'z shell_scheme kst \<Rightarrow> (unit, 'z shell_scheme) prog \<Rightarrow> cstr \<Rightarrow> (unit, 'z shell_scheme) prog" where
  "dispatch kst load_cmd line =
     bind (deref line) (\<lambda>c. if c = 0 then skip else
     bind (str_eq line (str ''help'')) (\<lambda>b. if b then cmd_help kst else
     bind (str_eq line (str ''clear'')) (\<lambda>b. if b then con_clear kst else
     bind (str_eq line (str ''halt'')) (\<lambda>b.
     bind (if b then sys_panic kst (str ''halt requested'') else skip) (\<lambda>_.
     bind (str_eq line (str ''load'')) (\<lambda>b. if b then load_cmd else
     cmd_unknown kst line))))))"

section \<open>The shell\<close>

text \<open>One round of the command loop, and the loop; the array keeps its bytes between lines.\<close>

definition shell_round :: "'z shell_scheme kst \<Rightarrow> (unit, 'z shell_scheme) prog \<Rightarrow> u8 list \<Rightarrow> (u8 list, 'z shell_scheme) prog" where
  "shell_round kst load_cmd line =
     bind (con_print kst (str ''> '')) (\<lambda>_.
     bind (readline kst line) (\<lambda>(len, line).
     bind (dispatch kst load_cmd (Lit line)) (\<lambda>_. ret line)))"

partial_function (option) shell_loop ::
  "'z shell_scheme kst \<Rightarrow> (unit, 'z shell_scheme) prog \<Rightarrow> u8 list \<Rightarrow> (unit, 'z shell_scheme) prog" where
  "shell_loop kst load_cmd line s = bind (shell_round kst load_cmd line) (shell_loop kst load_cmd) s"

text \<open>
  \<open>module_main\<close>: the static variables are cleared, and the loop starts with whatever the
  array on the stack holds.
\<close>

definition clear_bss :: "'z shell_scheme \<Rightarrow> 'z shell_scheme" where
  "clear_bss s = s\<lparr>com2_initialized := False, exc_caught := False, exc_vec := 0, exc_rip := 0,
     exc_err := 0, exc_restore_rsp := 0\<rparr>"

definition module_main :: "'z shell_scheme kst \<Rightarrow> (u64 \<Rightarrow> (run_end, 'z shell_scheme) prog) \<Rightarrow> u64 \<Rightarrow> u64
    \<Rightarrow> u8 list \<Rightarrow> (unit, 'z shell_scheme) prog" where
  "module_main kst run hook sp line = seq [
     modify clear_bss,
     con_clear kst,
     con_print kst (Lit (lit ''KDOS COMMAND.KERN 1.0'' @ [0x0A]
       @ lit ''Type '' @ [0x27] @ lit ''help'' @ [0x27] @ lit '' for available commands.'' @ [0x0A, 0x0A])),
     shell_loop kst (cmd_load kst run hook sp) line]"

section \<open>The line reader edits a line\<close>

text \<open>
  The line editor on a stream of characters, with at most \<open>cap\<close> bytes: the line and what
  follows it, or \<open>None\<close> when the stream ends before the line.
\<close>

fun edit_line :: "nat \<Rightarrow> u8 list \<Rightarrow> int list \<Rightarrow> (u8 list \<times> int list) option" where
  "edit_line cap line [] = None"
| "edit_line cap line (c # rest) =
     (if c = 0x0D \<or> c = 0x0A then Some (line, rest)
      else if c = 0x08 \<or> c = 0x7F then edit_line cap (butlast line) rest
      else if c \<ge> 0x20 \<and> length line < cap then edit_line cap (line @ [word_of_int c]) rest
      else edit_line cap line rest)"

text \<open>What the reader puts on the screen meanwhile, the newline at the end included.\<close>

fun echo :: "nat \<Rightarrow> u8 list \<Rightarrow> int list \<Rightarrow> u8 list" where
  "echo cap line [] = []"
| "echo cap line (c # rest) =
     (if c = 0x0D \<or> c = 0x0A then [0x0A]
      else if c = 0x08 \<or> c = 0x7F then
        (if line = [] then [] else [0x08, 0x20, 0x08]) @ echo cap (butlast line) rest
      else if c \<ge> 0x20 \<and> length line < cap then word_of_int c # echo cap (line @ [word_of_int c]) rest
      else echo cap line rest)"

text \<open>The first \<open>len\<close> bytes of the array are the line so far.\<close>

definition holds_line :: "u8 list \<Rightarrow> nat \<Rightarrow> u8 list \<Rightarrow> bool" where
  "holds_line buf len line \<longleftrightarrow> length buf = LINE_MAX \<and> len = length line \<and> len < LINE_MAX
     \<and> take len buf = line \<and> 0 \<notin> set line"

lemma holds_line_empty: "length buf = LINE_MAX \<Longrightarrow> holds_line buf 0 []"
  by (simp add: holds_line_def LINE_MAX_def)

lemma holds_line_back: "holds_line buf len line \<Longrightarrow> 0 < len \<Longrightarrow> holds_line buf (len - 1) (butlast line)"
proof -
  assume h: "holds_line buf len line" and len: "0 < len"
  then have "line = take len buf" "len \<le> length buf" unfolding holds_line_def by (metis, linarith)
  then have "butlast line = take (len - 1) buf" by (simp only: butlast_take)
  moreover have "0 \<notin> set (butlast line)" using h by (auto simp: holds_line_def dest: in_set_butlastD)
  ultimately show "holds_line buf (len - 1) (butlast line)" using h len by (auto simp: holds_line_def)
qed

lemma holds_line_put:
  "holds_line buf len line \<Longrightarrow> len < LINE_MAX - 1 \<Longrightarrow> b \<noteq> 0 \<Longrightarrow> holds_line (buf[len := b]) (len + 1) (line @ [b])"
  by (auto simp: holds_line_def take_Suc_conv_app_nth)

lemma holds_line_end:
  assumes "holds_line buf len line"
  shows "length (buf[len := 0]) = LINE_MAX \<and> c_string (buf[len := 0]) = line"
proof -
  have len: "len < length buf" and line: "take len buf = line" "\<forall>x\<in>set line. x \<noteq> 0"
    using assms by (auto simp: holds_line_def)
  have "c_string (buf[len := 0]) = takeWhile (\<lambda>x. x \<noteq> 0) (line @ 0 # drop (Suc len) buf)"
    using len line(1) by (simp add: c_string_def upd_conv_take_nth_drop)
  also have "\<dots> = line" using line(2) by (simp add: takeWhile_append2)
  finally show ?thesis using assms by (simp add: holds_line_def)
qed

lemma byte_nonzero: "0 < c \<Longrightarrow> c < 256 \<Longrightarrow> (word_of_int c :: u8) \<noteq> 0"
  by (simp add: word_of_int_eq_0_iff zdvd_not_zless)

text \<open>What the reader does with a character.\<close>

definition line_char :: "'s kst \<Rightarrow> u8 list \<Rightarrow> nat \<Rightarrow> int \<Rightarrow> (nat \<times> u8 list, 's) prog" where
  "line_char kst buf len c = (if c = 0x0D \<or> c = 0x0A then
       bind (con_putchar kst 0x0A) (\<lambda>_. ret (len, buf[len := 0]))
     else if c = 0x08 \<or> c = 0x7F then
       (if len > 0 then bind (con_print kst (Lit [0x08, 0x20, 0x08])) (\<lambda>_. readline_from kst buf (len - 1))
        else readline_from kst buf len)
     else if c \<ge> 0x20 \<and> len < LINE_MAX - 1 then
       bind (con_putchar kst (word_of_int c)) (\<lambda>_. readline_from kst (buf[len := word_of_int c]) (len + 1))
     else readline_from kst buf len)"

lemma readline_from_char: "readline_from kst buf len = bind (con_getchar kst) (line_char kst buf len)"
  by (rule ext, subst readline_from.simps) (simp add: line_char_def [abs_def])

context line_input
begin

text \<open>
  One character: the line ends as the editor says, or the reader goes on where the editor goes
  on. The state \<open>t\<close> is the one after the character has been read.
\<close>

definition ends_line :: "u8 list \<Rightarrow> nat \<Rightarrow> int \<Rightarrow> u8 list \<Rightarrow> int list \<Rightarrow> 's \<Rightarrow> bool" where
  "ends_line buf len c line rest t \<longleftrightarrow> (\<exists>buf' u. line_char kst buf len c t = Some (Ok (length line, buf') u)
      \<and> edit_line (LINE_MAX - 1) line (c # rest) = Some (line, rest)
      \<and> inv u \<and> pending u = pending t \<and> obs u = obs t \<and> length buf' = LINE_MAX \<and> c_string buf' = line
      \<and> screen u = fold put (echo (LINE_MAX - 1) line (c # rest)) (screen t))"

definition goes_on :: "u8 list \<Rightarrow> nat \<Rightarrow> int \<Rightarrow> u8 list \<Rightarrow> int list \<Rightarrow> 's \<Rightarrow> bool" where
  "goes_on buf len c line rest t \<longleftrightarrow> (\<exists>buf' n l u. line_char kst buf len c t = readline_from kst buf' n u
      \<and> edit_line (LINE_MAX - 1) line (c # rest) = edit_line (LINE_MAX - 1) l rest
      \<and> inv u \<and> pending u = pending t \<and> obs u = obs t \<and> holds_line buf' n l
      \<and> fold put (echo (LINE_MAX - 1) line (c # rest)) (screen t) = fold put (echo (LINE_MAX - 1) l rest) (screen u))"

lemma line_char_cases:
  assumes t: "inv t" and h: "holds_line buf len line" and c: "0 < c" "c < 256"
  shows "ends_line buf len c line rest t \<or> goes_on buf len c line rest t"
proof -
  have len: "len = length line" using h by (simp add: holds_line_def)
  consider (newline) "c = 0x0D \<or> c = 0x0A" | (rub) "c = 0x08 \<or> c = 0x7F" "0 < len"
    | (put) "c \<noteq> 0x7F" "c \<ge> 0x20" "len < LINE_MAX - 1"
    | (other) "c \<noteq> 0x0D" "c \<noteq> 0x0A" "(c = 0x08 \<or> c = 0x7F) \<and> len = 0 \<or> c \<noteq> 0x08 \<and> c \<noteq> 0x7F \<and> \<not> (c \<ge> 0x20 \<and> len < LINE_MAX - 1)"
    by linarith
  then show ?thesis
  proof cases
    case newline
    from saysE [OF putchar_says t] obtain u where
      u: "con_putchar kst 0x0A t = Some (Ok () u)" "inv u" "pending u = pending t" "obs u = obs t" "screen u = put 0x0A (screen t)" .
    have "line_char kst buf len c t = Some (Ok (length line, buf[len := 0]) u)"
      using newline u(1) len by (simp add: line_char_def bind_run ret_run)
    with newline u holds_line_end [OF h] show ?thesis by (auto simp: ends_line_def)
  next
    case rub
    from saysE [OF print_says t] obtain u where
      u: "con_print kst (Lit [0x08, 0x20, 0x08]) t = Some (Ok () u)" "inv u" "pending u = pending t" "obs u = obs t"
        "screen u = fold put (c_string [0x08, 0x20, 0x08]) (screen t)" .
    have "line_char kst buf len c t = readline_from kst buf (len - 1) u"
      using rub u(1) by (auto simp: line_char_def bind_run)
    moreover have "edit_line (LINE_MAX - 1) line (c # rest) = edit_line (LINE_MAX - 1) (butlast line) rest" using rub by auto
    moreover have "echo (LINE_MAX - 1) line (c # rest) = [0x08, 0x20, 0x08] @ echo (LINE_MAX - 1) (butlast line) rest"
      using rub len by auto
    ultimately show ?thesis using u holds_line_back [OF h rub(2)] unfolding goes_on_def
      by (intro disjI2 exI [of _ buf] exI [of _ "len - 1"] exI [of _ "butlast line"] exI [of _ u]) (simp add: c_string_def)
  next
    case put
    from saysE [OF putchar_says t] obtain u where
      u: "con_putchar kst (word_of_int c) t = Some (Ok () u)" "inv u" "pending u = pending t" "obs u = obs t"
        "screen u = put (word_of_int c) (screen t)" .
    have "line_char kst buf len c t = readline_from kst (buf[len := word_of_int c]) (len + 1) u"
      using put u(1) by (simp add: line_char_def bind_run)
    moreover have "edit_line (LINE_MAX - 1) line (c # rest) = edit_line (LINE_MAX - 1) (line @ [word_of_int c]) rest"
      "echo (LINE_MAX - 1) line (c # rest) = word_of_int c # echo (LINE_MAX - 1) (line @ [word_of_int c]) rest"
      using put len by simp_all
    ultimately show ?thesis using u holds_line_put [OF h put(3) byte_nonzero [OF c]] unfolding goes_on_def
      by (intro disjI2 exI [of _ "buf[len := word_of_int c]"] exI [of _ "len + 1"] exI [of _ "line @ [word_of_int c]"] exI [of _ u]) simp
  next
    case other
    have "line_char kst buf len c t = readline_from kst buf len t" using other by (auto simp: line_char_def)
    moreover have "edit_line (LINE_MAX - 1) line (c # rest) = edit_line (LINE_MAX - 1) line rest"
      "echo (LINE_MAX - 1) line (c # rest) = echo (LINE_MAX - 1) line rest" using other len by auto
    ultimately show ?thesis using t h unfolding goes_on_def
      by (intro disjI2 exI [of _ buf] exI [of _ len] exI [of _ line] exI [of _ t]) simp
  qed
qed

text \<open>
  What a run of the reader from \<open>s\<close> has to give on the characters \<open>chars\<close>: the edited line, or a
  wait when they end before it does; in both cases with the echo on the screen.
\<close>

definition reads :: "u8 list \<Rightarrow> int list \<Rightarrow> 's \<Rightarrow> (nat \<times> u8 list, 's) outcome option \<Rightarrow> bool" where
  "reads line chars s r \<longleftrightarrow> (case edit_line (LINE_MAX - 1) line chars of
      None \<Rightarrow> \<exists>t. r = Some (Wait t) \<and> inv t \<and> obs t = obs s
        \<and> screen t = fold put (echo (LINE_MAX - 1) line chars) (screen s)
    | Some (l, rest) \<Rightarrow> \<exists>buf' t. r = Some (Ok (length l, buf') t)
        \<and> inv t \<and> pending t = rest \<and> obs t = obs s \<and> length buf' = LINE_MAX \<and> c_string buf' = l
        \<and> screen t = fold put (echo (LINE_MAX - 1) line chars) (screen s))"

lemma readline_from_run:
  assumes "inv s" and "holds_line buf len line"
  shows "reads line (pending s) s (readline_from kst buf len s)"
  using assms
proof (induction "pending s" arbitrary: s buf len line)
  case Nil
  with getchar_pending [OF Nil(2)] show ?case
    unfolding Nil(1) [symmetric] by (auto simp: reads_def readline_from_char bind_run)
next
  case (Cons c rest)
  note p = Cons.hyps(2) [symmetric]
  from getchar_pending [OF Cons.prems(1)] p obtain t where
    t: "con_getchar kst s = Some (Ok c t)" "inv t" "pending t = rest" "obs t = obs s" "screen t = screen s" by auto
  have c: "0 < c" "c < 256" using pending_byte [OF Cons.prems(1), of c] p by simp_all
  have run: "readline_from kst buf len s = line_char kst buf len c t" using t(1) by (simp add: readline_from_char bind_run)
  from line_char_cases [OF t(2) Cons.prems(2) c, of rest] show ?case
  proof
    assume "ends_line buf len c line rest t"
    then show ?thesis unfolding ends_line_def run p reads_def t(3-5) by auto
  next
    assume "goes_on buf len c line rest t"
    then obtain buf' n l u where go: "line_char kst buf len c t = readline_from kst buf' n u"
      "edit_line (LINE_MAX - 1) line (c # rest) = edit_line (LINE_MAX - 1) l rest"
      "fold put (echo (LINE_MAX - 1) line (c # rest)) (screen t) = fold put (echo (LINE_MAX - 1) l rest) (screen u)"
      and u: "inv u" "pending u = rest" "obs u = obs s" "holds_line buf' n l"
      unfolding goes_on_def t(3,4) by blast
    from Cons.hyps(1) [OF u(2) [symmetric] u(1,4)] show ?thesis
      unfolding run p reads_def go(1,2) go(3) [unfolded t(5)] u(2,3) .
  qed
qed

lemma readline_run:
  assumes "inv s" and "length buf = LINE_MAX"
  shows "reads [] (pending s) s (readline kst buf s)"
  unfolding readline_def by (rule readline_from_run [OF assms(1) holds_line_empty [OF assms(2)]])

end

section \<open>Every line is read to its end\<close>

context kernel_services
begin

lemma line_char_spec:
  assumes IH: "\<And>buf len. length buf = LINE_MAX \<Longrightarrow> len < LINE_MAX \<Longrightarrow> spec (within inv budget m) (readline_from kst buf len) Q A"
    and fin: "spec (within inv budget m) (ret (len, buf[len := 0])) Q A"
    and leave: "\<And>s. within inv budget m s \<Longrightarrow> A s"
    and line: "length buf = LINE_MAX" "len < LINE_MAX"
  shows "spec (within inv budget m) (line_char kst buf len c) Q A"
proof -
  have after: "spec (within inv budget m) (bind p (\<lambda>_. k)) Q A"
    if "keeps (within inv budget m) p" "spec (within inv budget m) k Q A" for p :: "(unit, 's) prog" and k
    by (rule spec_bind [OF spec_conseq [OF that(1) [unfolded keeps_def]] that(2)]) (auto intro: leave)
  show ?thesis
    unfolding line_char_def
    by (intro spec_if after putchar_keeps print_keeps fin IH) (use line in auto)
qed

lemma readline_from_spec:
  assumes "length buf = LINE_MAX" and "len < LINE_MAX"
  shows "spec (within inv budget n) (readline_from kst buf len)
    (\<lambda>(len, buf) s. inv s \<and> budget s < n \<and> len < LINE_MAX \<and> length buf = LINE_MAX \<and> buf ! len = 0)
    (within inv budget n)"
  using assms
proof (induction n arbitrary: buf len)
  case (0 buf len)
  have "spec (within inv budget 0) (con_getchar kst) (\<lambda>_ _. False) (within inv budget 0)"
    by (rule spec_conseq [OF getchar_takes]) simp_all
  then show ?case unfolding readline_from_char by (rule spec_bind) (simp add: spec_def)
next
  case (Suc m)
  have get: "spec (within inv budget (Suc m)) (con_getchar kst) (\<lambda>c. within inv budget m) (within inv budget (Suc m))"
    by (rule spec_conseq [OF getchar_takes]) (auto simp: within_def)
  show ?case
    unfolding readline_from_char
  proof (rule spec_bind [OF get], rule line_char_spec)
    fix b :: "u8 list" and l assume "length b = LINE_MAX" "l < LINE_MAX"
    from Suc.IH [OF this] show "spec (within inv budget m) (readline_from kst b l)
      (\<lambda>(len, buf) s. inv s \<and> budget s < Suc m \<and> len < LINE_MAX \<and> length buf = LINE_MAX \<and> buf ! len = 0) (within inv budget (Suc m))"
      by (rule spec_conseq) (auto simp: within_def)
  next
    show "spec (within inv budget m) (ret (len, buf[len := 0]))
      (\<lambda>(len, buf) s. inv s \<and> budget s < Suc m \<and> len < LINE_MAX \<and> length buf = LINE_MAX \<and> buf ! len = 0) (within inv budget (Suc m))"
      using Suc.prems by (intro specI) (auto simp: ret_run within_def)
  qed (use Suc.prems in \<open>auto simp: within_def\<close>)
qed

lemma readline_takes:
  assumes "length buf = LINE_MAX" and "inv s"
  shows "readline kst buf s \<noteq> None"
    and "readline kst buf s = Some (Ok (len, buf') t) \<Longrightarrow>
      inv t \<and> budget t < budget s \<and> len < LINE_MAX \<and> length buf' = LINE_MAX \<and> buf' ! len = 0"
proof -
  from specE [OF readline_from_spec [OF assms(1), of 0 "budget s"], of s] assms(2) obtain r where
    "readline kst buf s = Some r" "good (\<lambda>(len, buf) t. inv t \<and> budget t < budget s \<and> len < LINE_MAX
        \<and> length buf = LINE_MAX \<and> buf ! len = 0) (within inv budget (budget s)) r"
    by (auto simp: readline_def within_def LINE_MAX_def)
  then show "readline kst buf s \<noteq> None" "readline kst buf s = Some (Ok (len, buf') t) \<Longrightarrow>
      inv t \<and> budget t < budget s \<and> len < LINE_MAX \<and> length buf' = LINE_MAX \<and> buf' ! len = 0"
    by simp_all
qed

end

end
