(* ===== verification/Boot.thy ===== *)
theory Boot imports Module_Table begin

text \<open>
  The boot path: \<open>hal_arch_init\<close> of \<open>kernel/arch/x86_64/hal.c\<close>, which reads the Multiboot2
  tags, and \<open>kernel_main\<close> of \<open>kernel/kernel.c\<close>.
\<close>

section \<open>The memory map tag\<close>

text \<open>
  The entries of a memory map tag, \<open>entry_size\<close> bytes apart, into the local array
  \<open>regions[64]\<close>: the list holds its first \<open>count\<close> elements.
\<close>

definition read_region :: "u64 \<Rightarrow> (hal_mem_region, 'z hw_scheme) prog" where
  "read_region a = bind (load 8 a) (\<lambda>b. bind (load 8 (a + 8)) (\<lambda>l. bind (load 4 (a + 16)) (\<lambda>t.
     ret \<lparr>base = b, length_of = l, type_of = ucast t\<rparr>)))"

function mmap_entries :: "u64 \<Rightarrow> u64 \<Rightarrow> u64 \<Rightarrow> hal_mem_region list \<Rightarrow> (hal_mem_region list, 'z hw_scheme) prog" where
  "mmap_entries mmap a stop rs = (if a < stop \<and> length rs < 64
     then bind (read_region a) (\<lambda>r. bind (tag_entry_size mmap) (\<lambda>entry_size.
       mmap_entries mmap (a + entry_size) stop (rs @ [r])))
     else ret rs)"
  by pat_completeness auto
termination
  by (relation "measure (\<lambda>(mmap, a, stop, rs). 64 - length rs)") auto

declare mmap_entries.simps [simp del]

definition read_mmap :: "u64 \<Rightarrow> hal_mem_region list \<Rightarrow> (hal_mem_region list, 'z hw_scheme) prog" where
  "read_mmap mmap rs = bind (load 4 (mmap + 4)) (\<lambda>sz. mmap_entries mmap (mmap + 16) (mmap + sz) rs)"

section \<open>The tags\<close>

definition register_tag :: "u64 \<Rightarrow> (unit, 'z kernel_scheme) prog" where
  "register_tag tag = bind (tag_module tag) (\<lambda>(start, stop, line). modules_register start stop line)"

partial_function (option) arch_tags ::
  "u64 \<Rightarrow> hal_mem_region list \<Rightarrow> (hal_mem_region list, 'z kernel_scheme) prog" where
  "arch_tags tag rs s = bind (tag_type tag) (\<lambda>ty. if ty = MB2_TAG_END then ret rs
     else bind (if ty = MB2_TAG_MMAP then read_mmap tag rs else ret rs) (\<lambda>rs.
       bind (if ty = MB2_TAG_MODULE then register_tag tag else skip) (\<lambda>_.
       bind (MB2_TAG_NEXT tag) (\<lambda>next. arch_tags next rs)))) s"

definition hal_arch_init :: "u64 \<Rightarrow> u64 \<Rightarrow> (unit, 'z kernel_scheme) prog" where
  "hal_arch_init boot_magic boot_addr = seq [
     (if boot_magic \<noteq> MULTIBOOT2_MAGIC then hal_panic (str ''Multiboot2 magic is invalid'') else skip),
     hal_console_print (str ''Multiboot2 OK @ ''),
     hal_console_print_hex boot_addr,
     hal_console_print newline,
     bind (arch_tags (boot_addr + 8) []) (\<lambda>rs. hal_mem_set_map rs (of_nat (length rs)))]"

section \<open>The kernel\<close>

definition print_region :: "hal_mem_region \<Rightarrow> (unit, 'z kernel_scheme) prog" where
  "print_region r = seq [
     hal_console_print (str ''  ''),
     hal_console_print_hex (base r),
     hal_console_print (str '' + ''),
     hal_console_print_hex (length_of r),
     hal_console_print (if type_of r = 1 then Lit (lit ''  [usable]'' @ [0x0A])
       else Lit (lit ''  [reserved]'' @ [0x0A]))]"

text \<open>The listing of the \<open>__DEBUG__\<close> build.\<close>

definition print_module :: "u32 \<Rightarrow> (unit, 'z kernel_scheme) prog" where
  "print_module i = bind (get_module (unat i)) (\<lambda>m. seq [
     hal_console_print (str ''  [''),
     hal_console_print_dec (ucast i),
     hal_console_print (str ''] ''),
     hal_console_print (if header m \<noteq> 0 then header_name (header m) else Lit (cmdline m)),
     hal_console_print (str '' @ ''),
     hal_console_print_hex (mod_start m),
     hal_console_print newline])"

definition kernel_main ::
  "bool \<Rightarrow> layout \<Rightarrow> (u64 \<Rightarrow> (unit, 'z kernel_scheme) prog) \<Rightarrow> u64 \<Rightarrow> u64 \<Rightarrow> (unit, 'z kernel_scheme) prog" where
  "kernel_main debug lay entry boot_magic boot_addr =
     bind (hal_early_parse_console boot_addr) (\<lambda>cons.
     bind (seq [
       hal_console_init cons,
       hal_console_clear,
       hal_idt_init lay,
       hal_console_print (Lit (lit ''KDOS Kernel'' @ [0x0A])),
       hal_console_print (Lit (lit ''---------------'' @ [0x0A, 0x0A])),
       hal_arch_init boot_magic boot_addr,
       hal_mem_init (kernel_end lay),
       heap_init (kernel_end lay),
       bind (hal_mem_get_map (replicate 64 \<lparr>base = 0, length_of = 0, type_of = 0\<rparr>) 64) (\<lambda>(n, mmap). seq [
         hal_console_print (Lit (lit ''Memory detected:'' @ [0x0A])),
         for_each [0..<unat n] (\<lambda>i. print_region (mmap ! i))]),
       bind modules_count (\<lambda>count. seq [
         hal_console_print (Lit (0x0A # lit ''Loaded modules: '')),
         hal_console_print_dec (ucast count),
         hal_console_print newline]),
       (if debug then bind (gets mod_count) (\<lambda>n. for_word 0 n print_module) else skip),
       modules_run_all entry,
       modules_launch_entry entry])
     (\<lambda>_. hal_panic (str ''kernel_main end reached.'')))"

section \<open>What a memory map tag says\<close>

definition region_at :: "memory \<Rightarrow> u64 \<Rightarrow> hal_mem_region" where
  "region_at m a = \<lparr>base = read_le m a 8, length_of = read_le m (a + 8) 8, type_of = ucast (read_le m (a + 16) 4)\<rparr>"

definition tag_size :: "memory \<Rightarrow> u64 \<Rightarrow> nat" where
  "tag_size m t = unat (read_le m (t + 4) 4)"

definition entry_size :: "memory \<Rightarrow> u64 \<Rightarrow> nat" where
  "entry_size m t = unat (read_le m (t + 8) 4)"

text \<open>A memory map tag with a whole number of entries of at least 20 bytes.\<close>

definition mmap_ok :: "memory \<Rightarrow> u64 \<Rightarrow> bool" where
  "mmap_ok m t \<longleftrightarrow> mapped t (tag_size m t) \<and> 16 \<le> tag_size m t \<and> 20 \<le> entry_size m t
     \<and> entry_size m t dvd tag_size m t - 16"

definition tag_regions :: "memory \<Rightarrow> u64 \<Rightarrow> hal_mem_region list" where
  "tag_regions m t = map (\<lambda>i. region_at m (t + of_nat (16 + i * entry_size m t)))
     [0..<(tag_size m t - 16) div entry_size m t]"

lemma read_region_run:
  assumes "mapped a 20"
  shows "read_region a s = Some (Ok (region_at (mem s) a) s)"
  using mapped_less [OF assms, of 8] mapped_offset [OF assms, of 8 8] mapped_offset [OF assms, of 4 16]
  by (simp add: read_region_def region_at_def bind_run load_run ret_run)

lemma mmap_entries_run:
  assumes ok: "mmap_ok (mem s) t" and i: "i \<le> (tag_size (mem s) t - 16) div entry_size (mem s) t"
    and rs: "length rs \<le> 64"
  shows "mmap_entries t (t + of_nat (16 + i * entry_size (mem s) t)) (t + of_nat (tag_size (mem s) t)) rs s
    = Some (Ok (take 64 (rs @ drop i (tag_regions (mem s) t))) s)"
  using i rs
proof (induction "(tag_size (mem s) t - 16) div entry_size (mem s) t - i" arbitrary: i rs)
  case 0
  let ?e = "entry_size (mem s) t" and ?z = "tag_size (mem s) t"
  have "i = (?z - 16) div ?e" using 0 by simp
  then have "16 + i * ?e = ?z" using ok by (simp add: mmap_ok_def)
  with 0 show ?case
    by (subst mmap_entries.simps) (simp add: ret_run tag_regions_def)
next
  case (Suc k)
  let ?e = "entry_size (mem s) t" and ?z = "tag_size (mem s) t"
  let ?n = "(?z - 16) div ?e"
  define a where "a = t + of_nat (16 + i * ?e)"
  have map: "mapped t ?z" and e: "20 \<le> ?e" and z: "16 + ?n * ?e = ?z" using ok by (simp_all add: mmap_ok_def)
  have il: "i < ?n" using Suc.hyps(2) by simp
  then have "Suc i * ?e \<le> ?n * ?e" by (intro mult_le_mono1) simp
  then have off: "16 + i * ?e + ?e \<le> ?z" using z by simp
  have m20: "mapped a 20" using off e by (unfold a_def, intro mapped_offset [OF map]) simp
  have "unat a = unat t + (16 + i * ?e)" using off unfolding a_def by (intro unat_in_image [OF map]) simp
  moreover have "unat (t + of_nat ?z) = unat t + ?z" by (rule unat_in_image [OF map]) simp
  ultimately have lt: "a < t + of_nat ?z" using off e by (simp add: word_less_nat_alt)
  have m8: "mapped (t + 8) 4" using off e by (intro mapped_offset [OF map, of 4 8, simplified]) simp
  have tail: "drop i (tag_regions (mem s) t) = region_at (mem s) a # drop (Suc i) (tag_regions (mem s) t)"
    using il Cons_nth_drop_Suc [of i "tag_regions (mem s) t"] by (simp add: tag_regions_def a_def)
  have "mmap_entries t a (t + of_nat ?z) rs s = Some (Ok (take 64 (rs @ drop i (tag_regions (mem s) t))) s)"
  proof (cases "length rs < 64")
    case False
    with Suc.prems show ?thesis
      by (subst mmap_entries.simps) (simp add: ret_run)
  next
    case True
    have nx: "a + read_le (mem s) (t + 8) 4 = t + of_nat (16 + Suc i * ?e)"
      by (simp add: entry_size_def a_def algebra_simps)
    have "mmap_entries t (t + of_nat (16 + Suc i * ?e)) (t + of_nat ?z) (rs @ [region_at (mem s) a]) s
        = Some (Ok (take 64 ((rs @ [region_at (mem s) a]) @ drop (Suc i) (tag_regions (mem s) t))) s)"
      using Suc.hyps(2) il True by (intro Suc.hyps(1)) simp_all
    with True lt show ?thesis
      by (subst mmap_entries.simps) (simp add: bind_run read_region_run [OF m20] tag_entry_size_def load_run [OF m8] nx tail del: of_nat_Suc of_nat_add of_nat_mult)
  qed
  then show ?case by (simp only: a_def)
qed

section \<open>What the tags say\<close>

text \<open>\<open>L\<close> tells the string of a module tag.\<close>

definition tag_ok :: "(u64 \<Rightarrow> u8 list) \<Rightarrow> memory \<Rightarrow> u64 \<Rightarrow> bool" where
  "tag_ok L m t \<longleftrightarrow> (read_le m t 4 = MB2_TAG_MMAP \<longrightarrow> mmap_ok m t)
     \<and> (read_le m t 4 = MB2_TAG_MODULE \<longrightarrow> mapped t 16 \<and> denotes m (Ptr (t + 16)) (L t)
          \<and> mapped (read_le m (t + 8) 4) 4)"

definition all_regions :: "memory \<Rightarrow> u64 list \<Rightarrow> hal_mem_region list" where
  "all_regions m ts = concat (map (tag_regions m) (filter (\<lambda>t. read_le m t 4 = MB2_TAG_MMAP) ts))"

definition register_all :: "(u64 \<Rightarrow> u8 list) \<Rightarrow> memory \<Rightarrow> u64 list \<Rightarrow> module_info list \<Rightarrow> module_info list" where
  "register_all L m ts = fold (\<lambda>t. registers (read_le m (t + 8) 4) (read_le m (t + 12) 4) (L t) m)
     (filter (\<lambda>t. read_le m t 4 = MB2_TAG_MODULE) ts)"

definition table_ok :: "memory \<Rightarrow> 'z kernel_scheme \<Rightarrow> bool" where
  "table_ok m s \<longleftrightarrow> con_inv s \<and> modules_inv s \<and> mem s = m"

lemma tag_kinds [simp]: "MB2_TAG_MMAP \<noteq> MB2_TAG_END" "MB2_TAG_MODULE \<noteq> MB2_TAG_END"
  "MB2_TAG_MODULE \<noteq> MB2_TAG_MMAP" "MB2_TAG_MMAP \<noteq> MB2_TAG_MODULE"
  by (simp_all add: mb2_tag_defs)

lemma register_tag_run:
  fixes s :: "'z kernel_scheme"
  assumes inv: "table_ok m s" and ok: "tag_ok L m t" and ty: "read_le m t 4 = MB2_TAG_MODULE"
  shows "\<exists>r. register_tag t s = Some r
    \<and> good (\<lambda>_ u. table_ok m u \<and> infos u = registers (read_le m (t + 8) 4) (read_le m (t + 12) 4) (L t) m (infos s))
        (table_ok m) r"
proof -
  have m16: "mapped t 16" and str: "denotes (mem s) (Ptr (t + 16)) (L t)" and hd: "mapped (read_le m (t + 8) 4) 4"
    and mem: "mem s = m"
    using ok ty inv by (simp_all add: tag_ok_def table_ok_def)
  have "mapped (t + 8) 4" "mapped (t + 12) 4"
    using mapped_offset [OF m16, of 4 8] mapped_offset [OF m16, of 4 12] by simp_all
  then have "register_tag t s = modules_register (read_le m (t + 8) 4) (read_le m (t + 12) 4) (Ptr (t + 16)) s"
    by (simp add: register_tag_def tag_module_def bind_run load_run ret_run mem)
  moreover have "con_inv s" "modules_inv s" using inv by (simp_all add: table_ok_def)
  ultimately show ?thesis
    using modules_register_spec [OF \<open>modules_inv s\<close> \<open>con_inv s\<close> str hd, of "read_le m (t + 12) 4"] mem
    by (auto simp: table_ok_def [abs_def])
qed

lemma read_mmap_run:
  assumes "mmap_ok (mem s) t" and "mapped (t + 4) 4" and "length rs \<le> 64"
  shows "read_mmap t rs s = Some (Ok (take 64 (rs @ tag_regions (mem s) t)) s)"
  using mmap_entries_run [of s t 0 rs] assms by (simp add: read_mmap_def bind_run load_run tag_size_def)

text \<open>One tag: the regions it adds to the map, and the entry it adds to the table.\<close>

definition with_regions :: "memory \<Rightarrow> u64 \<Rightarrow> hal_mem_region list \<Rightarrow> hal_mem_region list" where
  "with_regions m t rs = (if read_le m t 4 = MB2_TAG_MMAP then take 64 (rs @ tag_regions m t) else rs)"

definition with_info :: "(u64 \<Rightarrow> u8 list) \<Rightarrow> memory \<Rightarrow> u64 \<Rightarrow> module_info list \<Rightarrow> module_info list" where
  "with_info L m t is = (if read_le m t 4 = MB2_TAG_MODULE
     then registers (read_le m (t + 8) 4) (read_le m (t + 12) 4) (L t) m is else is)"

lemma with_tags:
  assumes "length rs \<le> 64"
  shows "length (with_regions m t rs) \<le> 64"
    and "take 64 (with_regions m t rs @ all_regions m ts) = take 64 (rs @ all_regions m (t # ts))"
    and "register_all L m ts (with_info L m t is) = register_all L m (t # ts) is"
  using assms by (auto simp: with_regions_def with_info_def all_regions_def register_all_def take_take_append min_def
      simp flip: append_assoc simp del: take_append)

lemma arch_tags_step:
  fixes s :: "'z kernel_scheme"
  assumes t: "mapped t 4" "mapped (t + 4) 4" "read_le m t 4 \<noteq> MB2_TAG_END" and ok: "tag_ok L m t"
    and s: "table_ok m s" and rs: "length rs \<le> 64"
  obtains r where "arch_tags t rs s = bind (\<lambda>_. Some r)
      (\<lambda>_. arch_tags (t + tag_step (read_le m (t + 4) 4)) (with_regions m t rs)) s"
    and "good (\<lambda>_ u. table_ok m u \<and> infos u = with_info L m t (infos s)) (table_ok m) (r :: (unit, 'z kernel_scheme) outcome)"
proof -
  let ?ty = "read_le m t 4"
  let ?mod = "if ?ty = MB2_TAG_MODULE then register_tag t else skip :: (unit, 'z kernel_scheme) prog"
  have mem: "mem s = m" using s by (simp add: table_ok_def)
  have mmap: "(if ?ty = MB2_TAG_MMAP then read_mmap t rs else ret rs) s = Some (Ok (with_regions m t rs) s)"
    using read_mmap_run [of s t rs] ok t(2) rs mem by (simp add: with_regions_def tag_ok_def ret_run)
  have "\<exists>r. ?mod s = Some r \<and> good (\<lambda>_ u. table_ok m u \<and> infos u = with_info L m t (infos s)) (table_ok m) r"
    using register_tag_run [OF s ok] s by (simp add: with_info_def skip_run)
  then obtain r where r: "?mod s = Some r" "good (\<lambda>_ u. table_ok m u \<and> infos u = with_info L m t (infos s)) (table_ok m) r"
    by blast
  have "arch_tags t rs s = bind ?mod (\<lambda>_. bind (MB2_TAG_NEXT t) (\<lambda>next. arch_tags next (with_regions m t rs))) s"
    using t(1,3) mem mmap by (subst arch_tags.simps) (simp add: bind_run [of _ _ s] tag_type_def load_run)
  also have "\<dots> = bind (\<lambda>_. Some r) (\<lambda>_. arch_tags (t + tag_step (read_le m (t + 4) 4)) (with_regions m t rs)) s"
  proof (cases r)
    case (Ok x u)
    then have "mem u = m" using r(2) by (simp add: table_ok_def)
    with MB2_TAG_NEXT_run [OF t(2), of u] r(1) Ok show ?thesis by (simp add: bind_run)
  qed (use r(1) in \<open>simp_all add: bind_run\<close>)
  finally show thesis using that r(2) by blast
qed

lemma arch_tags_run:
  fixes s :: "'z kernel_scheme"
  assumes "tag_chain m a ts" and "\<forall>t\<in>set ts. tag_ok L m t" and "table_ok m s" and "length rs \<le> 64"
  shows "\<exists>r. arch_tags a rs s = Some r
    \<and> good (\<lambda>rs' u. table_ok m u \<and> rs' = take 64 (rs @ all_regions m ts) \<and> infos u = register_all L m ts (infos s))
        (table_ok m) r"
  using assms
proof (induction ts arbitrary: a rs s)
  case Nil
  then show ?case
    by (subst arch_tags.simps) (simp add: bind_run tag_type_def load_run ret_run table_ok_def
        all_regions_def register_all_def)
next
  case (Cons t ts)
  note t = tag_chain_ConsD [OF Cons.prems(1)]
  have ok: "tag_ok L m a" and oks: "\<forall>t\<in>set ts. tag_ok L m t" using Cons.prems(2) t(5) by simp_all
  note tags = with_tags [OF Cons.prems(4)]
  from arch_tags_step [OF t(1-3) ok Cons.prems(3,4)] obtain r :: "(unit, 'z kernel_scheme) outcome" where
    run: "arch_tags a rs s = bind (\<lambda>_. Some r)
        (\<lambda>_. arch_tags (a + tag_step (read_le m (a + 4) 4)) (with_regions m a rs)) s"
      and r: "good (\<lambda>_ u. table_ok m u \<and> infos u = with_info L m a (infos s)) (table_ok m) r" .
  show ?case
  proof (cases r)
    case (Ok x u)
    then have u: "table_ok m u" "infos u = with_info L m a (infos s)" using r by simp_all
    show ?thesis
      using Cons.IH [OF t(4) oks u(1) tags(1), of m a] run Ok
      unfolding tags(2) u(2) tags(3) t(5) [symmetric] by (simp add: bind_run del: take_append)
  qed (use r run in \<open>auto simp: bind_run\<close>)
qed

section \<open>Architecture initialisation\<close>

text \<open>A bad magic number is a panic, whatever the structure holds.\<close>

lemma hal_arch_init_bad_magic:
  fixes s :: "'z kernel_scheme"
  assumes "con_inv s" and "boot_magic \<noteq> MULTIBOOT2_MAGIC"
  shows "\<exists>t. (hal_arch_init boot_magic boot_addr s = Some (Halt t) \<or> hal_arch_init boot_magic boot_addr s = Some (Wait t))
    \<and> con_inv t \<and> \<not> intr_enabled t"
proof -
  from hal_panic_lit [OF assms(1)] obtain t and r :: "(unit, 'z kernel_scheme) outcome" where
    "hal_panic (str ''Multiboot2 magic is invalid'') s = Some r" "r = Halt t \<or> r = Wait t"
    "con_inv t \<and> \<not> intr_enabled t" by blast
  with assms(2) show ?thesis by (auto simp: hal_arch_init_def bind_run simp del: lit_Cons)
qed

lemma unchanged_upd_module:
  "(\<And>s x. f (s\<lparr>modules := x\<rparr>) = f s) \<Longrightarrow> unchanged f (upd_module i g)"
  by (auto simp: unchanged_def upd_module_def)

lemma unchanged_get_module: "unchanged f (get_module i)"
  by (auto simp: unchanged_def get_module_def)

lemma unchanged_str_copy_from: "unchanged f (str_copy_from dst src i limit)"
proof (induction dst src i limit rule: str_copy_from.induct)
  case (1 dst src i limit)
  show ?case
    by (subst str_copy_from.simps) (intro unchanged_intros 1; simp)
qed

lemma unchanged_modules_register:
  assumes "print_free f" "\<And>s x. f (s\<lparr>modules := x\<rparr>) = f s" "\<And>s x. f (s\<lparr>mod_count := x\<rparr>) = f s"
  shows "unchanged f (modules_register start stop c)"
  unfolding modules_register_def str_copy_def header_magic_def
  by (intro unchanged_intros unchanged_upd_module unchanged_get_module unchanged_str_copy_from assms)

lemma unchanged_mmap_entries: "unchanged f (mmap_entries t a stop rs)"
proof (induction t a stop rs rule: mmap_entries.induct)
  case (1 t a stop rs)
  show ?case
    by (subst mmap_entries.simps) (unfold read_region_def, intro unchanged_intros 1; simp)
qed

lemma unchanged_read_mmap: "unchanged f (read_mmap t rs)"
  unfolding read_mmap_def by (intro unchanged_intros unchanged_mmap_entries)

lemma unchanged_register_tag:
  assumes "print_free f" "\<And>s x. f (s\<lparr>modules := x\<rparr>) = f s" "\<And>s x. f (s\<lparr>mod_count := x\<rparr>) = f s"
  shows "unchanged f (register_tag t)"
  unfolding register_tag_def split_def by (intro unchanged_intros unchanged_modules_register assms)

lemma unchanged_arch_tags:
  fixes f :: "'z kernel_scheme \<Rightarrow> 'f"
  assumes f: "print_free f" "\<And>s x. f (s\<lparr>modules := x\<rparr>) = f s" "\<And>s x. f (s\<lparr>mod_count := x\<rparr>) = f s"
  shows "unchanged f (arch_tags tag rs)"
proof (rule unchangedI)
  fix s :: "'z kernel_scheme" and r assume "arch_tags tag rs s = Some r"
  then show "leaves f s r"
  proof (rule arch_tags.raw_induct [where P = "\<lambda>tag rs s r. leaves f s r", rotated])
    fix rec tag rs s r
    assume IH: "\<And>tag rs s r. rec tag rs s = Some r \<Longrightarrow> leaves f s r"
      and eq: "bind (tag_type tag) (\<lambda>ty. if ty = MB2_TAG_END then ret rs
         else bind (if ty = MB2_TAG_MMAP then read_mmap tag rs else ret rs) (\<lambda>rs.
           bind (if ty = MB2_TAG_MODULE then register_tag tag else skip) (\<lambda>_.
           bind (MB2_TAG_NEXT tag) (\<lambda>next. rec next rs)))) s = Some r"
    have "unchanged f (rec tag rs)" for tag rs using IH by (rule unchangedI)
    then have "unchanged f (bind (tag_type tag) (\<lambda>ty. if ty = MB2_TAG_END then ret rs
         else bind (if ty = MB2_TAG_MMAP then read_mmap tag rs else ret rs) (\<lambda>rs.
           bind (if ty = MB2_TAG_MODULE then register_tag tag else skip) (\<lambda>_.
           bind (MB2_TAG_NEXT tag) (\<lambda>next. rec next rs)))))"
      by (intro unchanged_intros unchanged_register_tag unchanged_read_mmap f)
    then show "leaves f s r" using eq by (rule unchangedD)
  qed
qed

text \<open>
  With the right magic number: the map is the first 64 entries of all memory map tags, and
  every module tag is registered in order.
\<close>

definition arch_ready :: "('z kernel_scheme \<Rightarrow> bool) \<Rightarrow> memory \<Rightarrow> module_info list \<Rightarrow> 'z kernel_scheme \<Rightarrow> bool" where
  "arch_ready K m is s \<longleftrightarrow> modules_inv s \<and> mem s = m \<and> infos s = is \<and> K s"

definition boot_local :: "('z kernel_scheme \<Rightarrow> 'f) \<Rightarrow> bool" where
  "boot_local f \<longleftrightarrow> con_local f \<and> (\<forall>s x. f (s\<lparr>modules := x\<rparr>) = f s) \<and> (\<forall>s x. f (s\<lparr>mod_count := x\<rparr>) = f s)
     \<and> (\<forall>s x. f (s\<lparr>mem_map := x\<rparr>) = f s) \<and> (\<forall>s x. f (s\<lparr>mem_map_count := x\<rparr>) = f s)"

lemma con_local_arch_ready: "con_local K \<Longrightarrow> con_local (arch_ready K m is)"
  by (simp add: con_local_def vga_local_def kbd_local_def arch_ready_def modules_inv_def infos_def loaded_def)

lemma con_and_arch_ready: "con_and (arch_ready K m is) s \<longleftrightarrow> table_ok m s \<and> infos s = is \<and> K s"
  by (auto simp: con_and_def arch_ready_def table_ok_def)

text \<open>The two halves behind the printing: the tags, and the map that is handed on.\<close>

lemma arch_tags_spec:
  fixes K :: "'z kernel_scheme \<Rightarrow> bool"
  assumes tags: "tag_chain m a ts" "\<forall>t\<in>set ts. tag_ok L m t" and K: "boot_local K"
  shows "spec (con_and (arch_ready (\<lambda>s. length (mem_map s) = 64 \<and> K s) m is)) (arch_tags a [])
    (\<lambda>rs s. rs = take 64 (all_regions m ts)
      \<and> con_and (arch_ready (\<lambda>s. length (mem_map s) = 64 \<and> K s) m (register_all L m ts is)) s) con_inv"
proof (rule specI)
  let ?K = "\<lambda>s :: 'z kernel_scheme. length (mem_map s) = 64 \<and> K s"
  fix s assume "con_and (arch_ready ?K m is) s"
  then have s: "table_ok m s" "infos s = is" "?K s" by (simp_all add: con_and_arch_ready)
  from arch_tags_run [OF tags s(1), of "[]"] s(2) obtain r where r: "arch_tags a [] s = Some r"
    "good (\<lambda>rs' u. table_ok m u \<and> rs' = take 64 (all_regions m ts) \<and> infos u = register_all L m ts is) (table_ok m) r"
    by auto
  have "unchanged ?K (arch_tags a [])"
    using K by (intro unchanged_arch_tags con_local_print) (simp_all add: boot_local_def con_local_def vga_local_def kbd_local_def)
  then have "leaves ?K s r" using r(1) by (rule unchangedD)
  with r s(3) show "\<exists>r. arch_tags a [] s = Some r \<and> good (\<lambda>rs s. rs = take 64 (all_regions m ts)
      \<and> con_and (arch_ready ?K m (register_all L m ts is)) s) con_inv r"
    by (cases r) (auto simp: con_and_arch_ready table_ok_def)
qed

lemma set_map_spec:
  fixes K :: "'z kernel_scheme \<Rightarrow> bool"
  assumes K: "boot_local K"
  shows "spec (\<lambda>s. rs = take 64 all \<and> con_and (arch_ready (\<lambda>s. length (mem_map s) = 64 \<and> K s) m is) s)
    (hal_mem_set_map rs (of_nat (length rs)))
    (\<lambda>_. con_and (arch_ready (\<lambda>s. mem_map_inv s \<and> regions s = take 64 all \<and> K s) m is)) con_inv"
proof (rule specI, elim conjE)
  fix s assume rs: "rs = take 64 all" and s: "con_and (arch_ready (\<lambda>s. length (mem_map s) = 64 \<and> K s) m is) s"
  have len: "length (mem_map s) = 64" using s by (simp add: con_and_arch_ready)
  have n: "unat (of_nat (length rs) :: u32) = length rs" using rs by (simp add: unat_of_nat)
  let ?t = "s\<lparr>mem_map_count := (if of_nat (length rs) < (64 :: u32) then of_nat (length rs) else 64),
    mem_map := take (min (length rs) 64) rs @ drop (min (length rs) 64) (mem_map s)\<rparr>"
  have run: "hal_mem_set_map rs (of_nat (length rs)) s = Some (Ok () ?t)"
    using hal_mem_set_map_run [OF len, of "of_nat (length rs)" rs] n by simp
  have "K ?t" using K s by (simp add: boot_local_def con_and_arch_ready)
  moreover have "table_ok m ?t \<and> infos ?t = infos s"
    using s by (simp add: con_and_arch_ready table_ok_def con_inv_def vga_inv_def on_serial_def modules_inv_def infos_def loaded_def)
  ultimately have "con_and (arch_ready (\<lambda>s. mem_map_inv s \<and> regions s = take 64 all \<and> K s) m is) ?t"
    using regions_set_map [OF len _ run] n s rs by (simp add: con_and_arch_ready take_min_length)
  with run show "\<exists>r. hal_mem_set_map rs (of_nat (length rs)) s = Some r
    \<and> good (\<lambda>_. con_and (arch_ready (\<lambda>s. mem_map_inv s \<and> regions s = take 64 all \<and> K s) m is)) con_inv r" by simp
qed

lemma hal_arch_init_spec:
  fixes K :: "'z kernel_scheme \<Rightarrow> bool"
  assumes tags: "tag_chain m (boot_addr + 8) ts" "\<forall>t\<in>set ts. tag_ok L m t" and K: "boot_local K"
  shows "spec (con_and (arch_ready (\<lambda>s. length (mem_map s) = 64 \<and> K s) m is))
    (hal_arch_init MULTIBOOT2_MAGIC boot_addr)
    (\<lambda>_. con_and (arch_ready (\<lambda>s. mem_map_inv s \<and> regions s = take 64 (all_regions m ts) \<and> K s) m (register_all L m ts is)))
    con_inv"
proof -
  let ?K = "\<lambda>s :: 'z kernel_scheme. length (mem_map s) = 64 \<and> K s"
  let ?P = "con_and (arch_ready ?K m is)"
  let ?Q = "con_and (arch_ready (\<lambda>s. mem_map_inv s \<and> regions s = take 64 (all_regions m ts) \<and> K s) m (register_all L m ts is))"
  have "con_local ?K" using K by (simp add: boot_local_def con_local_def vga_local_def kbd_local_def)
  note loc = con_local_arch_ready [OF this]
  have P: "?P s \<Longrightarrow> con_inv s" for s by (simp add: con_and_def)
  have "spec ?P (bind (arch_tags (boot_addr + 8) []) (\<lambda>rs. hal_mem_set_map rs (of_nat (length rs)))) (\<lambda>_. ?Q) con_inv"
    by (rule spec_bind [OF arch_tags_spec [OF tags K] set_map_spec [OF K]])
  then have last: "spec ?P (seq [bind (arch_tags (boot_addr + 8) []) (\<lambda>rs. hal_mem_set_map rs (of_nat (length rs)))])
      (\<lambda>_. ?Q) con_inv" by simp
  show ?thesis
    unfolding hal_arch_init_def
    by (rule spec_seq_keeps [OF _ P spec_seq_keeps [OF _ P spec_seq_keeps [OF _ P spec_seq_keeps [OF _ P last]]]])
      (simp_all add: keeps_skip keeps_hal_console_print_Lit keeps_hal_console_print_hex loc del: lit_Cons)
qed

end
