(* ===== verification/Boot_Waits.thy ===== *)
theory Boot_Waits imports Boot begin

text \<open>
  What keeps the kernel waiting on its way up. A program of the kernel that does not panic
  never halts; it waits only for the serial line while that is the console, or, when it sets
  the display up, for a keyboard controller that never gets quiet.
\<close>

section \<open>Programs that only wait\<close>

text \<open>\<open>only_waits W m\<close>: whatever the start, \<open>m\<close> never halts, and where it waits \<open>W\<close> holds.\<close>

fun waits_in :: "('s \<Rightarrow> bool) \<Rightarrow> ('a, 's) outcome \<Rightarrow> bool" where
  "waits_in W (Halt t) = False"
| "waits_in W (Wait t) = W t"
| "waits_in W r = True"

definition only_waits :: "('s \<Rightarrow> bool) \<Rightarrow> ('a, 's) prog \<Rightarrow> bool" where
  "only_waits W m \<longleftrightarrow> (\<forall>s r. m s = Some r \<longrightarrow> waits_in W r)"

named_theorems waits_intros

lemma only_waitsI: "(\<And>s r. m s = Some r \<Longrightarrow> waits_in W r) \<Longrightarrow> only_waits W m"
  by (simp add: only_waits_def)

lemma only_waitsD: "only_waits W m \<Longrightarrow> m s = Some r \<Longrightarrow> waits_in W r"
  by (simp add: only_waits_def)

lemma waits_bind [waits_intros]:
  assumes m: "only_waits W m" and k: "\<And>a. only_waits W (k a)"
  shows "only_waits W (bind m k)"
proof (rule only_waitsI)
  fix s r assume r: "bind m k s = Some r"
  then obtain r' where r': "m s = Some r'" by (auto simp: bind_run split: option.splits)
  from only_waitsD [OF m this] r r' only_waitsD [OF k] show "waits_in W r"
    by (cases r') (auto simp: bind_run)
qed

lemma waits_basic [waits_intros]:
  "only_waits W (ret a)" "only_waits W skip" "only_waits W (gets f)" "only_waits W (modify g)" "only_waits W undef"
  by (auto simp: only_waits_def ret_run skip_run gets_run modify_run undef_run)

lemma waits_if [waits_intros]: "(c \<Longrightarrow> only_waits W m) \<Longrightarrow> (\<not> c \<Longrightarrow> only_waits W k) \<Longrightarrow> only_waits W (if c then m else k)"
  by simp

lemma waits_branch [waits_intros]: "only_waits W m \<Longrightarrow> only_waits W k \<Longrightarrow> only_waits W (branch c m k)"
  by (auto simp: only_waits_def branch_run)

lemma waits_seq [waits_intros]:
  "only_waits W (seq [])" "only_waits W m \<Longrightarrow> only_waits W (seq ms) \<Longrightarrow> only_waits W (seq (m # ms))"
  by (simp_all add: waits_basic waits_bind)

lemma waits_for_each [waits_intros]: "(\<And>x. only_waits W (f x)) \<Longrightarrow> only_waits W (for_each xs f)"
  by (induction xs) (auto intro: waits_intros)

lemma waits_conseq: "only_waits V m \<Longrightarrow> (\<And>t. V t \<Longrightarrow> W t) \<Longrightarrow> only_waits W m"
proof (rule only_waitsI)
  fix s r assume m: "only_waits V m" "m s = Some r" and vw: "\<And>t. V t \<Longrightarrow> W t"
  from only_waitsD [OF m] vw show "waits_in W r" by (cases r) auto
qed

text \<open>Where a contract says how a program ends, the two meet.\<close>

lemma spec_waits:
  assumes "spec P m Q H" and "only_waits W m"
  shows "spec P m Q (\<lambda>t. H t \<and> W t)"
proof (rule specI)
  fix s assume "P s"
  with assms(1) obtain r where r: "m s = Some r" "good Q H r" by (rule specE)
  with only_waitsD [OF assms(2) r(1)] show "\<exists>r. m s = Some r \<and> good Q (\<lambda>t. H t \<and> W t) r"
    by (cases r) auto
qed

lemma spec_seq_waits:
  assumes "spec P m (\<lambda>_. R) K" and "only_waits W m" and "\<And>t. K t \<Longrightarrow> W t \<Longrightarrow> H t"
    and "spec R (seq ms) Q H"
  shows "spec P (seq (m # ms)) Q H"
  by (rule spec_seq_Cons [OF spec_conseq [OF spec_waits [OF assms(1,2)]] assms(4)]) (simp_all add: assms(3))

section \<open>Machine and drivers\<close>

lemma waits_memory [waits_intros]:
  "only_waits W (load8 a)" "only_waits W (store8 a v)" "only_waits W (load n a)" "only_waits W (outb p b)"
  by (auto simp: only_waits_def load8_def store8_def load_def outb_run)

lemma waits_deref [waits_intros]: "only_waits W (deref c)"
  by (cases c rule: deref.cases) (auto simp: only_waits_def ret_run load8_def)

lemma waits_put_string [waits_intros]:
  fixes W :: "'z hw_scheme \<Rightarrow> bool"
  assumes "\<And>x. only_waits W (put x)"
  shows "only_waits W (put_string put c)"
proof (rule only_waitsI)
  fix s :: "'z hw_scheme" and r assume run: "put_string put c s = Some r"
  have "(\<forall>x. only_waits W (put x)) \<longrightarrow> waits_in W r"
  proof (rule put_string.raw_induct [where P = "\<lambda>put c s r. (\<forall>x. only_waits W (put x)) \<longrightarrow> waits_in W r", OF _ run], rule impI)
    fix rec :: "(u8 \<Rightarrow> (unit, 'z hw_scheme) prog) \<Rightarrow> cstr \<Rightarrow> (unit, 'z hw_scheme) prog" and put c s r
    assume IH: "\<And>put c s r. rec put c s = Some r \<Longrightarrow> (\<forall>x. only_waits W (put x)) \<longrightarrow> waits_in W r"
      and eq: "bind (deref c) (\<lambda>x. if x = 0 then skip else bind (put x) (\<lambda>_. rec put (adv c))) s = Some r"
      and put: "\<forall>x. only_waits W (put x)"
    have "only_waits W (rec put (adv c))" using IH put by (blast intro: only_waitsI)
    then have "only_waits W (bind (deref c) (\<lambda>x. if x = 0 then skip else bind (put x) (\<lambda>_. rec put (adv c))))"
      using put by (intro waits_intros) blast+
    then show "waits_in W r" using eq by (rule only_waitsD)
  qed
  with assms show "waits_in W r" by blast
qed

lemma waits_vga [waits_intros]:
  "only_waits W (vga_putchar c)" "only_waits W vga_clear" "only_waits W vga_init"
proof -
  have cell: "only_waits W (vga_cell i)" "only_waits W (vga_set_cell i v)" for i v
    by (auto simp: only_waits_def vga_cell_def vga_set_cell_def)
  have cursor: "only_waits W vga_update_cursor"
    unfolding vga_update_cursor_def by (intro waits_intros)
  have "only_waits W vga_settle"
    unfolding vga_settle_def scroll_def by (intro waits_intros cell cursor)
  then show "only_waits W (vga_putchar c)"
    unfolding vga_putchar_def by (intro waits_intros) (auto intro!: waits_intros cell)
  show "only_waits W vga_clear" unfolding vga_clear_def by (intro waits_intros cell cursor)
  then show "only_waits W vga_init" unfolding vga_init_def by (intro waits_intros)
qed

text \<open>On the display nothing waits; on the serial console only the line does.\<close>

lemma waits_route:
  assumes "only_waits (\<lambda>_. True) m" and "unchanged on_serial m" and "only_waits on_serial k"
  shows "only_waits on_serial (branch on_serial m k)"
proof (rule only_waitsI)
  fix s r assume r: "branch on_serial m k s = Some r"
  show "waits_in on_serial r"
  proof (cases "on_serial s")
    case True
    with r have m: "m s = Some r" by (simp add: branch_run)
    from only_waitsD [OF assms(1) m] unchangedD [OF assms(2) m] True show ?thesis
      by (cases r) auto
  next
    case False
    with r have "k s = Some r" by (simp add: branch_run)
    with assms(3) show ?thesis by (rule only_waitsD)
  qed
qed

lemma waits_serial_putchar: "only_waits (\<lambda>_. True) (serial_putchar c)"
proof -
  have "only_waits (\<lambda>_. True) (poll p b)" for p b
    by (auto simp: only_waits_def poll_run poll_result_def split: list.splits)
  then show ?thesis unfolding serial_putchar_def wait_transmit_empty_def by (intro waits_intros)
qed

lemma waits_console [waits_intros]:
  "only_waits on_serial (hal_console_putchar b)" "only_waits on_serial (hal_console_print c)"
  "only_waits on_serial (hal_console_print_hex v)" "only_waits on_serial (hal_console_print_dec v)"
  "only_waits on_serial hal_console_clear"
proof -
  show p: "only_waits on_serial (hal_console_putchar b)" for b
    unfolding hal_console_putchar_def
    by (intro waits_route waits_intros waits_serial_putchar unchanged_intros) simp
  show print: "only_waits on_serial (hal_console_print c)" for c
    unfolding hal_console_print_def serial_print_def vga_print_def
    by (intro waits_route waits_intros waits_serial_putchar unchanged_intros) simp
  show "only_waits on_serial (hal_console_print_hex v)"
    unfolding hal_console_print_hex_def serial_print_hex_def vga_print_hex_def serial_print_def vga_print_def
    by (intro waits_route waits_intros waits_serial_putchar unchanged_intros) simp_all
  show "only_waits on_serial (hal_console_print_dec v)"
    unfolding hal_console_print_dec_def
    by (intro waits_if p) (auto split: option.split intro!: waits_intros print)
  show "only_waits on_serial hal_console_clear"
    unfolding hal_console_clear_def by (intro waits_intros)
qed

text \<open>
  \<open>keyboard_init\<close> empties the output buffer of the controller. It comes to its end when the
  controller reports it empty after as many bytes as it has.
\<close>

fun drains :: "u8 list \<Rightarrow> u8 list \<Rightarrow> bool" where
  "drains [] ds = False"
| "drains (v # vs) ds = (v AND 0x01 = 0 \<or> ds \<noteq> [] \<and> drains vs (tl ds))"

definition keyboard_quiet :: "'z hw_scheme \<Rightarrow> bool" where
  "keyboard_quiet s \<longleftrightarrow> drains (port_in s KBD_STATUS) (port_in s KBD_DATA)"

text \<open>What is left of the two scripts then, and the state with it.\<close>

fun drained_ports :: "u8 list \<Rightarrow> u8 list \<Rightarrow> u8 list \<times> u8 list" where
  "drained_ports [] ds = ([], ds)"
| "drained_ports (v # vs) ds = (if v AND 0x01 = 0 then (vs, ds) else drained_ports vs (tl ds))"

definition drained :: "'z hw_scheme \<Rightarrow> 'z hw_scheme" where
  "drained s = (case drained_ports (port_in s KBD_STATUS) (port_in s KBD_DATA) of (vs, ds) \<Rightarrow>
     s\<lparr>port_in := (port_in s)(KBD_STATUS := vs, KBD_DATA := ds)\<rparr>)"

lemma keyboard_init_quiet:
  fixes s :: "'z kbd_scheme"
  assumes "keyboard_quiet s"
  shows "keyboard_init s = Some (Ok () (drained s))"
  using assms
proof (induction "port_in s KBD_STATUS" arbitrary: s)
  case Nil
  then show ?case by (simp add: keyboard_quiet_def flip: Nil(1))
next
  case (Cons v vs)
  note status = Cons(2) [symmetric]
  let ?s = "s\<lparr>port_in := (port_in s)(KBD_STATUS := vs)\<rparr>"
  have st: "inb KBD_STATUS s = Some (Ok v ?s)" using status by (simp add: inb_Cons)
  show ?case
  proof (cases "v AND 0x01 = 0")
    case True
    have "drained s = ?s" using status True by (simp add: drained_def fun_upd_twist)
    with st True show ?thesis by (subst keyboard_init.simps) (simp add: bind_run skip_run)
  next
    case False
    with Cons.prems status have d: "port_in s KBD_DATA \<noteq> []" "drains vs (tl (port_in s KBD_DATA))"
      by (simp_all add: keyboard_quiet_def)
    then obtain x xs where x: "port_in s KBD_DATA = x # xs" by (cases "port_in s KBD_DATA") auto
    let ?t = "?s\<lparr>port_in := (port_in ?s)(KBD_DATA := xs)\<rparr>"
    have data: "inb KBD_DATA ?s = Some (Ok x ?t)"
      using x by (intro inb_Cons) simp
    have t: "port_in ?t KBD_STATUS = vs" "port_in ?t KBD_DATA = xs" by simp_all
    have "keyboard_quiet ?t" unfolding keyboard_quiet_def t using d(2) x by simp
    with Cons(1) [of ?t] t have "keyboard_init ?t = Some (Ok () (drained ?t))" by auto
    moreover have "drained ?t = drained s"
      unfolding drained_def t using status x False by (simp add: fun_upd_twist split: prod.split)
    ultimately show ?thesis using st data False by (subst keyboard_init.simps) (simp add: bind_run)
  qed
qed

lemma hal_console_init_returns:
  fixes s :: "'z hal_scheme"
  assumes "length (vram s) = VGA_ROWS * VGA_COLS" and "cons = HAL_CONSOLE_VGA \<Longrightarrow> keyboard_quiet s"
  shows "\<exists>t. hal_console_init cons s = Some (Ok () t)"
proof (cases "cons = HAL_CONSOLE_SERIAL")
  case True
  then show ?thesis by (simp add: hal_console_init_def serial_init_def bind_run modify_run outb_run skip_run)
next
  case False
  let ?s = "s\<lparr>active_console := cons\<rparr>"
  from vga_init_inv [of ?s] assms(1) obtain t where t: "vga_init ?s = Some (Ok () t)" by auto
  have "vga_local (port_in :: 'z hal_scheme \<Rightarrow> _)" by (simp add: vga_local_def)
  from unchanged_OkD [OF unchanged_vga_init [OF this] t] have "keyboard_quiet t"
    using assms(2) False by (cases cons) (simp_all add: keyboard_quiet_def)
  from keyboard_init_quiet [OF this] t False show ?thesis
    by (auto simp: hal_console_init_def bind_run modify_run skip_run)
qed

section \<open>The tags\<close>

lemma waits_str_copy [waits_intros]: "only_waits W (str_copy dst src limit)"
proof -
  have "only_waits W (str_copy_from dst src i limit)" for i
  proof (induction dst src i limit rule: str_copy_from.induct)
    case (1 dst src i limit)
    show ?case by (subst str_copy_from.simps) (auto intro!: waits_intros 1)
  qed
  then show ?thesis by (simp add: str_copy_def)
qed

lemma waits_register: "only_waits on_serial (modules_register start stop line)"
proof -
  have m: "only_waits on_serial (upd_module i f)" "only_waits on_serial (get_module i)" for i f
    by (auto simp: only_waits_def upd_module_def get_module_def)
  show ?thesis unfolding modules_register_def header_magic_def by (intro waits_intros m)
qed

lemma waits_mmap_entries: "only_waits W (mmap_entries mmap a stop rs)"
proof (induction mmap a stop rs rule: mmap_entries.induct)
  case (1 mmap a stop rs)
  show ?case
    by (subst mmap_entries.simps) (auto simp: read_region_def tag_entry_size_def intro!: waits_intros 1)
qed

lemma waits_arch_tags: "only_waits on_serial (arch_tags tag rs)"
proof (rule only_waitsI)
  fix s :: "'z kernel_scheme" and r assume "arch_tags tag rs s = Some r"
  then show "waits_in on_serial r"
  proof (rule arch_tags.raw_induct [where P = "\<lambda>_ _ s r. waits_in on_serial r", rotated])
    fix rec :: "u64 \<Rightarrow> hal_mem_region list \<Rightarrow> (hal_mem_region list, 'z kernel_scheme) prog" and tag rs s r
    assume "\<And>tag rs s r. rec tag rs s = Some r \<Longrightarrow> waits_in on_serial r"
    then have rec: "only_waits on_serial (rec tag rs)" for tag rs by (rule only_waitsI)
    let ?b = "bind (tag_type tag) (\<lambda>ty. if ty = MB2_TAG_END then ret rs
     else bind (if ty = MB2_TAG_MMAP then read_mmap tag rs else ret rs) (\<lambda>rs.
       bind (if ty = MB2_TAG_MODULE then register_tag tag else skip) (\<lambda>_.
       bind (MB2_TAG_NEXT tag) (\<lambda>next. rec next rs))))"
    assume "?b s = Some r"
    moreover have "only_waits on_serial ?b"
      unfolding tag_type_def MB2_TAG_NEXT_def read_mmap_def register_tag_def tag_module_def split_def
      by (intro waits_intros waits_mmap_entries waits_register rec)
    ultimately show "waits_in on_serial r" by (blast intro: only_waitsD)
  qed
qed

lemma waits_arch_init: "only_waits on_serial (hal_arch_init MULTIBOOT2_MAGIC boot_addr)"
  unfolding hal_arch_init_def hal_mem_set_map_def by (simp only: simp_thms if_False) (intro waits_intros waits_arch_tags)

end
