(* ===== verification/Boot_Stages.thy ===== *)
theory Boot_Stages imports Boot_Waits begin

text \<open>
  The boot path as a whole: what each call of \<open>kernel_main\<close> establishes, stage by stage, up to
  the ready state in which the modules start.
\<close>

section \<open>The kernel boots\<close>

definition usable_frames :: "hal_mem_region list \<Rightarrow> u64 \<Rightarrow> nat set" where
  "usable_frames rs kend = (\<Union>r\<in>set rs. region_frames r) - page_frames 0 (unat (page_up kend) div 4096)"

definition frames_below :: "hal_mem_region list \<Rightarrow> nat" where
  "frames_below rs = min max_frames (unat (page_frame (top_of rs)))"

text \<open>
  There is room for the heap where the kernel wants it: the first run of 1024 usable frames
  starts with the page behind the image.
\<close>

definition heap_room :: "u64 \<Rightarrow> hal_mem_region list \<Rightarrow> bool" where
  "heap_room kend rs \<longleftrightarrow>
     first_fit 1024 (usable_frames rs kend) (frames_below rs) = Some (unat (page_up kend) div 4096)"

text \<open>
  What holds before the modules run: the console works, the descriptor tables are set, the
  memory map and the module table are those of the tags, the free frames are the usable
  ones less the heap, which starts behind the image and is empty.
\<close>

definition machine_ready :: "u64 \<Rightarrow> hal_mem_region list \<Rightarrow> 'z kernel_scheme \<Rightarrow> bool" where
  "machine_ready kend rs s \<longleftrightarrow> mem_map_inv s \<and> regions s = rs \<and> tables_ok s
     \<and> pmm_inv s \<and> free_frames s = usable_frames rs kend - block (page_up kend) HEAP_PAGES
     \<and> heap_inv s \<and> heap_cur s = page_up kend"

definition kernel_ready :: "hal_console_type \<Rightarrow> u64 \<Rightarrow> hal_mem_region list \<Rightarrow> memory \<Rightarrow> module_info list \<Rightarrow> 'z kernel_scheme \<Rightarrow> bool" where
  "kernel_ready cons kend rs m is =
     con_and (arch_ready (\<lambda>s. machine_ready kend rs s \<and> active_console s = cons) m is)"

text \<open>The static variables before the kernel runs, and the picture memory of the display.\<close>

definition power_on :: "memory \<Rightarrow> 'z kernel_scheme \<Rightarrow> bool" where
  "power_on m s \<longleftrightarrow> length (vram s) = VGA_ROWS * VGA_COLS \<and> length (mem_map s) = 64
     \<and> tables_ok s \<and> bitmap_ok s \<and> modules_inv s \<and> mod_count s = 0 \<and> mem s = m"

lemma con_local_eqs [simp]:
  "con_local tables_ok" "con_local bitmap_ok" "con_local free_frames" "con_local heap_inv"
  "con_local heap_cur" "con_local regions" "con_local mem_map_inv" "con_local pmm_inv"
  by (rule con_localI; simp add: tables_ok_def bitmap_ok_def free_frames_def heap_inv_def regions_def
      mem_map_inv_def pmm_inv_def)+

lemma con_local_conj: "con_local P \<Longrightarrow> con_local Q \<Longrightarrow> con_local (\<lambda>s. P s \<and> Q s)"
  by (simp add: con_local_def vga_local_def kbd_local_def)

lemma con_local_eq: "con_local f \<Longrightarrow> con_local (\<lambda>s. f s = x)"
  by (rule con_local_comp)

lemma con_local_ready: "con_local (arch_ready (\<lambda>s. machine_ready kend rs s \<and> active_console s = cons) m is)"
  unfolding machine_ready_def [abs_def]
  by (intro con_local_arch_ready con_local_conj con_local_eq) simp_all

lemma infos_cong: "modules s = modules t \<Longrightarrow> mod_count s = mod_count t \<Longrightarrow> infos s = infos t"
  by (simp add: infos_def loaded_def)

text \<open>One stage after the other.\<close>

definition boot_state :: "'z kernel_scheme \<Rightarrow> bool" where
  "boot_state s \<longleftrightarrow> length (mem_map s) = 64 \<and> tables_ok s \<and> bitmap_ok s"

definition before_arch :: "hal_console_type \<Rightarrow> memory \<Rightarrow> 'z kernel_scheme \<Rightarrow> bool" where
  "before_arch cons m = con_and (arch_ready (\<lambda>s. boot_state s \<and> active_console s = cons) m [])"

lemma con_local_boot_state: "con_local boot_state"
  by (rule con_localI) (simp_all add: boot_state_def tables_ok_def bitmap_ok_def)

lemma con_local_before_arch:
  "con_local (arch_ready boot_state m is)"
  "con_local (arch_ready (\<lambda>s. boot_state s \<and> active_console s = cons) m is)"
  by (intro con_local_arch_ready con_local_conj con_local_boot_state con_local_eq; simp)+

lemma power_on_arch: "power_on m s \<Longrightarrow> length (vram s) = VGA_ROWS * VGA_COLS \<and> arch_ready boot_state m [] s"
  by (simp add: power_on_def arch_ready_def infos_def loaded_def boot_state_def)

lemma console_stage:
  "spec (\<lambda>s. power_on m s \<and> keyboard_quiet s = kq) (hal_console_init cons) (\<lambda>_. before_arch cons m)
    (\<lambda>t. con_inv t \<and> cons = HAL_CONSOLE_VGA \<and> \<not> kq)"
proof (rule specI)
  fix s :: "'z kernel_scheme" assume s: "power_on m s \<and> keyboard_quiet s = kq"
  have "spec (\<lambda>s. length (vram s) = VGA_ROWS * VGA_COLS \<and> arch_ready boot_state m [] s) (hal_console_init cons)
      (\<lambda>_ s. con_and (arch_ready boot_state m []) s \<and> active_console s = cons) (con_and (arch_ready boot_state m []))"
    by (intro hal_console_init_spec con_local_before_arch)
      (simp add: arch_ready_def modules_inv_def boot_state_def tables_ok_def bitmap_ok_def infos_def loaded_def)
  with power_on_arch s obtain r where r: "hal_console_init cons s = Some r"
    "good (\<lambda>_ s. con_and (arch_ready boot_state m []) s \<and> active_console s = cons) (con_and (arch_ready boot_state m [])) r"
    by (blast elim: specE)
  moreover have "\<exists>t. r = Ok () t" if "cons = HAL_CONSOLE_VGA \<Longrightarrow> kq"
    using hal_console_init_returns [of s cons] power_on_arch s that r(1) by auto
  ultimately show "\<exists>r. hal_console_init cons s = Some r
      \<and> good (\<lambda>_. before_arch cons m) (\<lambda>t. con_inv t \<and> cons = HAL_CONSOLE_VGA \<and> \<not> kq) r"
    by (cases r) (auto simp: before_arch_def con_and_def arch_ready_def)
qed

lemma idt_stage: "spec (before_arch cons m) (hal_idt_init lay) (\<lambda>_. before_arch cons m) (\<lambda>_. False)"
proof (rule specI)
  fix s assume s: "before_arch cons m s"
  then have t: "tables_ok s" by (simp add: before_arch_def con_and_def arch_ready_def boot_state_def)
  have "before_arch cons m (idt_state lay s)"
    using s by (auto simp: before_arch_def boot_state_def con_and_def arch_ready_def idt_state_def modules_inv_def
        bitmap_ok_def tables_ok_def con_inv_def vga_inv_def on_serial_def infos_def loaded_def)
  with idt_init_run [OF t] show "\<exists>r. hal_idt_init lay s = Some r \<and> good (\<lambda>_. before_arch cons m) (\<lambda>_. False) r"
    by (simp add: hal_idt_init_def)
qed

definition after_arch :: "hal_console_type \<Rightarrow> hal_mem_region list \<Rightarrow> memory \<Rightarrow> module_info list \<Rightarrow> 'z kernel_scheme \<Rightarrow> bool" where
  "after_arch cons rs m is = con_and (arch_ready (\<lambda>s. mem_map_inv s \<and> regions s = rs \<and> tables_ok s \<and> bitmap_ok s
     \<and> active_console s = cons) m is)"

lemma arch_stage:
  fixes L :: "u64 \<Rightarrow> u8 list"
  assumes "tag_chain m (boot_addr + 8) ts" and "\<forall>t\<in>set ts. tag_ok L m t"
  shows "spec (before_arch cons m) (hal_arch_init MULTIBOOT2_MAGIC boot_addr :: (unit, 'z kernel_scheme) prog)
    (\<lambda>_. after_arch cons (take 64 (all_regions m ts)) m (register_all L m ts []))
    (\<lambda>t. con_inv t \<and> active_console t = cons)"
proof -
  let ?K = "\<lambda>s :: 'z kernel_scheme. tables_ok s \<and> bitmap_ok s \<and> active_console s = cons"
  have loc: "boot_local ?K"
    by (auto simp: boot_local_def tables_ok_def bitmap_ok_def intro!: con_local_conj con_local_eq con_localI)
  have "unchanged (\<lambda>s :: 'z kernel_scheme. active_console s = cons) (hal_arch_init MULTIBOOT2_MAGIC boot_addr)"
    unfolding hal_arch_init_def hal_mem_set_map_def
    by (simp only: simp_thms if_False, intro unchanged_intros unchanged_arch_tags) (simp_all add: con_local_eq)
  from spec_unchanged [OF hal_arch_init_spec [OF assms loc, of "[]"] this] show ?thesis
    by (rule spec_conseq) (auto simp: before_arch_def after_arch_def boot_state_def con_and_def arch_ready_def)
qed

definition after_pmm :: "hal_console_type \<Rightarrow> u64 \<Rightarrow> hal_mem_region list \<Rightarrow> memory \<Rightarrow> module_info list \<Rightarrow> 'z kernel_scheme \<Rightarrow> bool" where
  "after_pmm cons kend rs m is = con_and (arch_ready (\<lambda>s. mem_map_inv s \<and> regions s = rs \<and> tables_ok s
     \<and> pmm_inv s \<and> free_frames s = usable_frames rs kend
     \<and> unat (total_frames s) = frames_below rs \<and> active_console s = cons) m is)"

lemma pmm_stage:
  assumes kend: "4096 \<le> unat (page_up kend)"
  shows "spec (after_arch cons rs m is) (hal_mem_init kend) (\<lambda>_. after_pmm cons kend rs m is) (\<lambda>_. False)"
proof (rule specI)
  fix s assume s: "after_arch cons rs m is s"
  then have "mem_map_inv s" "bitmap_ok s" "regions s = rs"
    by (simp_all add: after_arch_def con_and_def arch_ready_def)
  from pmm_init_run [OF this(1,2), of kend] this(3) obtain b tot where
    run: "pmm_init kend s = Some (Ok () (s\<lparr>bitmap := b, total_frames := tot\<rparr>))"
    and b: "length b = max_frames div 8" "unat tot = frames_below rs"
    and free: "free_frames (s\<lparr>bitmap := b, total_frames := tot\<rparr>) = usable_frames rs kend"
    by (auto simp: usable_frames_def frames_below_def)
  have "0 < unat (page_up kend) div 4096" using kend by simp
  then have "0 \<in> page_frames 0 (unat (page_up kend) div 4096)"
    by (auto simp: page_frames_def max_frames_def intro!: image_eqI [of _ _ 0])
  then have "0 \<notin> usable_frames rs kend" by (simp add: usable_frames_def)
  with free b have "pmm_inv (s\<lparr>bitmap := b, total_frames := tot\<rparr>)" by (simp add: pmm_inv_def bitmap_ok_def frames_below_def)
  with s free b have "after_pmm cons kend rs m is (s\<lparr>bitmap := b, total_frames := tot\<rparr>)"
    by (auto simp: after_arch_def after_pmm_def con_and_def arch_ready_def mem_map_inv_def regions_def
        tables_ok_def modules_inv_def con_inv_def vga_inv_def on_serial_def infos_def loaded_def)
  with run show "\<exists>r. hal_mem_init kend s = Some r \<and> good (\<lambda>_. after_pmm cons kend rs m is) (\<lambda>_. False) r"
    by (simp add: hal_mem_init_def)
qed

lemma heap_stage: "spec (after_pmm cons kend rs m is) (heap_init kend) (\<lambda>_. kernel_ready cons kend rs m is)
  (\<lambda>t. con_inv t \<and> \<not> heap_room kend rs)"
proof (rule specI)
  fix s assume s: "after_pmm cons kend rs m is s"
  then have inv: "pmm_inv s" "con_inv s" "free_frames s = usable_frames rs kend"
    by (simp_all add: after_pmm_def con_and_def arch_ready_def)
  have room: "heap_room kend rs = heap_fits kend s"
    using s by (simp add: heap_room_def heap_fits_def after_pmm_def con_and_def arch_ready_def)
  show "\<exists>r. heap_init kend s = Some r
      \<and> good (\<lambda>_. kernel_ready cons kend rs m is) (\<lambda>t. con_inv t \<and> \<not> heap_room kend rs) r"
  proof (cases "heap_fits kend s")
    case True
    from heap_init_ok [OF inv(1) True] obtain b where
      run: "heap_init kend s = Some (Ok () (heap_start kend (s\<lparr>bitmap := b\<rparr>)))"
      and p: "pmm_inv (s\<lparr>bitmap := b\<rparr>)" and h: "heap_inv (heap_start kend (s\<lparr>bitmap := b\<rparr>))"
      and f: "free_frames (s\<lparr>bitmap := b\<rparr>) = free_frames s - block (page_up kend) HEAP_PAGES" by blast
    let ?t = "heap_start kend (s\<lparr>bitmap := b\<rparr>)"
    have "pmm_inv ?t = pmm_inv (s\<lparr>bitmap := b\<rparr>)" "free_frames ?t = free_frames (s\<lparr>bitmap := b\<rparr>)"
      by (simp_all add: heap_start_def pmm_inv_def bitmap_ok_def free_frames_def)
    with p f inv(3) have "pmm_inv ?t" "free_frames ?t = usable_frames rs kend - block (page_up kend) HEAP_PAGES"
      by simp_all
    with s h have "kernel_ready cons kend rs m is ?t"
      by (auto simp: kernel_ready_def machine_ready_def after_pmm_def con_and_def arch_ready_def mem_map_inv_def
          regions_def tables_ok_def modules_inv_def con_inv_def vga_inv_def on_serial_def infos_def loaded_def heap_start_def)
    with run show ?thesis by simp
  next
    case False
    from heap_init_panics [OF inv(1,2) False] False show ?thesis unfolding room by fastforce
  qed
qed

lemma kernel_ready_intros:
  "keeps (kernel_ready cons kend rs m is) (hal_console_print (Lit xs))"
  "keeps (kernel_ready cons kend rs m is) (hal_console_print_hex v)"
  "keeps (kernel_ready cons kend rs m is) (hal_console_print_dec (ucast (n :: u32)))"
proof -
  have "unat (ucast n :: u64) < 2 ^ 32" using unsigned_less [of n, where 'a = nat] by (simp add: unat_ucast_up)
  then have n: "unat (ucast n :: u64) < 10 ^ 19" by simp
  show "keeps (kernel_ready cons kend rs m is) (hal_console_print (Lit xs))"
    "keeps (kernel_ready cons kend rs m is) (hal_console_print_hex v)"
    "keeps (kernel_ready cons kend rs m is) (hal_console_print_dec (ucast (n :: u32)))"
    unfolding kernel_ready_def by (intro keeps_intros con_local_ready n)+
qed

lemma keeps_print_region: "keeps (kernel_ready cons kend rs m is) (print_region r)"
  unfolding print_region_def if_distrib [of hal_console_print] by (intro keeps_intros kernel_ready_intros)

lemma keeps_get_map: "keeps (kernel_ready cons kend rs m is) (hal_mem_get_map (replicate 64 r) 64)"
proof (rule keepsI)
  fix s assume s: "kernel_ready cons kend rs m is s"
  then have "mem_map_inv s" by (simp add: kernel_ready_def con_and_def arch_ready_def machine_ready_def)
  with s hal_mem_get_map_run [of s 64 "replicate 64 r"]
  show "\<exists>x. hal_mem_get_map (replicate 64 r) 64 s = Some x
      \<and> good (\<lambda>_. kernel_ready cons kend rs m is) (kernel_ready cons kend rs m is) x" by simp
qed

text \<open>The calls of \<open>kernel_main\<close> between the choice of the console and the modules.\<close>

definition list_regions :: "(unit, 'z kernel_scheme) prog" where
  "list_regions = bind (hal_mem_get_map (replicate 64 \<lparr>base = 0, length_of = 0, type_of = 0\<rparr>) 64) (\<lambda>(n, mmap). seq [
     hal_console_print (Lit (lit ''Memory detected:'' @ [0x0A])),
     for_each [0..<unat n] (\<lambda>i. print_region (mmap ! i))])"

definition list_modules :: "(unit, 'z kernel_scheme) prog" where
  "list_modules = bind modules_count (\<lambda>count. seq [
     hal_console_print (Lit (0x0A # lit ''Loaded modules: '')),
     hal_console_print_dec (ucast count),
     hal_console_print newline])"

definition boot_calls :: "layout \<Rightarrow> u64 \<Rightarrow> hal_console_type \<Rightarrow> (unit, 'z kernel_scheme) prog" where
  "boot_calls lay boot_addr cons = seq [
     hal_console_init cons,
     hal_console_clear,
     hal_idt_init lay,
     hal_console_print (Lit (lit ''KDOS Kernel'' @ [0x0A])),
     hal_console_print (Lit (lit ''---------------'' @ [0x0A, 0x0A])),
     hal_arch_init MULTIBOOT2_MAGIC boot_addr,
     hal_mem_init (kernel_end lay),
     heap_init (kernel_end lay),
     list_regions,
     list_modules]"

lemma kernel_main_calls:
  "kernel_main False lay entry MULTIBOOT2_MAGIC boot_addr =
    bind (bind (hal_early_parse_console boot_addr) (boot_calls lay boot_addr))
      (\<lambda>_. bind (modules_run_all entry) (\<lambda>_. bind (modules_launch_entry entry)
             (\<lambda>_. hal_panic (str ''kernel_main end reached.''))))"
  by (simp add: kernel_main_def boot_calls_def list_regions_def list_modules_def bind_assoc del: lit_Cons)

lemma list_regions_stage:
  "keeps (kernel_ready cons kend rs m is) list_regions" "only_waits on_serial list_regions"
proof -
  let ?P = "kernel_ready cons kend rs m is"
  show "keeps ?P list_regions"
    unfolding list_regions_def
  proof (rule keeps_bind [OF keeps_get_map])
    fix a :: "u32 \<times> hal_mem_region list"
    obtain n mmap where "a = (n, mmap)" by (cases a)
    then show "keeps ?P (case a of (n, mmap) \<Rightarrow> seq [
       hal_console_print (Lit (lit ''Memory detected:'' @ [0x0A])), for_each [0..<unat n] (\<lambda>i. print_region (mmap ! i))])"
      by (simp only: prod.case) (intro keeps_intros kernel_ready_intros keeps_print_region)
  qed
  show "only_waits on_serial list_regions"
    unfolding list_regions_def hal_mem_get_map_def print_region_def if_distrib [of hal_console_print]
    by (auto intro!: waits_intros split: prod.split)
qed

lemma list_modules_stage:
  "keeps (kernel_ready cons kend rs m is) list_modules" "only_waits on_serial list_modules"
  unfolding list_modules_def modules_count_def by (intro keeps_intros kernel_ready_intros waits_intros)+

text \<open>
  Where the kernel may be stuck on its way: on the serial console in a wait for the line, on
  the display when the keyboard controller never got quiet, and on either in the panic of a
  heap that has no room.
\<close>

definition boot_stuck :: "hal_console_type \<Rightarrow> bool \<Rightarrow> bool \<Rightarrow> 'z hal_scheme \<Rightarrow> bool" where
  "boot_stuck cons quiet_keyboard room t \<longleftrightarrow> con_inv t
     \<and> (case cons of HAL_CONSOLE_SERIAL \<Rightarrow> on_serial t \<or> \<not> room | HAL_CONSOLE_VGA \<Rightarrow> \<not> quiet_keyboard \<or> \<not> room)"

lemma boot_stuckI:
  "con_inv t \<Longrightarrow> \<not> room \<Longrightarrow> boot_stuck cons kq room t"
  "con_inv t \<and> cons = HAL_CONSOLE_VGA \<and> \<not> kq \<Longrightarrow> boot_stuck cons kq room t"
  "con_inv t \<and> active_console t = cons \<Longrightarrow> on_serial t \<Longrightarrow> boot_stuck cons kq room t"
  by (auto simp: boot_stuck_def on_serial_def split: hal_console_type.split)

lemma boot_calls_stage:
  assumes tags: "tag_chain m (boot_addr + 8) ts" "\<forall>t\<in>set ts. tag_ok L m t"
    and kend: "4096 \<le> unat (page_up (kernel_end lay))"
  shows "spec (\<lambda>s. power_on m s \<and> keyboard_quiet s = kq) (boot_calls lay boot_addr cons :: (unit, 'z kernel_scheme) prog)
    (\<lambda>_. kernel_ready cons (kernel_end lay) (take 64 (all_regions m ts)) m (register_all L m ts []))
    (boot_stuck cons kq (heap_room (kernel_end lay) (take 64 (all_regions m ts))))"
    (is "spec _ _ (\<lambda>_. ?ready) ?H")
proof -
  let ?C = "\<lambda>t :: 'z kernel_scheme. con_inv t \<and> active_console t = cons"
  have con: "before_arch cons m t \<Longrightarrow> ?C t" "?ready t \<Longrightarrow> ?C t" for t :: "'z kernel_scheme"
    by (simp_all add: before_arch_def kernel_ready_def con_and_def arch_ready_def)
  have weak: "spec (before_arch cons m) k (\<lambda>_. before_arch cons m) ?C" if "keeps (before_arch cons m) k" for k :: "(unit, 'z kernel_scheme) prog"
    by (rule keeps_weaken [OF that con(1)])
  have weak': "spec ?ready k (\<lambda>_. ?ready) ?C" if "keeps ?ready k" for k :: "(unit, 'z kernel_scheme) prog"
    by (rule keeps_weaken [OF that con(2)])
  have p: "keeps (before_arch cons m) hal_console_clear" "keeps (before_arch cons m) (hal_console_print (Lit xs))" for xs
    unfolding before_arch_def by (intro keeps_intros con_local_before_arch)+
  have wait: "?C t \<Longrightarrow> on_serial t \<Longrightarrow> ?H t" for t :: "'z kernel_scheme" by (rule boot_stuckI(3))
  have "spec ?ready (seq []) (\<lambda>_. ?ready) ?H" by (simp add: spec_skip)
  note count = spec_seq_waits [OF weak' [OF list_modules_stage(1)] list_modules_stage(2) wait this]
  note lists = spec_seq_waits [OF weak' [OF list_regions_stage(1)] list_regions_stage(2) wait count]
  have heap: "spec (after_pmm cons (kernel_end lay) (take 64 (all_regions m ts)) m (register_all L m ts []))
      (seq [heap_init (kernel_end lay), list_regions, list_modules]) (\<lambda>_. ?ready) ?H"
    by (rule spec_seq_Cons [OF spec_conseq [OF heap_stage] lists]) (auto intro: boot_stuckI(1))
  note pmm = spec_seq_Cons [OF spec_conseq [OF pmm_stage [OF kend]] heap]
  note arch = spec_seq_waits [OF arch_stage [OF tags] waits_arch_init wait pmm]
  note prints = spec_seq_waits [OF weak [OF p(2)] waits_console(2) wait
    spec_seq_waits [OF weak [OF p(2)] waits_console(2) wait arch]]
  note idt = spec_seq_Cons [OF spec_conseq [OF idt_stage] prints]
  note clear = spec_seq_waits [OF weak [OF p(1)] waits_console(5) wait idt]
  show ?thesis
    unfolding boot_calls_def
    by (rule spec_seq_Cons [OF spec_conseq [OF console_stage _ _ boot_stuckI(2)] clear]) simp_all
qed

text \<open>
  On a machine as the boot loader leaves it, with a well-formed information structure, the
  kernel reaches the modules in a ready state, unless a device keeps it waiting or there is
  no room for the heap.
\<close>

definition chosen_console :: "memory \<Rightarrow> u64 list \<Rightarrow> u8 list \<Rightarrow> hal_console_type" where
  "chosen_console m ts line = (if picks_serial m ts line then HAL_CONSOLE_SERIAL else HAL_CONSOLE_VGA)"

lemma early_parse_run:
  fixes s :: "'z kernel_scheme"
  assumes "mem s = m" and "boot_addr \<noteq> 0" and "tag_chain m (boot_addr + 8) ts"
    and "case find (\<lambda>t. read_le m t 4 = MB2_TAG_CMDLINE) ts of
        Some t \<Rightarrow> denotes m (Ptr (t + 8)) line | None \<Rightarrow> True"
  shows "hal_early_parse_console boot_addr s = Some (Ok (chosen_console m ts line) s)"
  using parse_console_tags_run [of s "boot_addr + 8" ts line, unfolded assms(1), OF assms(3,4)] assms(2)
  by (simp add: hal_early_parse_console_def chosen_console_def)

lemma boot_calls_run:
  fixes s :: "'z kernel_scheme"
  assumes "power_on m s" and "tag_chain m (boot_addr + 8) ts" "\<forall>t\<in>set ts. tag_ok L m t"
    and "4096 \<le> unat (page_up (kernel_end lay))"
  obtains r where "boot_calls lay boot_addr cons s = Some r"
    and "good (\<lambda>_. kernel_ready cons (kernel_end lay) (take 64 (all_regions m ts)) m (register_all L m ts []))
      (boot_stuck cons (keyboard_quiet s) (heap_room (kernel_end lay) (take 64 (all_regions m ts)))) r"
  using assms(1) specE [OF boot_calls_stage [OF assms(2,3,4), where kq = "keyboard_quiet s" and cons = cons], of s] by auto

lemma kernel_main_boots:
  fixes s :: "'z kernel_scheme"
  assumes s: "power_on m s" and addr: "boot_addr \<noteq> 0"
    and tags: "tag_chain m (boot_addr + 8) ts" "\<forall>t\<in>set ts. tag_ok L m t"
    and cmd: "case find (\<lambda>t. read_le m t 4 = MB2_TAG_CMDLINE) ts of
        Some t \<Rightarrow> denotes m (Ptr (t + 8)) line | None \<Rightarrow> True"
    and kend: "4096 \<le> unat (page_up (kernel_end lay))"
  shows "\<exists>t. (kernel_main False lay entry MULTIBOOT2_MAGIC boot_addr s \<in> {Some (Halt t), Some (Wait t)}
      \<and> boot_stuck (chosen_console m ts line) (keyboard_quiet s) (heap_room (kernel_end lay) (take 64 (all_regions m ts))) t)
    \<or> (kernel_ready (chosen_console m ts line) (kernel_end lay) (take 64 (all_regions m ts)) m (register_all L m ts []) t
       \<and> boot_calls lay boot_addr (chosen_console m ts line) s = Some (Ok () t)
       \<and> kernel_main False lay entry MULTIBOOT2_MAGIC boot_addr s
         = bind (modules_run_all entry) (\<lambda>_. bind (modules_launch_entry entry)
             (\<lambda>_. hal_panic (str ''kernel_main end reached.''))) t)"
proof -
  have "mem s = m" using s by (simp add: power_on_def)
  note parse = early_parse_run [OF this addr tags(1) cmd]
  from boot_calls_run [OF s tags kend, where cons = "chosen_console m ts line"] obtain r where
    r: "boot_calls lay boot_addr (chosen_console m ts line) s = Some r"
    "good (\<lambda>_. kernel_ready (chosen_console m ts line) (kernel_end lay) (take 64 (all_regions m ts)) m (register_all L m ts []))
      (boot_stuck (chosen_console m ts line) (keyboard_quiet s) (heap_room (kernel_end lay) (take 64 (all_regions m ts)))) r" .
  then show ?thesis
    unfolding kernel_main_calls by (cases r) (auto simp: bind_run [of "bind _ _"] bind_run [of "hal_early_parse_console _"] parse)
qed

text \<open>
  With a quiet keyboard, the display chosen and room for the heap nothing stops the kernel:
  it starts the modules of the table, then the shell of the table, and when the shell returns
  it panics.
\<close>

definition table_strings :: "headers \<Rightarrow> memory \<Rightarrow> module_info list \<Rightarrow> bool" where
  "table_strings N m is \<longleftrightarrow> (\<forall>x\<in>set is. info_header x \<noteq> 0 \<longrightarrow>
     denotes m (header_name (info_header x)) (fst (N (info_header x)))
     \<and> denotes m (header_version (info_header x)) (snd (N (info_header x))))"

lemma headers_ok_infos: "infos s = is \<Longrightarrow> headers_ok N m (loaded s) = table_strings N m is"
  by (auto simp: table_strings_def headers_ok_def infos_def module_info_def)

lemma kernel_main_starts:
  fixes s :: "'z kernel_scheme"
  assumes boot: "power_on m s" "boot_addr \<noteq> 0" "tag_chain m (boot_addr + 8) ts" "\<forall>t\<in>set ts. tag_ok L m t"
      "case find (\<lambda>t. read_le m t 4 = MB2_TAG_CMDLINE) ts of
        Some t \<Rightarrow> denotes m (Ptr (t + 8)) line | None \<Rightarrow> True"
      "4096 \<le> unat (page_up (kernel_end lay))"
    and free: "chosen_console m ts line = HAL_CONSOLE_VGA" "keyboard_quiet s"
      "heap_room (kernel_end lay) (take 64 (all_regions m ts))"
    and code: "module_code N entry" "table_strings N m (register_all L m ts [])"
  shows "\<exists>t. kernel_ready HAL_CONSOLE_VGA (kernel_end lay) (take 64 (all_regions m ts)) m (register_all L m ts []) t
    \<and> boot_calls lay boot_addr HAL_CONSOLE_VGA s = Some (Ok () t)
    \<and> kernel_main False lay entry MULTIBOOT2_MAGIC boot_addr s
      = bind (start_all N entry (loaded t)) (\<lambda>_. bind (start_shell N entry (loaded t))
          (\<lambda>_. hal_panic (str ''kernel_main end reached.''))) t"
proof -
  from kernel_main_boots [OF boot, of entry] obtain t where
    t: "kernel_ready HAL_CONSOLE_VGA (kernel_end lay) (take 64 (all_regions m ts)) m (register_all L m ts []) t"
    "boot_calls lay boot_addr HAL_CONSOLE_VGA s = Some (Ok () t)"
    "kernel_main False lay entry MULTIBOOT2_MAGIC boot_addr s = bind (modules_run_all entry)
      (\<lambda>_. bind (modules_launch_entry entry) (\<lambda>_. hal_panic (str ''kernel_main end reached.''))) t"
    unfolding free(1) by (auto simp: boot_stuck_def free(2,3))
  then have r: "modules_inv t" "mem t = m" "infos t = register_all L m ts []"
    by (simp_all add: kernel_ready_def con_and_def arch_ready_def)
  have "headers_ok N (mem t) (loaded t)" using code(2) r by (simp add: headers_ok_infos)
  with t module_code.start_up_run [OF code(1) r(1)] show ?thesis by auto
qed

text \<open>Whatever the machine holds, \<open>kernel_main\<close> does not return.\<close>

lemma hal_panic_no_return: "hal_panic msg s \<noteq> Some (Ok a t)"
  by (auto simp: hal_panic_def bind_def [of _ "\<lambda>_. hal_cpu_halt"] hal_cpu_halt_run split: option.splits outcome.splits)

lemma kernel_main_no_return: "kernel_main debug lay entry boot_magic boot_addr s \<noteq> Some (Ok a t)"
  unfolding kernel_main_def by (auto elim!: bind_OkD dest: hal_panic_no_return [THEN notE])

end
