(* ===== verification/Shell_Loop.thy ===== *)
theory Shell_Loop imports Shell Boot_Stages begin

text \<open>
  What the shell does with the lines it reads: the commands by name, the command loop on both
  consoles, one round of it on the display, and the recovery from the exceptions of the
  programs it runs through the hook of the kernel.
\<close>

section \<open>Commands by name\<close>

datatype command = Blank | Help | Clear | Halt_System | Load | Unknown

definition parse_command :: "u8 list \<Rightarrow> command" where
  "parse_command xs = (if xs = [] then Blank else if xs = lit ''help'' then Help
     else if xs = lit ''clear'' then Clear else if xs = lit ''halt'' then Halt_System
     else if xs = lit ''load'' then Load else Unknown)"

definition run_command :: "'z shell_scheme kst \<Rightarrow> (unit, 'z shell_scheme) prog \<Rightarrow> u8 list \<Rightarrow> (unit, 'z shell_scheme) prog" where
  "run_command kst load_cmd line = (case parse_command (c_string line) of
     Blank \<Rightarrow> skip
   | Help \<Rightarrow> cmd_help kst
   | Clear \<Rightarrow> con_clear kst
   | Halt_System \<Rightarrow> sys_panic kst (str ''halt requested'')
   | Load \<Rightarrow> load_cmd
   | Unknown \<Rightarrow> cmd_unknown kst (Lit line))"

lemma bind_stuck:
  fixes m :: "(unit, 's) prog"
  assumes "\<And>a t. m s \<noteq> Some (Ok a t)"
  shows "bind m k s = m s"
  using assms by (auto simp: bind_run split: option.split outcome.split)

lemma deref_c_string: "deref (Lit buf) s = Some (Ok (case c_string buf of [] \<Rightarrow> 0 | x # _ \<Rightarrow> x) s)"
  using denotes_peek [OF denotes_c_string] by (simp add: deref_run)

lemma str_eq_word: "0 \<notin> set (lit w) \<Longrightarrow> str_eq (Lit buf) (str w) s = Some (Ok (c_string buf = lit w) s)"
  by (rule str_eq_run [OF denotes_c_string denotes_Lit])

lemma dispatch_run:
  assumes "\<And>a t. sys_panic kst (str ''halt requested'') s \<noteq> Some (Ok a t)"
  shows "dispatch kst load_cmd (Lit line) s = run_command kst load_cmd line s"
proof -
  have words: "str_eq (Lit line) (str ''help'') t = Some (Ok (c_string line = lit ''help'') t)"
    "str_eq (Lit line) (str ''clear'') t = Some (Ok (c_string line = lit ''clear'') t)"
    "str_eq (Lit line) (str ''halt'') t = Some (Ok (c_string line = lit ''halt'') t)"
    "str_eq (Lit line) (str ''load'') t = Some (Ok (c_string line = lit ''load'') t)" for t :: "'a shell_scheme"
    by (rule str_eq_word, simp)+
  have ne: "lit ''help'' \<noteq> []" "lit ''clear'' \<noteq> lit ''help''" "lit ''halt'' \<noteq> lit ''help''" "lit ''halt'' \<noteq> lit ''clear''"
    "lit ''halt'' \<noteq> []" "lit ''clear'' \<noteq> []"
    by simp_all
  have zero: "(case c_string line of [] \<Rightarrow> 0 | x # _ \<Rightarrow> x) = 0 \<longleftrightarrow> c_string line = []"
  proof -
    have "x \<noteq> 0" if "x \<in> set (c_string line)" for x
      using that by (auto simp: c_string_def dest: set_takeWhileD)
    then show ?thesis by (auto split: list.splits)
  qed
  consider "c_string line = lit ''halt''" | "c_string line \<noteq> lit ''halt''" by blast
  then show ?thesis
  proof cases
    case 1
    with ne show ?thesis
      using assms zero by (simp add: dispatch_def run_command_def parse_command_def bind_run words deref_c_string bind_stuck del: lit_Cons)
        (auto simp: bind_run split: option.split outcome.split)
  next
    case 2
    with zero show ?thesis
      by (simp add: dispatch_def run_command_def parse_command_def bind_run words deref_c_string skip_run del: lit_Cons)
  qed
qed


section \<open>The command loop\<close>

text \<open>
  What the shell asks of the services beyond \<open>kernel_services\<close>: the invariant and the input
  do not depend on its own variables, on the memory and on the second serial line, and the
  services it loads programs with settle.
\<close>

definition set_vars :: "bool \<Rightarrow> bool \<Rightarrow> u64 \<Rightarrow> u64 \<Rightarrow> u64 \<Rightarrow> u64 \<Rightarrow> 'z shell_scheme \<Rightarrow> 'z shell_scheme" where
  "set_vars i c v r e p s = s\<lparr>com2_initialized := i, exc_caught := c, exc_vec := v, exc_rip := r,
     exc_err := e, exc_restore_rsp := p\<rparr>"

locale shell_services = kernel_services kst inv budget
  for kst :: "'z shell_scheme kst" and inv and budget +
  assumes vars_free: "inv (set_vars i c v r e p s) = inv s" "budget (set_vars i c v r e p s) = budget s"
    and mem_free: "inv (s\<lparr>mem := m\<rparr>) = inv s" "budget (s\<lparr>mem := m\<rparr>) = budget s"
    and out_free: "inv (s\<lparr>port_out := out\<rparr>) = inv s" "budget (s\<lparr>port_out := out\<rparr>) = budget s"
    and line_free: "q = COM2 \<or> q = COM2 + 5 \<Longrightarrow> inv (s\<lparr>port_in := (port_in s)(q := bs)\<rparr>) = inv s"
      "q = COM2 \<or> q = COM2 + 5 \<Longrightarrow> budget (s\<lparr>port_in := (port_in s)(q := bs)\<rparr>) = budget s"
    and sbrk_settles: "settles (within inv budget n) (mem_sbrk kst incr)"
    and elf_load_settles: "settles (within inv budget n) (sys_elf_load kst img sz)"
    and set_hook_settles: "settles (within inv budget n) (sys_set_exc_hook kst fn)"
    and clear_hook_settles: "settles (within inv budget n) (sys_clear_exc_hook kst)"
begin

lemma within_free:
  "within inv budget n (s\<lparr>mem := m\<rparr>) = within inv budget n s"
  "within inv budget n (s\<lparr>port_out := out\<rparr>) = within inv budget n s"
  "q = COM2 \<or> q = COM2 + 5 \<Longrightarrow> within inv budget n (s\<lparr>port_in := (port_in s)(q := bs)\<rparr>) = within inv budget n s"
  by (simp_all add: within_def mem_free out_free line_free)

lemma within_vars:
  "within inv budget n (s\<lparr>com2_initialized := i\<rparr>) = within inv budget n s"
  "within inv budget n (s\<lparr>exc_caught := c\<rparr>) = within inv budget n s"
  "within inv budget n (s\<lparr>exc_vec := v\<rparr>) = within inv budget n s"
  "within inv budget n (s\<lparr>exc_rip := r\<rparr>) = within inv budget n s"
  "within inv budget n (s\<lparr>exc_err := e\<rparr>) = within inv budget n s"
  "within inv budget n (s\<lparr>exc_restore_rsp := p\<rparr>) = within inv budget n s"
  "within inv budget n (clear_bss s) = within inv budget n s"
proof -
  have free: "within inv budget n (set_vars i c v r e p s) = within inv budget n s" for i c v r e p s
    by (simp add: within_def vars_free)
  have vars: "s\<lparr>com2_initialized := i\<rparr> = set_vars i (exc_caught s) (exc_vec s) (exc_rip s) (exc_err s) (exc_restore_rsp s) s"
    "s\<lparr>exc_caught := c\<rparr> = set_vars (com2_initialized s) c (exc_vec s) (exc_rip s) (exc_err s) (exc_restore_rsp s) s"
    "s\<lparr>exc_vec := v\<rparr> = set_vars (com2_initialized s) (exc_caught s) v (exc_rip s) (exc_err s) (exc_restore_rsp s) s"
    "s\<lparr>exc_rip := r\<rparr> = set_vars (com2_initialized s) (exc_caught s) (exc_vec s) r (exc_err s) (exc_restore_rsp s) s"
    "s\<lparr>exc_err := e\<rparr> = set_vars (com2_initialized s) (exc_caught s) (exc_vec s) (exc_rip s) e (exc_restore_rsp s) s"
    "s\<lparr>exc_restore_rsp := p\<rparr> = set_vars (com2_initialized s) (exc_caught s) (exc_vec s) (exc_rip s) (exc_err s) p s"
    "clear_bss s = set_vars False False 0 0 0 0 s"
    by (simp_all add: set_vars_def clear_bss_def)
  show "within inv budget n (s\<lparr>com2_initialized := i\<rparr>) = within inv budget n s"
    "within inv budget n (s\<lparr>exc_caught := c\<rparr>) = within inv budget n s"
    "within inv budget n (s\<lparr>exc_vec := v\<rparr>) = within inv budget n s"
    "within inv budget n (s\<lparr>exc_rip := r\<rparr>) = within inv budget n s"
    "within inv budget n (s\<lparr>exc_err := e\<rparr>) = within inv budget n s"
    "within inv budget n (s\<lparr>exc_restore_rsp := p\<rparr>) = within inv budget n s"
    "within inv budget n (clear_bss s) = within inv budget n s"
    by (simp_all only: vars free)
qed

lemma recv_byte_settles: "settles (within inv budget n) com2_recv_byte"
  unfolding com2_recv_byte_def
  by (intro settles_intros settles_keeps keeps_poll keeps_inb) (simp_all add: within_free)

lemma recv_list_settles: "settles (within inv budget n) (com2_recv_list k)"
  by (induction k) (auto intro!: settles_intros recv_byte_settles)

lemma recv_buf_settles: "settles (within inv budget n) (com2_recv_buf a k)"
proof -
  have "settles (within inv budget n) (store8 b v)" for b v
    by (simp add: settles_def store8_def within_free)
  then have "settles (within inv budget n) (bind com2_recv_byte (store8 b))" for b
    by (intro settles_intros recv_byte_settles)
  then show ?thesis
    unfolding com2_recv_buf_def for_word_for_each by (intro settles_for_each)
qed

lemma transfer_settles: "settles (within inv budget n) (transfer_recv_elf kst)"
proof -
  have "settles (within inv budget n) (outb q v)" for q v
    by (rule settles_keeps [OF keeps_outb]) (simp add: within_free)
  then have init: "settles (within inv budget n) com2_init"
    unfolding com2_init_def by (intro settles_intros) (simp_all add: within_vars)
  show ?thesis
    unfolding transfer_recv_elf_def Let_def
    by (intro settles_intros init recv_list_settles recv_buf_settles sbrk_settles)
qed

text \<open>A program that settles does so under the command \<open>load\<close>.\<close>

lemma cmd_load_settles:
  assumes run: "\<And>entry. settles (within inv budget n) (run entry)"
  shows "settles (within inv budget n) (cmd_load kst run hook sp)"
proof -
  have print: "settles (within inv budget n) (con_print kst (Lit xs))"
    "settles (within inv budget n) (con_print_hex kst v)"
    "settles (within inv budget n) (con_print_dec kst (ucast (w :: u32)))"
    "settles (within inv budget n) (con_putchar kst c)" for xs v w c
    by (rule settles_keeps; rule print_keeps print_hex_keeps print_dec_keeps putchar_keeps)+
  have exec: "settles (within inv budget n) (elf_exec kst run hook sp entry)" for entry
    unfolding elf_exec_def
    by (intro settles_intros run set_hook_settles)
      (auto simp: within_vars split: run_end.split intro!: settles_intros clear_hook_settles)
  have report: "settles (within inv budget n) (print_exception kst)"
    unfolding print_exception_def
    by (intro settles_intros) (auto split: prod.split intro!: settles_intros print)
  have loaded: "settles (within inv budget n) (bind (seq [
           con_print kst (str ''Received ''),
           con_print_dec kst (ucast sz),
           con_print kst (Lit (lit '' bytes. Loading ELF...'' @ [0x0A]))]) (\<lambda>_.
         bind (sys_elf_load kst buf (ucast sz)) (\<lambda>entry.
         if entry = 0
         then con_print kst (Lit (lit ''ELF load failed: invalid or unsupported binary.'' @ [0x0A]))
         else seq [
           con_print kst (str ''Entry at 0x''),
           con_print_hex kst entry,
           con_print kst (Lit (lit ''. Running...'' @ [0x0A])),
           elf_exec kst run hook sp entry,
           branch exc_caught (print_exception kst)
             (con_print kst (Lit (lit ''Program finished.'' @ [0x0A])))])))" for buf and sz :: u32
    by (intro settles_intros print elf_load_settles exec report)
  show ?thesis
    unfolding cmd_load_def
    by (intro settles_intros print transfer_settles) (simp only: split: option.split prod.split, intro allI impI conjI loaded print)
qed

lemma panic_no_return: "inv s \<Longrightarrow> sys_panic kst (Lit xs) s \<noteq> Some (Ok a t)"
  using panic_ends [of "budget s" xs] by (fastforce simp: spec_def within_def split: option.splits)

lemma run_command_settles:
  assumes load: "settles (within inv budget n) load_cmd"
  shows "settles (within inv budget n) (run_command kst load_cmd line)"
proof -
  have panic: "settles (within inv budget n) (sys_panic kst (Lit xs))" for xs
  proof (rule settlesI)
    fix s a t assume s: "within inv budget n s"
    from panic_ends [of n xs] s show "sys_panic kst (Lit xs) s \<noteq> None"
      by (auto simp: spec_def split: option.splits)
    assume "sys_panic kst (Lit xs) s = Some (Ok a t)"
    with panic_no_return s show "within inv budget n t" by (simp add: within_def)
  qed
  note settles = settles_intros panic load settles_keeps [OF clear_keeps]
    settles_keeps [OF putchar_keeps] settles_keeps [OF print_keeps]
  show ?thesis
    by (cases "parse_command (c_string line)")
      (simp_all only: run_command_def command.case cmd_help_def cmd_unknown_def, (intro settles)+)
qed


lemma shell_round_takes:
  assumes load: "\<And>n. settles (within inv budget n) load_cmd"
    and "length line = LINE_MAX" and "inv s"
  shows "shell_round kst load_cmd line s \<noteq> None"
    and "shell_round kst load_cmd line s = Some (Ok line' t) \<Longrightarrow>
      inv t \<and> budget t < budget s \<and> length line' = LINE_MAX"
proof -
  have print: "settles (within inv budget n) (con_print kst (Lit xs))" for n xs
    by (rule settles_keeps [OF print_keeps])
  have s: "within inv budget (budget s) s" using assms(3) by (simp add: within_def)
  have body: "bind (dispatch kst load_cmd (Lit line')) (\<lambda>_. ret line') u = bind (run_command kst load_cmd line') (\<lambda>_. ret line') u"
    if "inv u" for line' u
    using dispatch_run [where load_cmd = load_cmd and line = line', OF panic_no_return [OF that]]
    by (simp add: bind_run)
  have ran: "settles (within inv budget n) (bind (run_command kst load_cmd line') (\<lambda>_. ret line'))" for n line'
    by (intro settles_intros run_command_settles load)
  show "shell_round kst load_cmd line s \<noteq> None"
    unfolding shell_round_def
  proof (rule bind_stops_at, rule settlesD [OF print s])
    fix a u assume "con_print kst (str ''> '') s = Some (Ok a u)"
    then have u: "inv u" "within inv budget (budget u) u" using settles_OkD [OF print s] by (auto simp: within_def)
    show "bind (readline kst line) (\<lambda>(len, line). bind (dispatch kst load_cmd (Lit line)) (\<lambda>_. ret line)) u \<noteq> None"
    proof (rule bind_stops_at, rule readline_takes(1) [OF assms(2) u(1)])
      fix r v assume r: "readline kst line u = Some (Ok r v)"
      obtain len line' where [simp]: "r = (len, line')" by (cases r)
      from readline_takes(2) [OF assms(2) u(1)] r have v: "inv v" by simp
      then have "within inv budget (budget v) v" by (simp add: within_def)
      from settlesD [OF ran this] show "(case r of (len, line) \<Rightarrow> bind (dispatch kst load_cmd (Lit line)) (\<lambda>_. ret line)) v \<noteq> None"
        by (simp only: prod.case \<open>r = _\<close> body [OF v] not_False_eq_True)
    qed
  qed
  assume "shell_round kst load_cmd line s = Some (Ok line' t)"
  then obtain a u len l v where u: "con_print kst (str ''> '') s = Some (Ok a u)"
    and r: "readline kst line u = Some (Ok (len, l) v)"
    and d: "bind (dispatch kst load_cmd (Lit l)) (\<lambda>_. ret l) v = Some (Ok line' t)"
    by (auto simp: shell_round_def bind_run split: option.splits outcome.splits prod.splits)
  from settles_OkD [OF print s u] have bu: "inv u" "budget u \<le> budget s" by (simp_all add: within_def)
  from readline_takes(2) [OF assms(2) bu(1) r] have v: "inv v" "budget v < budget u" "length l = LINE_MAX" by simp_all
  with body d have k: "bind (run_command kst load_cmd l) (\<lambda>_. ret l) v = Some (Ok line' t)" by simp
  from v have "within inv budget (budget v) v" by (simp add: within_def)
  from settles_OkD [OF ran this k] have "inv t" "budget t \<le> budget v" by (simp_all add: within_def)
  moreover from k have "line' = l" by (auto simp: bind_run ret_run split: option.splits outcome.splits)
  ultimately show "inv t \<and> budget t < budget s \<and> length line' = LINE_MAX" using bu v by simp
qed

text \<open>The loop never returns, and on any finite input it ends.\<close>

lemma shell_loop_ends:
  assumes load: "\<And>n. settles (within inv budget n) load_cmd"
    and "length line = LINE_MAX" and "inv s"
  shows "shell_loop kst load_cmd line s \<noteq> None \<and> shell_loop kst load_cmd line s \<noteq> Some (Ok a t)"
  using assms(2,3)
proof (induction "budget s" arbitrary: s line rule: less_induct)
  case less
  note round = shell_round_takes [OF load less.prems]
  from round(1) obtain r where r: "shell_round kst load_cmd line s = Some r" by blast
  show ?case
  proof (cases r)
    case (Ok line' u)
    with round(2) r have "inv u" "budget u < budget s" "length line' = LINE_MAX" by auto
    with less.hyps have IH: "shell_loop kst load_cmd line' u \<noteq> None \<and> shell_loop kst load_cmd line' u \<noteq> Some (Ok a t)" by blast
    have "shell_loop kst load_cmd line s = shell_loop kst load_cmd line' u"
      by (subst shell_loop.simps) (simp add: bind_run r Ok)
    with IH show ?thesis by simp
  qed (subst (1 2) shell_loop.simps, simp add: bind_run r)+
qed


lemma module_main_ends:
  assumes run: "\<And>n entry. settles (within inv budget n) (run entry)"
    and line: "length line = LINE_MAX" and s: "inv s"
  shows "module_main kst run hook sp line s \<noteq> None \<and> module_main kst run hook sp line s \<noteq> Some (Ok a t)"
proof -
  let ?loop = "shell_loop kst (cmd_load kst run hook sp) line"
  let ?pre = "bind (modify clear_bss) (\<lambda>_. bind (con_clear kst) (\<lambda>_. con_print kst (Lit (lit ''KDOS COMMAND.KERN 1.0'' @ [0x0A]
       @ lit ''Type '' @ [0x27] @ lit ''help'' @ [0x27] @ lit '' for available commands.'' @ [0x0A, 0x0A]))))"
  have main: "module_main kst run hook sp line = bind ?pre (\<lambda>_. ?loop)"
    by (simp add: module_main_def bind_assoc del: lit_Cons)
  have loop: "?loop u \<noteq> None \<and> ?loop u \<noteq> Some (Ok a t)" if "inv u" for u
    by (rule shell_loop_ends [OF cmd_load_settles [OF run] line that])
  have pre: "settles (within inv budget (budget s)) ?pre"
    by (intro settles_intros settles_keeps [OF clear_keeps] settles_keeps [OF print_keeps]) (simp add: within_vars)
  have s': "within inv budget (budget s) s" using s by (simp add: within_def)
  from settlesD [OF pre s'] obtain r where r: "?pre s = Some r" by blast
  show ?thesis
  proof (cases r)
    case (Ok b u)
    with settles_OkD [OF pre s'] r have "inv u" by (simp add: within_def)
    with loop r Ok show ?thesis by (simp only: main bind_run) simp
  qed (simp_all only: main bind_run [of ?pre] r option.case outcome.case, simp_all)
qed

end

text \<open>The kernel's table, on either console.\<close>

lemma con_inv_free:
  "con_inv (s\<lparr>mem := m\<rparr>) = con_inv s" "input_left (s\<lparr>mem := m\<rparr>) = input_left s"
  "con_inv (s\<lparr>port_out := out\<rparr>) = con_inv s" "input_left (s\<lparr>port_out := out\<rparr>) = input_left s"
  "con_inv (s\<lparr>port_in := ins\<rparr>) = con_inv s"
  by (simp_all add: con_inv_def on_serial_def vga_inv_def input_left_def)

interpretation shell: shell_services kernel_kst con_inv input_left
proof (rule shell_services.intro [OF kernel.kernel_services_axioms], unfold_locales)
  fix s :: "'z shell_scheme" and n :: nat and i c v r e p m out q bs incr img sz fn
  let ?W = "within con_inv input_left n :: 'z shell_scheme \<Rightarrow> bool"
  show "con_inv (set_vars i c v r e p s) = con_inv s" "input_left (set_vars i c v r e p s) = input_left s"
    by (simp_all add: set_vars_def con_inv_def on_serial_def vga_inv_def input_left_def)
  show "con_inv (s\<lparr>mem := m\<rparr>) = con_inv s" "input_left (s\<lparr>mem := m\<rparr>) = input_left s"
    "con_inv (s\<lparr>port_out := out\<rparr>) = con_inv s" "input_left (s\<lparr>port_out := out\<rparr>) = input_left s"
    by (simp_all add: con_inv_free)
  show "con_inv (s\<lparr>port_in := (port_in s)(q := bs)\<rparr>) = con_inv s"
    by (simp add: con_inv_free)
  show "input_left (s\<lparr>port_in := (port_in s)(q := bs)\<rparr>) = input_left s" if "q = COM2 \<or> q = COM2 + 5"
    using that by (auto simp: input_left_def KBD_STATUS_def COM1_def COM2_def)
  show "settles ?W (mem_sbrk kernel_kst incr)"
    unfolding kernel_kst_sel heap_sbrk_def Let_def
    by (intro settles_intros) (simp add: within_def con_inv_def on_serial_def vga_inv_def input_left_def)
  show "settles ?W (sys_elf_load kernel_kst img sz)"
    unfolding kernel_kst_sel kst_elf_load_def
    by (intro settles_stops stops_elf_load spends_unchanged unchanged_elf_load) (simp_all add: con_inv_free)
  show "settles ?W (sys_set_exc_hook kernel_kst fn)" "settles ?W (sys_clear_exc_hook kernel_kst)"
    unfolding kernel_kst_sel kst_set_exc_hook_def kst_clear_exc_hook_def hal_set_exc_hook_def hal_clear_exc_hook_def
      idt_set_exc_hook_def idt_clear_exc_hook_def
    by (intro settles_intros; simp add: within_def con_inv_def on_serial_def vga_inv_def input_left_def)+
qed


section \<open>One round on the display\<close>

text \<open>The prompt and the echo of what is typed up to the end of the line.\<close>

definition prompt_text :: "int list \<Rightarrow> u8 list" where
  "prompt_text chars = lit ''> '' @ echo (LINE_MAX - 1) [] chars"

lemma shell_round_run:
  fixes s :: "'z shell_scheme"
  assumes s: "on_display s" and line: "length line = LINE_MAX"
  shows "case edit_line (LINE_MAX - 1) [] (typed s) of
      None \<Rightarrow> \<exists>t. shell_round kernel_kst load_cmd line s = Some (Wait t)
        \<and> off_display t = off_display s \<and> vga_abs t = fold term_put (prompt_text (typed s)) (vga_abs s)
    | Some (l, rest) \<Rightarrow> \<exists>line' t. on_display t \<and> typed t = rest \<and> off_display t = off_display s
        \<and> vga_abs t = fold term_put (prompt_text (typed s)) (vga_abs s)
        \<and> length line' = LINE_MAX \<and> c_string line' = l
        \<and> shell_round kernel_kst load_cmd line s = bind (run_command kernel_kst load_cmd line') (\<lambda>_. ret line') t"
proof -
  from saysE [OF display.print_says s] obtain u where
    u: "con_print kernel_kst (str ''> '') s = Some (Ok () u)" "on_display u" "typed u = typed s" "off_display u = off_display s"
      "vga_abs u = fold term_put (c_string (lit ''> '')) (vga_abs s)" .
  have round: "shell_round kernel_kst load_cmd line s
      = bind (readline kernel_kst line) (\<lambda>(len, line). bind (dispatch kernel_kst load_cmd (Lit line)) (\<lambda>_. ret line)) u"
    using u(1) by (simp add: shell_round_def bind_run)
  have body: "bind (dispatch kernel_kst load_cmd (Lit l)) (\<lambda>_. ret l) t = bind (run_command kernel_kst load_cmd l) (\<lambda>_. ret l) t"
    for l and t :: "'z shell_scheme"
    using dispatch_run [where kst = kernel_kst and s = t] by (simp add: bind_run hal_panic_no_return)
  have screen: "fold term_put (echo (LINE_MAX - 1) [] (typed s)) (vga_abs u) = fold term_put (prompt_text (typed s)) (vga_abs s)"
    by (simp add: u(5) prompt_text_def c_string_def)
  note read = display.readline_run [OF u(2) line, unfolded display.reads_def u(3,4) screen]
  show ?thesis
  proof (cases "edit_line (LINE_MAX - 1) [] (typed s)")
    case None
    with read obtain t where "readline kernel_kst line u = Some (Wait t)" "off_display t = off_display s"
      "vga_abs t = fold term_put (prompt_text (typed s)) (vga_abs s)" by auto
    with None round show ?thesis by (simp add: bind_run)
  next
    case (Some r)
    obtain l rest where r: "r = (l, rest)" by (cases r)
    with Some read obtain line' t where
      t: "readline kernel_kst line u = Some (Ok (length l, line') t)" "on_display t" "typed t = rest" "off_display t = off_display s"
        "length line' = LINE_MAX" "c_string line' = l" "vga_abs t = fold term_put (prompt_text (typed s)) (vga_abs s)" by auto
    have "shell_round kernel_kst load_cmd line s = bind (run_command kernel_kst load_cmd line') (\<lambda>_. ret line') t"
      using round t(1) body by (simp add: bind_run)
    with Some r t show ?thesis by auto
  qed
qed

section \<open>Recovery from the exceptions of a program\<close>

text \<open>
  What \<open>iretq\<close> and \<open>recover.S\<close> make of the frame the handler leaves: the interrupt flag is bit 9 of
  its flags, and at \<open>restore\<close>, on the stack that \<open>elf_exec\<close> has saved, the run is over.
\<close>

definition iretq :: "u64 \<Rightarrow> interrupt_frame \<Rightarrow> (run_end, 'z shell_scheme) prog" where
  "iretq restore f = bind (modify (\<lambda>s. s\<lparr>intr_enabled := bit (rflags f) 9\<rparr>))
     (\<lambda>_. branch (\<lambda>s. rip f = restore \<and> rsp f = exc_restore_rsp s) (ret Restored) undef)"

text \<open>
  A program on the processor: \<open>body\<close> runs until it returns or raises an exception. The gate of an
  exception disables interrupts, its stub calls the handler with the frame of the fault.
\<close>

definition hosted :: "(u64 \<Rightarrow> u64 \<Rightarrow> u64 \<Rightarrow> u64 \<Rightarrow> (u64 \<times> u64, 'z shell_scheme) prog) \<Rightarrow> u64
    \<Rightarrow> (u64 \<Rightarrow> 'z shell_scheme \<Rightarrow> interrupt_frame) \<Rightarrow> (u64 \<Rightarrow> (unit, 'z shell_scheme) prog)
    \<Rightarrow> u64 \<Rightarrow> (run_end, 'z shell_scheme) prog" where
  "hosted call restore frame body entry s = (case body entry s of
     None \<Rightarrow> None
   | Some (Ok _ t) \<Rightarrow> Some (Ok Returned t)
   | Some (Halt t) \<Rightarrow> Some (Halt t)
   | Some (Wait t) \<Rightarrow> Some (Wait t)
   | Some (Trap v t) \<Rightarrow> bind (exception_handler call (frame v t)) (iretq restore) (t\<lparr>intr_enabled := False\<rparr>)
   | Some Undef \<Rightarrow> Some Undef)"

definition started :: "u64 \<Rightarrow> u64 \<Rightarrow> 'z shell_scheme \<Rightarrow> 'z shell_scheme" where
  "started hook sp s = s\<lparr>exc_caught := False, exc_restore_rsp := sp, exc_hook := hook\<rparr>"

lemma elf_exec_run: "elf_exec kernel_kst run hook sp entry s = bind (run entry) (\<lambda>r. case r of
    Returned \<Rightarrow> modify (\<lambda>s. s\<lparr>exc_hook := 0\<rparr>)
  | Restored \<Rightarrow> modify (\<lambda>s. s\<lparr>exc_caught := True\<rparr>)) (started hook sp s)"
  by (simp add: elf_exec_def bind_run modify_run kst_set_exc_hook_def hal_set_exc_hook_def idt_set_exc_hook_def
      kst_clear_exc_hook_def hal_clear_exc_hook_def idt_clear_exc_hook_def started_def skip_def
      split: option.split outcome.split run_end.split)
    (auto simp: modify_run bind_run ret_run)

text \<open>The hook of the shell sends the frame of the fault to \<open>exc_restore\<close>.\<close>

lemma exception_recovers:
  assumes "exc_hook t = hook" and "hook \<noteq> 0" and "restore \<noteq> 0" and "call hook = exc_hook_fn restore"
  shows "exception_handler call f t = Some (Ok (f\<lparr>rip := restore, rsp := exc_restore_rsp t, rflags := 0x202\<rparr>)
    (t\<lparr>exc_hook := 0, exc_vec := vector f, exc_rip := rip f, exc_err := error_code f\<rparr>))"
  using assms by (simp add: exception_hooked exc_hook_fn_def bind_run modify_run gets_run ret_run skip_run)

text \<open>
  The state in which the shell goes on after an exception with the frame \<open>f\<close> in the state \<open>t\<close>: the
  flags the handler writes into the frame enable interrupts.
\<close>

definition recovered :: "interrupt_frame \<Rightarrow> 'z shell_scheme \<Rightarrow> 'z shell_scheme" where
  "recovered f t = t\<lparr>intr_enabled := True, exc_hook := 0, exc_vec := vector f, exc_rip := rip f, exc_err := error_code f,
     exc_caught := True\<rparr>"

lemma elf_exec_recovers:
  assumes "body entry (started hook sp s) = Some (Trap v t)"
    and "exc_hook t = hook" and "hook \<noteq> 0" and "restore \<noteq> 0" and "call hook = exc_hook_fn restore"
  shows "elf_exec kernel_kst (hosted call restore frame body) hook sp entry s = Some (Ok () (recovered (frame v t) t))"
proof -
  have "exc_hook (t\<lparr>intr_enabled := False\<rparr>) = hook" using assms(2) by simp
  from exception_recovers [where call = call, OF this assms(3-5)] assms(1) show ?thesis
    by (simp add: elf_exec_run hosted_def iretq_def recovered_def bind_run branch_run ret_run modify_run bit_iff_odd)
qed

lemma elf_exec_returns:
  assumes "body entry (started hook sp s) = Some (Ok () t)"
  shows "elf_exec kernel_kst (hosted call restore frame body) hook sp entry s = Some (Ok () (t\<lparr>exc_hook := 0\<rparr>))"
  using assms by (simp add: elf_exec_run hosted_def bind_run modify_run)

end
