(* ===== verification/Screen.thy ===== *)
theory Screen imports Services begin

text \<open>
  What a program puts on the display, as text on the abstract terminal: rules for the printing
  operations of the console, and the exact screens of a panic and of an exception without a hook.
\<close>

named_theorems shows_intros "introduction rules for programs that only print on the display"

section \<open>Text on the display\<close>

text \<open>From \<open>s\<close> to \<open>t\<close> only the driver's state and the port trace changed, and the text is on the screen.\<close>

definition shown :: "u8 list \<Rightarrow> 'z hal_scheme \<Rightarrow> 'z hal_scheme \<Rightarrow> bool" where
  "shown xs s t \<longleftrightarrow> on_display t \<and> vga_frame s t \<and> vga_abs t = fold term_put xs (vga_abs s)"

definition shows_text :: "u8 list \<Rightarrow> (unit, 'z hal_scheme) prog \<Rightarrow> bool" where
  "shows_text xs m \<longleftrightarrow> (\<forall>s. on_display s \<longrightarrow> (\<exists>t. m s = Some (Ok () t) \<and> shown xs s t))"

lemma vga_frame_local:
  assumes "vga_frame s t" and "vga_local f"
  shows "f t = f s"
proof -
  have "t = s\<lparr>port_out := port_out t, vram := vram t, buffer := buffer t, cursor_row := cursor_row t,
      cursor_col := cursor_col t, current_color := current_color t\<rparr>"
    using assms(1) by (cases s, cases t) (simp add: vga_frame_def)
  then show ?thesis using assms(2) unfolding vga_local_def by metis
qed

lemma vga_frame_trans: "vga_frame s t \<Longrightarrow> vga_frame t u \<Longrightarrow> vga_frame s u"
  by (simp add: vga_frame_def)

lemma shown_refl: "on_display s \<Longrightarrow> shown [] s s"
  by (simp add: shown_def vga_frame_def)

lemma shown_local: "shown xs s t \<Longrightarrow> vga_local f \<Longrightarrow> f t = f s"
  by (auto simp: shown_def intro: vga_frame_local)

lemma shown_trans: "shown xs s t \<Longrightarrow> shown ys t u \<Longrightarrow> shown (xs @ ys) s u"
  by (auto simp: shown_def intro: vga_frame_trans)

lemma shows_textE:
  assumes "shows_text xs m" and "on_display s"
  obtains t where "m s = Some (Ok () t)" and "shown xs s t"
  using assms by (auto simp: shows_text_def)

lemma shows_for_each: "shows_text xs (for_each xs hal_console_putchar :: (unit, 'z hal_scheme) prog)"
proof -
  have "\<exists>t. for_each xs hal_console_putchar s = Some (Ok () t) \<and> shown xs s t" if s: "on_display s" for s :: "'z hal_scheme"
  proof -
    have "vga_inv s" using s by (simp add: on_display_def)
    from vga_for_each_run [OF this] obtain t where
      t: "for_each xs vga_putchar s = Some (Ok () t)" "vga_inv t" "vga_frame s t" "vga_abs t = fold term_put xs (vga_abs s)" by blast
    have "active_console t = active_console s"
      by (rule vga_frame_local [OF t(3)]) (simp add: vga_local_def)
    with t s show ?thesis
      by (auto simp: for_each_hal_console_putchar branch_run on_display_def on_serial_def shown_def)
  qed
  then show ?thesis by (simp add: shows_text_def)
qed

lemma shows_cong: "shows_text xs k \<Longrightarrow> (\<And>s. m s = k s) \<Longrightarrow> shows_text xs m"
  by (simp add: shows_text_def)

lemma shows_print [shows_intros]: "0 \<notin> set xs \<Longrightarrow> shows_text xs (hal_console_print (Lit xs))"
proof (rule shows_cong [OF shows_for_each])
  fix s :: "'z hal_scheme" assume "0 \<notin> set xs"
  then have "takeWhile (\<lambda>x. x \<noteq> 0) xs = xs" by (metis (mono_tags) takeWhile_eq_all_conv)
  then show "hal_console_print (Lit xs) s = for_each xs hal_console_putchar s" by (simp only: con_dev.print_Lit)
qed

lemma shows_print_hex [shows_intros]: "shows_text (lit ''0x'' @ hex_buf 16 v) (hal_console_print_hex v)"
  by (rule shows_cong [OF shows_for_each]) (simp add: con_dev.print_hex_puts del: lit_Cons)

lemma shows_print_dec [shows_intros]: "unat v < 10 ^ 19 \<Longrightarrow> shows_text (dec_str (unat v)) (hal_console_print_dec v)"
  by (rule shows_cong [OF shows_for_each]) (simp add: hal_console_print_dec_run)

lemma shows_putchar [shows_intros]: "shows_text [c] (hal_console_putchar c)"
  by (rule shows_cong [OF shows_for_each]) simp

lemma shows_kst [shows_intros]:
  "0 \<notin> set xs \<Longrightarrow> shows_text xs (con_print kernel_kst (Lit xs))"
  "shows_text (lit ''0x'' @ hex_buf 16 v) (con_print_hex kernel_kst v)"
  "unat v < 10 ^ 19 \<Longrightarrow> shows_text (dec_str (unat v)) (con_print_dec kernel_kst v)"
  "shows_text [c] (con_putchar kernel_kst c)"
  by (simp_all add: shows_intros del: lit_Cons)

lemma shows_skip [shows_intros]: "shows_text [] skip"
  by (simp add: shows_text_def skip_run shown_refl)

lemma shows_seq [shows_intros]:
  "shows_text [] (seq [])"
  "shows_text xs m \<Longrightarrow> shows_text ys (seq ms) \<Longrightarrow> shows_text (xs @ ys) (seq (m # ms))"
proof -
  show "shows_text [] (seq [])" by (simp add: shows_skip)
  assume m: "shows_text xs m" "shows_text ys (seq ms)"
  have "\<exists>u. seq (m # ms) s = Some (Ok () u) \<and> shown (xs @ ys) s u" if "on_display s" for s
  proof -
    from shows_textE [OF m(1) that] obtain t where t: "m s = Some (Ok () t)" "shown xs s t" .
    then have "on_display t" by (simp add: shown_def)
    from shows_textE [OF m(2) this] obtain u where "seq ms t = Some (Ok () u)" "shown ys t u" .
    with t show ?thesis by (auto simp: bind_run intro: shown_trans)
  qed
  then show "shows_text (xs @ ys) (seq (m # ms))" by (simp add: shows_text_def)
qed

lemma shows_if [shows_intros]:
  "(c \<Longrightarrow> shows_text xs m) \<Longrightarrow> (\<not> c \<Longrightarrow> shows_text ys k) \<Longrightarrow> shows_text (if c then xs else ys) (if c then m else k)"
  by simp

section \<open>A panic\<close>

text \<open>The colours of a panic, and the lines in them.\<close>

definition alarm :: "terminal \<Rightarrow> terminal" where
  "alarm t = t\<lparr>attr := make_color VGA_WHITE VGA_RED\<rparr>"

definition panic_text :: "u8 list \<Rightarrow> u8 list" where
  "panic_text xs = ([0x0A, 0x0A] @ lit ''  KERNEL PANIC: '') @ xs @ lit ''  '' @ [0x0A]"

lemma panic_color_run:
  assumes "on_display s"
  shows "\<exists>t. hal_console_panic_color s = Some (Ok () t) \<and> on_display t \<and> vga_frame s t \<and> vga_abs t = alarm (vga_abs s)"
  using assms by (auto simp: hal_console_panic_color_def branch_run vga_set_color_def modify_run on_display_def
      vga_inv_def vga_frame_def vga_abs_def alarm_def)

lemma hal_panic_display:
  fixes s :: "'z hal_scheme"
  assumes "on_display s" and "0 \<notin> set xs"
  shows "\<exists>t. (hal_panic (Lit xs) :: ('a, 'z hal_scheme) prog) s = Some (Halt t) \<and> vga_abs t = fold term_put (panic_text xs) (alarm (vga_abs s))
    \<and> mem t = mem s \<and> \<not> intr_enabled t"
proof -
  let ?s = "s\<lparr>intr_enabled := False\<rparr>"
  have "on_display ?s" "vga_abs ?s = vga_abs s" using assms(1) by (simp_all add: on_display_def vga_inv_def vga_abs_def)
  with panic_color_run [of ?s] obtain u where
    u: "hal_console_panic_color ?s = Some (Ok () u)" "on_display u" "vga_frame ?s u" "vga_abs u = alarm (vga_abs s)" by auto
  let ?m = "seq [hal_console_print (Lit ([0x0A, 0x0A] @ lit ''  KERNEL PANIC: '')), hal_console_print (Lit xs),
     hal_console_print (Lit (lit ''  '' @ [0x0A]))] :: (unit, 'z hal_scheme) prog"
  have "shows_text (([0x0A, 0x0A] @ lit ''  KERNEL PANIC: '') @ xs @ (lit ''  '' @ [0x0A]) @ []) ?m"
    using assms(2) by (intro shows_intros) simp_all
  then have "shows_text (panic_text xs) ?m" by (simp only: panic_text_def append_Nil2)
  from shows_textE [OF this u(2)] obtain t where t: "?m u = Some (Ok () t)" "shown (panic_text xs) u t" .
  have parts: "(hal_panic (Lit xs) :: ('a, 'z hal_scheme) prog) = bind hal_cpu_disable_interrupts (\<lambda>_.
      bind hal_console_panic_color (\<lambda>_. bind ?m (\<lambda>_. hal_cpu_halt)))"
    by (simp add: hal_panic_def bind_assoc del: lit_Cons)
  have "bind ?m (\<lambda>_. hal_cpu_halt :: ('a, 'z hal_scheme) prog) u = Some (Halt t)"
    by (simp only: bind_run [of ?m] t(1) option.case outcome.case hal_cpu_halt_run)
  with u(1) have "(hal_panic (Lit xs) :: ('a, 'z hal_scheme) prog) s = Some (Halt t)"
    by (simp add: parts hal_cpu_disable_interrupts_def bind_run [of "modify _"] bind_run [of hal_console_panic_color] modify_run
        del: seq.simps lit_Cons)
  with t(2) u show ?thesis by (auto simp: shown_def vga_frame_def)
qed

section \<open>An exception without a hook\<close>

definition fault_name :: "u64 \<Rightarrow> string" where
  "fault_name v = (if v < 32 then exception_names ! unat v else ''Unknown'')"

definition field_text :: "string \<Rightarrow> u64 \<Rightarrow> u8 list" where
  "field_text name v = lit name @ lit ''0x'' @ hex_buf 16 v"

definition fault_text :: "interrupt_frame \<Rightarrow> u8 list" where
  "fault_text f = ([0x0A, 0x0A] @ lit ''  EXCEPTION: '') @ lit (fault_name (vector f)) @ [0x0A]
     @ field_text ''  RIP: '' (rip f) @ field_text ''  CS:  '' (cs f) @ [0x0A]
     @ field_text ''  RSP: '' (rsp f) @ field_text ''  SS:  '' (ss f) @ [0x0A]
     @ field_text ''  RFLAGS: '' (rflags f) @ [0x0A]
     @ (if error_code f \<noteq> 0 then field_text ''  ERR: '' (error_code f) @ [0x0A] else [])
     @ field_text ''  RAX: '' (rax f) @ field_text ''  RBX: '' (rbx f) @ [0x0A]
     @ field_text ''  RCX: '' (rcx f) @ field_text ''  RDX: '' (rdx f) @ [0x0A]"

lemma fault_name_no_zero: "0 \<notin> set (lit (fault_name v))"
proof (cases "v < 32")
  case True
  have all: "\<forall>w\<in>set exception_names. 0 \<notin> set (lit w)" by (simp add: exception_names_def)
  have "unat v < length exception_names" using True by (simp add: word_less_nat_alt exception_names_def)
  with all True show ?thesis by (simp add: fault_name_def)
qed (simp add: fault_name_def)

lemma shows_fault_error:
  "shows_text (if error_code f \<noteq> 0 then field_text ''  ERR: '' (error_code f) @ [0x0A] else [])
    (if error_code f \<noteq> 0 then seq [hal_console_print (str ''  ERR: ''), hal_console_print_hex (error_code f), hal_console_print newline]
     else skip)"
proof -
  have "shows_text (lit ''  ERR: '' @ (lit ''0x'' @ hex_buf 16 (error_code f)) @ [0x0A] @ [])
    (seq [hal_console_print (str ''  ERR: ''), hal_console_print_hex (error_code f), hal_console_print newline])"
    by (intro shows_intros) simp_all
  then show ?thesis
    by (intro shows_if shows_skip) (simp only: field_text_def append_assoc append_Nil2)
qed

lemma exception_display:
  fixes s :: "'z idts_scheme"
  assumes "on_display s" and "exc_hook s = 0"
  shows "\<exists>t. exception_handler call f s = Some (Halt t) \<and> vga_abs t = fold term_put (fault_text f) (alarm (vga_abs s)) \<and> mem t = mem s"
proof -
  from panic_color_run [OF assms(1)] obtain u where
    u: "hal_console_panic_color s = Some (Ok () u)" "on_display u" "vga_frame s u" "vga_abs u = alarm (vga_abs s)" by auto
  define m :: "(unit, 'z idts_scheme) prog" where "m = seq [
         hal_console_print (Lit ([0x0A, 0x0A] @ lit ''  EXCEPTION: '')),
         hal_console_print (str (fault_name (vector f))),
         hal_console_print newline,
         hal_console_print (str ''  RIP: ''), hal_console_print_hex (rip f),
         hal_console_print (str ''  CS:  ''), hal_console_print_hex (cs f), hal_console_print newline,
         hal_console_print (str ''  RSP: ''), hal_console_print_hex (rsp f),
         hal_console_print (str ''  SS:  ''), hal_console_print_hex (ss f), hal_console_print newline,
         hal_console_print (str ''  RFLAGS: ''), hal_console_print_hex (rflags f), hal_console_print newline,
         (if error_code f \<noteq> 0 then seq [
            hal_console_print (str ''  ERR: ''), hal_console_print_hex (error_code f), hal_console_print newline]
          else skip),
         hal_console_print (str ''  RAX: ''), hal_console_print_hex (rax f),
         hal_console_print (str ''  RBX: ''), hal_console_print_hex (rbx f), hal_console_print newline,
         hal_console_print (str ''  RCX: ''), hal_console_print_hex (rcx f),
         hal_console_print (str ''  RDX: ''), hal_console_print_hex (rdx f), hal_console_print newline]"
  have "shows_text (([0x0A, 0x0A] @ lit ''  EXCEPTION: '') @ lit (fault_name (vector f)) @ [0x0A]
     @ lit ''  RIP: '' @ (lit ''0x'' @ hex_buf 16 (rip f)) @ lit ''  CS:  '' @ (lit ''0x'' @ hex_buf 16 (cs f)) @ [0x0A]
     @ lit ''  RSP: '' @ (lit ''0x'' @ hex_buf 16 (rsp f)) @ lit ''  SS:  '' @ (lit ''0x'' @ hex_buf 16 (ss f)) @ [0x0A]
     @ lit ''  RFLAGS: '' @ (lit ''0x'' @ hex_buf 16 (rflags f)) @ [0x0A]
     @ (if error_code f \<noteq> 0 then field_text ''  ERR: '' (error_code f) @ [0x0A] else [])
     @ lit ''  RAX: '' @ (lit ''0x'' @ hex_buf 16 (rax f)) @ lit ''  RBX: '' @ (lit ''0x'' @ hex_buf 16 (rbx f)) @ [0x0A]
     @ lit ''  RCX: '' @ (lit ''0x'' @ hex_buf 16 (rcx f)) @ lit ''  RDX: '' @ (lit ''0x'' @ hex_buf 16 (rdx f)) @ [0x0A] @ []) m"
    unfolding m_def by (intro shows_intros shows_fault_error fault_name_no_zero) simp_all
  then have "shows_text (fault_text f) m" by (simp only: fault_text_def field_text_def append_assoc append_Nil2)
  from shows_textE [OF this u(2)] obtain t where t: "m u = Some (Ok () t)" "shown (fault_text f) u t" .
  have "exception_handler call f s = bind hal_console_panic_color (\<lambda>_. bind m (\<lambda>_. hal_cpu_halt)) s"
    using assms(2) by (simp add: exception_handler_def bind_run [of "gets _"] gets_run m_def fault_name_def bind_assoc del: lit_Cons)
  with u(1) t(1) have "exception_handler call f s = Some (Halt t)" by (simp add: bind_run hal_cpu_halt_run)
  with t(2) u show ?thesis by (auto simp: shown_def vga_frame_def)
qed

end
