(* ===== verification/Demos.thy ===== *)
theory Demos imports Shell_Loop Screen begin

text \<open>
  The modules shipped with the kernel: \<open>hello\<close> and the \<open>exception_test\<close> of the debug build.
  A processor exception is the outcome \<open>Trap\<close> with its vector.
\<close>

section \<open>The hello module\<close>

definition hello_main :: "'s kst \<Rightarrow> (unit, 's) prog" where
  "hello_main kst = con_print kst (Lit (lit ''Hello World!'' @ [0x0A]))"

section \<open>The exception test\<close>

definition raise :: "u64 \<Rightarrow> ('a, 's) prog" where
  "raise v s = Some (Trap v s)"

text \<open>\<open>42 / zero\<close> with a \<open>volatile\<close> zero: \<open>idiv\<close> raises vector 0 on a zero divisor.\<close>

definition idiv :: "int \<Rightarrow> int \<Rightarrow> (int, 's) prog" where
  "idiv a b = (if b = 0 then raise 0 else ret (sgn a * sgn b * (\<bar>a\<bar> div \<bar>b\<bar>)))"

definition trigger_divide_error :: "'s kst \<Rightarrow> (unit, 's) prog" where
  "trigger_divide_error kst = bind (con_print kst (Lit (lit ''  -> #DE (division by zero)...'' @ [0x0A])))
     (\<lambda>_. bind (idiv 42 0) (\<lambda>r. skip))"

definition trigger_invalid_opcode :: "'s kst \<Rightarrow> (unit, 's) prog" where
  "trigger_invalid_opcode kst = bind (con_print kst (Lit (lit ''  -> #UD (invalid opcode / ud2)...'' @ [0x0A])))
     (\<lambda>_. raise 6)"

text \<open>
  \<open>*null\<close> for a constant null pointer is undefined in C, and a compiler that sees the constant may
  replace what follows; the program has no behaviour from there on.
\<close>

definition trigger_page_fault :: "'s kst \<Rightarrow> (unit, 's) prog" where
  "trigger_page_fault kst = bind (con_print kst (Lit (lit ''  -> #PF (null pointer dereference)...'' @ [0x0A])))
     (\<lambda>_. undef)"

text \<open>\<open>rdmsr\<close> of a register that does not exist raises vector 13.\<close>

definition trigger_gpf :: "'s kst \<Rightarrow> (unit, 's) prog" where
  "trigger_gpf kst = bind (con_print kst (Lit (lit ''  -> #GP (rdmsr with bad index)...'' @ [0x0A])))
     (\<lambda>_. raise 13)"

text \<open>\<open>test\<close> is \<open>TEST_EXCEPTION\<close>, 0 in the source; any other value compiles no trigger.\<close>

definition exception_test_main :: "nat \<Rightarrow> 's kst \<Rightarrow> (unit, 's) prog" where
  "exception_test_main test kst = seq [
     con_print kst (Lit (0x0A # lit ''[exception_test] IDT exception test module'' @ [0x0A])),
     con_print kst (Lit (lit ''----------------------------------------------'' @ [0x0A])),
     con_print kst (Lit (lit ''Pick an exception to fire:'' @ [0x0A])),
     con_print kst (Lit (lit ''  0 = #DE  division by zero'' @ [0x0A])),
     con_print kst (Lit (lit ''  1 = #UD  invalid opcode (ud2)'' @ [0x0A])),
     con_print kst (Lit (lit ''  2 = #PF  page fault (null deref)'' @ [0x0A])),
     con_print kst (Lit (lit ''  3 = #GP  general protection fault'' @ [0x0A, 0x0A])),
     (if test = 0 then trigger_divide_error kst
      else if test = 1 then trigger_invalid_opcode kst
      else if test = 2 then trigger_page_fault kst
      else if test = 3 then trigger_gpf kst
      else skip),
     con_print kst (Lit (lit ''[exception_test] ERROR: exception was not caught!'' @ [0x0A])),
     sys_panic kst (str ''IDT not installed correctly'')]"

section \<open>The shipped modules as the code of the table\<close>

text \<open>The entry code at the two addresses: \<open>hello\<close> at \<open>a\<close>, the exception test elsewhere.\<close>

definition shipped :: "nat \<Rightarrow> u64 \<Rightarrow> u64 \<Rightarrow> (unit, 'z kernel_scheme) prog" where
  "shipped test a b = (if b = a then hello_main kernel_kst else exception_test_main test kernel_kst)"

lemma exception_test_no_return: "exception_test_main test kernel_kst s \<noteq> Some (Ok a t)"
proof -
  have stuck: "bind m k s \<noteq> Some (Ok a t)" if "\<And>b u. k b u \<noteq> Some (Ok a t)" for m :: "(unit, 's) prog" and k :: "unit \<Rightarrow> (unit, 's) prog" and s a t
    using that by (auto simp: bind_run split: option.splits outcome.splits)
  show ?thesis
    unfolding exception_test_main_def seq.simps bind_skip_right
    by (intro stuck) (simp add: hal_panic_no_return del: lit_Cons)
qed

interpretation shipped: module_code N "shipped test a"
proof
  fix b and s t :: "'z kernel_scheme" and ms
  assume r: "shipped test a b s = Some (Ok () t)"
  then have "hello_main kernel_kst s = Some (Ok () t)"
    using exception_test_no_return [of test s "()" t] by (auto simp: shipped_def split: if_splits)
  then have p: "hal_console_print (Lit (lit ''Hello World!'' @ [0x0A])) s = Some (Ok () t)"
    by (simp add: hello_main_def del: lit_Cons)
  have "con_local (\<lambda>s :: 'z kernel_scheme. (modules s, mod_count s, mem s))"
    by (intro con_local_pair) simp_all
  from unchanged_OkD [OF unchanged_hal_console_print [OF con_local_print [OF this]] p]
  show "modules t = modules s \<and> mod_count t = mod_count s"
    and "headers_ok N (mem s) ms \<Longrightarrow> headers_ok N (mem t) ms"
    by simp_all
qed

section \<open>The exception test on the display\<close>

definition menu_text :: "u8 list" where
  "menu_text = (0x0A # lit ''[exception_test] IDT exception test module'' @ [0x0A])
     @ (lit ''----------------------------------------------'' @ [0x0A])
     @ (lit ''Pick an exception to fire:'' @ [0x0A])
     @ (lit ''  0 = #DE  division by zero'' @ [0x0A])
     @ (lit ''  1 = #UD  invalid opcode (ud2)'' @ [0x0A])
     @ (lit ''  2 = #PF  page fault (null deref)'' @ [0x0A])
     @ (lit ''  3 = #GP  general protection fault'' @ [0x0A, 0x0A])"

definition announced :: "nat \<Rightarrow> u8 list" where
  "announced test = (if test = 0 then lit ''  -> #DE (division by zero)...''
     else if test = 1 then lit ''  -> #UD (invalid opcode / ud2)...''
     else if test = 2 then lit ''  -> #PF (null pointer dereference)...''
     else if test = 3 then lit ''  -> #GP (rdmsr with bad index)...'' else []) @ [0x0A]"

definition test_menu :: "(unit, 'z kernel_scheme) prog" where
  "test_menu = seq [
     con_print kernel_kst (Lit (0x0A # lit ''[exception_test] IDT exception test module'' @ [0x0A])),
     con_print kernel_kst (Lit (lit ''----------------------------------------------'' @ [0x0A])),
     con_print kernel_kst (Lit (lit ''Pick an exception to fire:'' @ [0x0A])),
     con_print kernel_kst (Lit (lit ''  0 = #DE  division by zero'' @ [0x0A])),
     con_print kernel_kst (Lit (lit ''  1 = #UD  invalid opcode (ud2)'' @ [0x0A])),
     con_print kernel_kst (Lit (lit ''  2 = #PF  page fault (null deref)'' @ [0x0A])),
     con_print kernel_kst (Lit (lit ''  3 = #GP  general protection fault'' @ [0x0A, 0x0A]))]"

lemma shows_menu: "shows_text menu_text test_menu"
proof -
  have "shows_text ((0x0A # lit ''[exception_test] IDT exception test module'' @ [0x0A])
     @ (lit ''----------------------------------------------'' @ [0x0A])
     @ (lit ''Pick an exception to fire:'' @ [0x0A])
     @ (lit ''  0 = #DE  division by zero'' @ [0x0A])
     @ (lit ''  1 = #UD  invalid opcode (ud2)'' @ [0x0A])
     @ (lit ''  2 = #PF  page fault (null deref)'' @ [0x0A])
     @ (lit ''  3 = #GP  general protection fault'' @ [0x0A, 0x0A]) @ []) test_menu"
    unfolding test_menu_def by (intro shows_intros) simp_all
  then show ?thesis by (simp only: menu_text_def append_assoc append_Nil2)
qed

lemma exception_test_menu:
  "exception_test_main test kernel_kst = bind test_menu (\<lambda>_. seq [
     (if test = 0 then trigger_divide_error kernel_kst
      else if test = 1 then trigger_invalid_opcode kernel_kst
      else if test = 2 then trigger_page_fault kernel_kst
      else if test = 3 then trigger_gpf kernel_kst
      else skip),
     con_print kernel_kst (Lit (lit ''[exception_test] ERROR: exception was not caught!'' @ [0x0A])),
     sys_panic kernel_kst (str ''IDT not installed correctly'')])"
  by (simp add: exception_test_main_def test_menu_def bind_assoc del: lit_Cons)

text \<open>What a test does after the menu: it announces its exception and raises it.\<close>

definition test_vector :: "nat \<Rightarrow> u64 option" where
  "test_vector test = (if test = 0 then Some 0 else if test = 1 then Some 6 else if test = 3 then Some 13 else None)"

lemma announced_no_zero: "0 \<notin> set (announced test)"
  by (simp add: announced_def)

lemma trigger_announces:
  fixes s :: "'z kernel_scheme"
  assumes "test_vector test = Some v"
  shows "(if test = 0 then trigger_divide_error kernel_kst
      else if test = 1 then trigger_invalid_opcode kernel_kst
      else if test = 2 then trigger_page_fault kernel_kst
      else if test = 3 then trigger_gpf kernel_kst
      else skip) s = bind (con_print kernel_kst (Lit (announced test))) (\<lambda>_. raise v) s"
proof -
  have div: "bind (idiv 42 0) (\<lambda>r. skip) = (raise 0 :: (unit, 'z kernel_scheme) prog)"
    by (simp add: idiv_def raise_def bind_def fun_eq_iff)
  show ?thesis
    using assms by (auto simp: test_vector_def announced_def trigger_divide_error_def trigger_invalid_opcode_def
        trigger_gpf_def div simp del: lit_Cons split: if_splits)
qed

text \<open>Three of the tests raise their exception.\<close>

lemma exception_test_traps:
  fixes s :: "'z kernel_scheme"
  assumes s: "on_display s" and v: "test_vector test = Some v"
  shows "\<exists>t. exception_test_main test kernel_kst s = Some (Trap v t) \<and> shown (menu_text @ announced test) s t"
proof -
  from shows_textE [OF shows_menu s] obtain t where t: "test_menu s = Some (Ok () t)" "shown menu_text s t" .
  then have "on_display t" by (simp add: shown_def)
  from shows_textE [OF shows_kst(1) [OF announced_no_zero] this] obtain u where
    u: "con_print kernel_kst (Lit (announced test)) t = Some (Ok () u)" "shown (announced test) t u" .
  have "exception_test_main test kernel_kst s = Some (Trap v u)"
    using t(1) u(1) trigger_announces [OF v, of t]
    by (simp add: exception_test_menu bind_run [of test_menu] bind_run [of "if _ then _ else _"])
      (simp add: bind_run raise_def)
  with shown_trans [OF t(2) u(2)] show ?thesis by blast
qed

text \<open>The page fault test is undefined once it has announced itself.\<close>

lemma page_fault_test_undefined:
  fixes s :: "'z kernel_scheme"
  assumes s: "on_display s"
  shows "exception_test_main 2 kernel_kst s = Some Undef"
proof -
  from shows_textE [OF shows_menu s] obtain t where t: "test_menu s = Some (Ok () t)" "shown menu_text s t" .
  then have "on_display t" by (simp add: shown_def)
  from shows_textE [OF shows_kst(1) [OF announced_no_zero] this] obtain u where
    "con_print kernel_kst (Lit (announced 2)) t = Some (Ok () u)" .
  then have "trigger_page_fault kernel_kst t = Some Undef"
    by (simp add: trigger_page_fault_def announced_def bind_run undef_run del: lit_Cons)
  then show ?thesis using t(1) by (simp add: exception_test_menu bind_run del: lit_Cons)
qed

text \<open>
  An exception of a test reaches the screen: without a hook the handler reports it under the
  menu and the announcement, by the name the processor's vector has, and the kernel stops.
\<close>

definition test_title :: "nat \<Rightarrow> u8 list" where
  "test_title test = [0x0A, 0x0A] @ lit ''  EXCEPTION: '' @ lit (if test = 0 then ''#DE Division Error''
     else if test = 1 then ''#UD Invalid Opcode'' else ''#GP General Protection Fault'') @ [0x0A]"

lemma test_title_shown:
  assumes "test_vector test = Some v" and "vector f = v"
  shows "prefix (test_title test) (fault_text f)"
  using assms by (auto simp: test_vector_def test_title_def fault_text_def fault_name_def exception_names_def split: if_splits)

lemma exception_test_reported:
  fixes s :: "'z kernel_scheme"
  assumes "shown xs s t" and "exc_hook s = 0"
  shows "\<exists>u. exception_handler call f t = Some (Halt u) \<and> mem u = mem s
    \<and> vga_abs u = fold term_put (fault_text f) (alarm (fold term_put xs (vga_abs s)))"
proof -
  have "exc_hook t = exc_hook s" "mem t = mem s" by (rule shown_local [OF assms(1)]; simp add: vga_local_def)+
  with assms exception_display [of t call f] show ?thesis by (auto simp: shown_def)
qed

end
