(* ===== verification/Newlib.thy ===== *)
theory Newlib imports Shell_Loop begin

text \<open>
  The system call hooks of the C library, \<open>newlib/newlib.c\<close>, a client of the service table.
  The table pointer \<open>_kst\<close> is written once, before \<open>main\<close>, so it is an argument: \<open>None\<close>
  is a null pointer. \<open>errno\<close> is a variable of the state, with the names of \<open>errno.h\<close> the
  code uses.
\<close>

section \<open>State\<close>

datatype error_code = ENOSYS | EIO | EBADF | ENOENT | ESPIPE | ENOMEM | EINVAL

record libc = shell +
  errno :: "error_code option"

text \<open>\<open>errno = e; return r;\<close> and the hook body behind the test of \<open>_kst\<close>.\<close>

definition fail_with :: "error_code \<Rightarrow> 'a \<Rightarrow> ('a, 'z libc_scheme) prog" where
  "fail_with e r = bind (modify (\<lambda>s. s\<lparr>errno := Some e\<rparr>)) (\<lambda>_. ret r)"

section \<open>Input and output\<close>

definition write_fd :: "'z libc_scheme kst option \<Rightarrow> int \<Rightarrow> u64 \<Rightarrow> u64 \<Rightarrow> (int, 'z libc_scheme) prog" where
  "write_fd kst fd buf len = (case kst of None \<Rightarrow> fail_with ENOSYS (- 1)
   | Some k \<Rightarrow> bind (io_write k fd buf len) (\<lambda>r. if r < 0 then fail_with EIO (- 1) else ret r))"

text \<open>The cooked line input of \<open>read\<close> on the standard input, from \<open>n\<close> bytes read on.\<close>

partial_function (option) read_line ::
  "'z libc_scheme kst \<Rightarrow> u64 \<Rightarrow> u64 \<Rightarrow> u64 \<Rightarrow> (int, 'z libc_scheme) prog" where
  "read_line k dst n len s = (if n < len then
     bind (con_getchar k) (\<lambda>c.
       if c < 0 then fail_with EIO (- 1)
       else if c = 0x0D \<or> c = 0x0A then
         bind (con_putchar k 0x0A) (\<lambda>_. bind (store8 (dst + n) 0x0A) (\<lambda>_. ret (to_int (n + 1))))
       else if c = 0x08 \<or> c = 0x7F then
         (if n > 0 then bind (con_print k (Lit [0x08, 0x20, 0x08])) (\<lambda>_. read_line k dst (n - 1) len)
          else read_line k dst n len)
       else if c \<ge> 0x20 then
         bind (store8 (dst + n) (word_of_int c)) (\<lambda>_.
         bind (con_putchar k (word_of_int c)) (\<lambda>_. read_line k dst (n + 1) len))
       else read_line k dst n len)
   else ret (to_int n)) s"

definition read_fd :: "'z libc_scheme kst option \<Rightarrow> int \<Rightarrow> u64 \<Rightarrow> u64 \<Rightarrow> (int, 'z libc_scheme) prog" where
  "read_fd kst fd buf len = (case kst of None \<Rightarrow> fail_with ENOSYS (- 1)
   | Some k \<Rightarrow> if fd \<noteq> 0
       then bind (io_read k fd buf len) (\<lambda>r. if r < 0 then fail_with EBADF (- 1) else ret r)
       else if len = 0 then ret 0
       else read_line k buf 0 len)"

definition open_fd :: "'z libc_scheme kst option \<Rightarrow> cstr \<Rightarrow> int \<Rightarrow> int \<Rightarrow> (int, 'z libc_scheme) prog" where
  "open_fd kst path flags mode = (case kst of None \<Rightarrow> fail_with ENOSYS (- 1)
   | Some k \<Rightarrow> bind (io_open k path flags mode) (\<lambda>r. if r < 0 then fail_with ENOENT (- 1) else ret r))"

definition close_fd :: "'z libc_scheme kst option \<Rightarrow> int \<Rightarrow> (int, 'z libc_scheme) prog" where
  "close_fd kst fd = (case kst of None \<Rightarrow> fail_with ENOSYS (- 1)
   | Some k \<Rightarrow> bind (io_close k fd) (\<lambda>r. if r < 0 then fail_with EBADF (- 1) else ret r))"

definition isatty :: "'z libc_scheme kst option \<Rightarrow> int \<Rightarrow> (int, 'z libc_scheme) prog" where
  "isatty kst fd = (case kst of None \<Rightarrow> ret 0 | Some k \<Rightarrow> io_isatty k fd)"

definition lseek :: "'z libc_scheme kst option \<Rightarrow> int \<Rightarrow> int \<Rightarrow> int \<Rightarrow> (int, 'z libc_scheme) prog" where
  "lseek kst fd offset whence = (case kst of None \<Rightarrow> fail_with ENOSYS (- 1)
   | Some k \<Rightarrow> bind (io_lseek k fd offset whence) (\<lambda>r. if r < 0 then fail_with ESPIPE (- 1) else ret r))"

definition fstat :: "'z libc_scheme kst option \<Rightarrow> int \<Rightarrow> u64 \<Rightarrow> (int, 'z libc_scheme) prog" where
  "fstat kst fd st = (case kst of None \<Rightarrow> fail_with ENOSYS (- 1) | Some k \<Rightarrow> io_fstat k fd st)"

section \<open>Memory and process\<close>

definition sbrk :: "'z libc_scheme kst option \<Rightarrow> u64 \<Rightarrow> (u64, 'z libc_scheme) prog" where
  "sbrk kst incr = (case kst of None \<Rightarrow> ret (- 1)
   | Some k \<Rightarrow> bind (mem_sbrk k incr) (\<lambda>p. if p = - 1 then fail_with ENOMEM p else ret p))"

definition getpid :: "'z libc_scheme kst option \<Rightarrow> (int, 'z libc_scheme) prog" where
  "getpid kst = (case kst of None \<Rightarrow> ret 1 | Some k \<Rightarrow> sys_getpid k)"

definition kill :: "'z libc_scheme kst option \<Rightarrow> int \<Rightarrow> int \<Rightarrow> (int, 'z libc_scheme) prog" where
  "kill kst pid sig = bind (case kst of None \<Rightarrow> skip
     | Some k \<Rightarrow> if sig = 6 then sys_panic k (str ''abort() called from module'') else skip)
     (\<lambda>_. fail_with EINVAL (- 1))"

definition exit_program :: "'z libc_scheme kst option \<Rightarrow> int \<Rightarrow> (unit, 'z libc_scheme) prog" where
  "exit_program kst status = bind (case kst of None \<Rightarrow> skip | Some k \<Rightarrow> sys_exit k status) (\<lambda>_. halt)"

section \<open>The cooked line\<close>

text \<open>
  The reference: a line of at most \<open>cap\<close> bytes, its newline included, edited from the
  characters \<open>chars\<close>; \<open>None\<close> when they end first.
\<close>

function cooked :: "nat \<Rightarrow> u8 list \<Rightarrow> int list \<Rightarrow> (u8 list \<times> int list) option" where
  "cooked cap line chars = (if length line \<ge> cap then Some (line, chars)
     else (case chars of [] \<Rightarrow> None
       | c # rest \<Rightarrow>
           if c = 0x0D \<or> c = 0x0A then Some (line @ [0x0A], rest)
           else if c = 0x08 \<or> c = 0x7F then cooked cap (butlast line) rest
           else if c \<ge> 0x20 then cooked cap (line @ [word_of_int c]) rest
           else cooked cap line rest))"
  by pat_completeness auto
termination by (relation "measure (\<lambda>(cap, line, chars). length chars)") auto

text \<open>What the read puts on the screen meanwhile.\<close>

function cooked_echo :: "nat \<Rightarrow> u8 list \<Rightarrow> int list \<Rightarrow> u8 list" where
  "cooked_echo cap line chars = (if length line \<ge> cap then []
     else (case chars of [] \<Rightarrow> []
       | c # rest \<Rightarrow>
           if c = 0x0D \<or> c = 0x0A then [0x0A]
           else if c = 0x08 \<or> c = 0x7F then
             (if line = [] then [] else [0x08, 0x20, 0x08]) @ cooked_echo cap (butlast line) rest
           else if c \<ge> 0x20 then word_of_int c # cooked_echo cap (line @ [word_of_int c]) rest
           else cooked_echo cap line rest))"
  by pat_completeness auto
termination by (relation "measure (\<lambda>(cap, line, chars). length chars)") auto

declare cooked.simps [simp del] cooked_echo.simps [simp del]

text \<open>The memory holds the line at \<open>dst\<close>.\<close>

definition stored :: "memory \<Rightarrow> u64 \<Rightarrow> u8 list \<Rightarrow> bool" where
  "stored m dst line \<longleftrightarrow> (\<forall>i<length line. m (dst + of_nat i) = line ! i)"

lemma stored_Nil [simp]: "stored m dst []"
  by (simp add: stored_def)

lemma stored_butlast: "stored m dst line \<Longrightarrow> stored m dst (butlast line)"
  by (simp add: stored_def nth_butlast)

lemma stored_snoc:
  assumes "stored m dst line" and "length line < 2 ^ 64"
  shows "stored (m(dst + of_nat (length line) := b)) dst (line @ [b])"
proof -
  have "(of_nat i :: u64) \<noteq> of_nat (length line)" if "i < length line" for i
  proof
    assume "(of_nat i :: u64) = of_nat (length line)"
    then have "unat (of_nat i :: u64) = unat (of_nat (length line) :: u64)" by simp
    with that assms(2) show False by (simp add: unat_of_nat)
  qed
  then show ?thesis using assms(1) by (auto simp: stored_def nth_append less_Suc_eq)
qed


lemma to_int_small: "unat n < 2 ^ 31 \<Longrightarrow> to_int n = int (unat n)"
proof -
  assume n: "unat n < 2 ^ 31"
  then have "unat (ucast n :: u32) = unat n" by (simp add: unsigned_ucast_eq take_bit_nat_eq_self)
  then have "of_nat (unat (ucast n :: u32)) = (of_nat (unat n) :: u32)" by (simp only:)
  then have "(ucast n :: u32) = of_nat (unat n)" by simp
  then have "to_int n = signed_take_bit 31 (int (unat n))" by (simp only: to_int_def signed_of_nat) simp
  moreover have "signed_take_bit 31 (int k) = int k" if "k < 2 ^ 31" for k
    using that by (intro signed_take_bit_int_eq_self) simp_all
  ultimately show ?thesis using n by metis
qed

lemma line_address:
  assumes "mapped dst (unat len)" and "k < unat len"
  shows "dst + of_nat k < MAP_LIMIT" and "unat (dst + of_nat k) \<in> span dst (unat len)"
proof -
  have "unat (dst + of_nat k) = unat dst + k"
    using unat_in_image [OF assms(1), of k] assms(2) by simp
  then show "dst + of_nat k < MAP_LIMIT" "unat (dst + of_nat k) \<in> span dst (unat len)"
    using assms by (simp_all add: mapped_def word_less_nat_alt span_def)
qed

text \<open>
  The state of the loop: \<open>n\<close> bytes of the line are in the buffer. From \<open>s\<close> to \<open>t\<close> nothing was
  written but the buffer, the display and the keyboard.
\<close>

definition line_at :: "u64 \<Rightarrow> u64 \<Rightarrow> u64 \<Rightarrow> u8 list \<Rightarrow> 'z libc_scheme \<Rightarrow> bool" where
  "line_at dst len n line s \<longleftrightarrow> on_display s \<and> unat n = length line \<and> length line \<le> unat len \<and> stored (mem s) dst line"

definition wrote :: "u64 \<Rightarrow> u64 \<Rightarrow> 'z libc_scheme \<Rightarrow> 'z libc_scheme \<Rightarrow> bool" where
  "wrote dst len s t \<longleftrightarrow> (\<forall>a. unat a \<notin> span dst (unat len) \<longrightarrow> mem t a = mem s a)
     \<and> off_display t = (off_display s)\<lparr>mem := mem t\<rparr>"

lemma off_display_set_mem: "off_display (s\<lparr>mem := m\<rparr>) = (off_display s)\<lparr>mem := m\<rparr>"
  by (simp add: off_display_def)

lemma wrote_quiet: "off_display t = off_display s \<Longrightarrow> wrote dst len s t"
proof -
  assume same: "off_display t = off_display s"
  have "(off_display s)\<lparr>mem := mem s\<rparr> = off_display s" by (simp add: off_display_def)
  then show ?thesis using same off_display_mem [OF same] by (simp add: wrote_def)
qed

lemma wrote_store: "unat a \<in> span dst (unat len) \<Longrightarrow> wrote dst len s (s\<lparr>mem := (mem s)(a := b)\<rparr>)"
  by (auto simp: wrote_def off_display_set_mem)

lemma wrote_trans:
  assumes "wrote dst len s t" and "wrote dst len t u"
  shows "wrote dst len s u"
proof -
  have "(off_display t)\<lparr>mem := mem u\<rparr> = (off_display s)\<lparr>mem := mem u\<rparr>" using assms(1) by (simp add: wrote_def)
  then show ?thesis using assms by (simp add: wrote_def)
qed

lemma line_at_put:
  assumes dst: "mapped dst (unat len)" and t: "line_at dst len n line t" "length line < unat len"
  shows "store8 (dst + n) b t = Some (Ok () (t\<lparr>mem := (mem t)(dst + n := b)\<rparr>))"
    and "line_at dst len (n + 1) (line @ [b]) (t\<lparr>mem := (mem t)(dst + n := b)\<rparr>)"
    and "wrote dst len t (t\<lparr>mem := (mem t)(dst + n := b)\<rparr>)"
    and "to_int (n + 1) = int (length (line @ [b]))"
proof -
  have small: "unat len \<le> 2 ^ 27" using dst by (simp add: mapped_def MAP_LIMIT_def)
  have u: "unat n = length line" using t(1) by (simp add: line_at_def)
  then have n: "n = of_nat (length line)" by (simp flip: u)
  note adr = line_address [OF dst t(2), folded n]
  have suc: "unat (n + 1) = length (line @ [b])" using u t(2) small by (simp add: unat_word_ariths)
  show "store8 (dst + n) b t = Some (Ok () (t\<lparr>mem := (mem t)(dst + n := b)\<rparr>))"
    using adr(1) by (simp add: store8_run del: fun_upd_apply)
  have "stored ((mem t)(dst + n := b)) dst (line @ [b])"
    using stored_snoc [of "mem t" dst line b] t small by (simp add: line_at_def n del: fun_upd_apply)
  with suc t show "line_at dst len (n + 1) (line @ [b]) (t\<lparr>mem := (mem t)(dst + n := b)\<rparr>)"
    by (simp add: line_at_def on_display_mem del: fun_upd_apply)
  show "wrote dst len t (t\<lparr>mem := (mem t)(dst + n := b)\<rparr>)" by (rule wrote_store [OF adr(2)])
  show "to_int (n + 1) = int (length (line @ [b]))" using suc t(2) small by (simp add: to_int_small)
qed

lemma line_at_says:
  assumes "says on_display typed off_display vga_abs f m" and "line_at dst len n line t"
  obtains u where "m t = Some (Ok () u)" and "line_at dst len n line u" and "typed u = typed t"
    and "wrote dst len t u" and "vga_abs u = f (vga_abs t)"
proof -
  from assms(2) have "on_display t" by (simp add: line_at_def)
  from saysE [OF assms(1) this] obtain u where
    u: "m t = Some (Ok () u)" "on_display u" "typed u = typed t" "off_display u = off_display t" "vga_abs u = f (vga_abs t)" .
  have "mem u = mem t" by (rule off_display_mem [OF u(4)])
  with assms(2) u wrote_quiet [OF u(4)] show thesis by (intro that [of u]) (simp_all add: line_at_def)
qed

text \<open>
  One character: the line ends, or the loop goes on with the line that the reference goes on
  with.
\<close>

definition read_on :: "u64 \<Rightarrow> u64 \<Rightarrow> u64 \<Rightarrow> u8 list \<Rightarrow> int list \<Rightarrow> 'z libc_scheme \<Rightarrow> bool" where
  "read_on dst len n line rest s \<longleftrightarrow> (\<exists>k l u. read_line kernel_kst dst n len s = read_line kernel_kst dst k len u
     \<and> cooked (unat len) line (typed s) = cooked (unat len) l rest
     \<and> line_at dst len k l u \<and> typed u = rest \<and> wrote dst len s u
     \<and> fold term_put (cooked_echo (unat len) line (typed s)) (vga_abs s) = fold term_put (cooked_echo (unat len) l rest) (vga_abs u))"

definition read_done :: "u64 \<Rightarrow> u64 \<Rightarrow> u64 \<Rightarrow> u8 list \<Rightarrow> int list \<Rightarrow> 'z libc_scheme \<Rightarrow> bool" where
  "read_done dst len n line chars s \<longleftrightarrow> (\<exists>l rest u. read_line kernel_kst dst n len s = Some (Ok (int (length l)) u)
     \<and> cooked (unat len) line chars = Some (l, rest)
     \<and> on_display u \<and> typed u = rest \<and> stored (mem u) dst l \<and> length l \<le> unat len \<and> wrote dst len s u
     \<and> vga_abs u = fold term_put (cooked_echo (unat len) line chars) (vga_abs s))"

text \<open>What \<open>read_line\<close> does with a character, and the state behind reading it.\<close>

definition after_char :: "u64 \<Rightarrow> u64 \<Rightarrow> u64 \<Rightarrow> int \<Rightarrow> (int, 'z libc_scheme) prog" where
  "after_char dst n len c = (
     if c = 0x0D \<or> c = 0x0A then
       bind (con_putchar kernel_kst 0x0A) (\<lambda>_. bind (store8 (dst + n) 0x0A) (\<lambda>_. ret (to_int (n + 1))))
     else if c = 0x08 \<or> c = 0x7F then
       (if n > 0 then bind (con_print kernel_kst (Lit [0x08, 0x20, 0x08])) (\<lambda>_. read_line kernel_kst dst (n - 1) len)
        else read_line kernel_kst dst n len)
     else if c \<ge> 0x20 then
       bind (store8 (dst + n) (word_of_int c)) (\<lambda>_.
       bind (con_putchar kernel_kst (word_of_int c)) (\<lambda>_. read_line kernel_kst dst (n + 1) len))
     else read_line kernel_kst dst n len)"

definition char_read :: "u64 \<Rightarrow> u64 \<Rightarrow> u64 \<Rightarrow> u8 list \<Rightarrow> int \<Rightarrow> 'z libc_scheme \<Rightarrow> 'z libc_scheme \<Rightarrow> bool" where
  "char_read dst len n line c s t \<longleftrightarrow> mapped dst (unat len) \<and> length line < unat len \<and> unat n = length line
     \<and> line_at dst len n line t \<and> typed s = c # typed t \<and> wrote dst len s t \<and> vga_abs t = vga_abs s
     \<and> read_line kernel_kst dst n len s = after_char dst n len c t"

lemma read_line_step:
  fixes s :: "'z libc_scheme"
  assumes "mapped dst (unat len)" and s: "line_at dst len n line s" "length line < unat len" and c: "typed s = c # rest"
  obtains t where "char_read dst len n line c s t"
proof -
  have disp: "on_display s" and n: "n < len" "unat n = length line" using s by (simp_all add: line_at_def word_less_nat_alt)
  from display.getchar_pending [OF disp] c obtain t where
    get: "con_getchar kernel_kst s = Some (Ok c t)" and same: "off_display t = off_display s"
      and t: "on_display t" "typed t = rest" "vga_abs t = vga_abs s" by auto
  have at: "line_at dst len n line t" using s(1) t(1) off_display_mem [OF same] by (simp add: line_at_def)
  have pos: "0 < c" "c < 256" using display.pending_byte [OF disp, of c] c by simp_all
  have "read_line kernel_kst dst n len s = after_char dst n len c t"
    unfolding after_char_def using n(1) pos get by (subst read_line.simps) (simp add: bind_run)
  with assms at t n(2) wrote_quiet [OF same] show thesis by (intro that [of t]) (simp add: char_read_def)
qed

lemma char_read_ref:
  assumes "char_read dst len n line c s t"
  shows "cooked (unat len) line (typed s) = cooked (unat len) line (c # typed t)"
    and "cooked_echo (unat len) line (typed s) = cooked_echo (unat len) line (c # typed t)"
    and "read_line kernel_kst dst n len s = after_char dst n len c t"
    and "length line < unat len" and "unat n = length line" and "mapped dst (unat len)"
    and "line_at dst len n line t" and "wrote dst len s t" and "vga_abs t = vga_abs s"
  using assms by (simp_all add: char_read_def)

lemma read_line_newline:
  assumes r: "char_read dst len n line c s t" and c: "c = 0x0D \<or> c = 0x0A"
  shows "read_done dst len n line (typed s) s"
proof -
  note t = char_read_ref [OF r]
  from line_at_says [OF display.putchar_says t(7), of "0x0A"] obtain u where
    u: "con_putchar kernel_kst 0x0A t = Some (Ok () u)" "line_at dst len n line u" "typed u = typed t" "wrote dst len t u"
      "vga_abs u = term_put 0x0A (vga_abs t)" .
  note put = line_at_put [OF t(6) u(2) t(4), of "0x0A"]
  have "read_line kernel_kst dst n len s = Some (Ok (int (length (line @ [0x0A]))) (u\<lparr>mem := (mem u)(dst + n := 0x0A)\<rparr>))"
    unfolding t(3) after_char_def using c u(1) put(1,4) by (simp add: bind_run ret_run del: fun_upd_apply)
  moreover have "cooked (unat len) line (typed s) = Some (line @ [0x0A], typed t)"
    "cooked_echo (unat len) line (typed s) = [0x0A]"
    using c t(4) unfolding t(1,2) by (simp_all add: cooked.simps [of _ line "c # _"] cooked_echo.simps [of _ line "c # _"])
  ultimately show ?thesis using put(2) wrote_trans [OF t(8) wrote_trans [OF u(4) put(3)]] u(3,5) t(9)
    unfolding read_done_def line_at_def by (fastforce simp: vga_abs_def)
qed

lemma read_line_rub:
  assumes r: "char_read dst len n line c s t" and c: "c = 0x08 \<or> c = 0x7F" "n > 0"
  shows "read_on dst len n line (typed t) s"
proof -
  note t = char_read_ref [OF r]
  from line_at_says [OF display.print_says t(7), of "[0x08, 0x20, 0x08]"] obtain u where
    u: "con_print kernel_kst (Lit [0x08, 0x20, 0x08]) t = Some (Ok () u)" "line_at dst len n line u" "typed u = typed t"
      "wrote dst len t u" "vga_abs u = fold term_put (c_string [0x08, 0x20, 0x08]) (vga_abs t)" .
  have "read_line kernel_kst dst n len s = read_line kernel_kst dst (n - 1) len u"
    unfolding t(3) after_char_def using c u(1) by (auto simp: bind_run)
  moreover have "line \<noteq> []" using c(2) t(5) by (auto simp: word_less_nat_alt)
  then have "cooked (unat len) line (typed s) = cooked (unat len) (butlast line) (typed t)"
    "cooked_echo (unat len) line (typed s) = [0x08, 0x20, 0x08] @ cooked_echo (unat len) (butlast line) (typed t)"
    using c t(4) unfolding t(1,2) by (auto simp: cooked.simps [of _ line "_ # _"] cooked_echo.simps [of _ line "_ # _"])
  moreover have "line_at dst len (n - 1) (butlast line) u"
    using u(2) c(2) by (auto simp: line_at_def unat_minus_one stored_butlast)
  ultimately show ?thesis using u(3,5) t(9) wrote_trans [OF t(8) u(4)] unfolding read_on_def
    by (intro exI [of _ "n - 1"] exI [of _ "butlast line"] exI [of _ u]) (simp add: c_string_def)
qed

lemma read_line_put:
  assumes r: "char_read dst len n line c s t" and c: "c \<noteq> 0x7F" "c \<ge> 0x20"
  shows "read_on dst len n line (typed t) s"
proof -
  note t = char_read_ref [OF r]
  let ?t = "t\<lparr>mem := (mem t)(dst + n := word_of_int c)\<rparr>"
  note st = line_at_put [OF t(6,7,4), of "word_of_int c"]
  from line_at_says [OF display.putchar_says st(2), of "word_of_int c"] obtain u where
    u: "con_putchar kernel_kst (word_of_int c) ?t = Some (Ok () u)" "line_at dst len (n + 1) (line @ [word_of_int c]) u"
      "typed u = typed ?t" "wrote dst len ?t u" "vga_abs u = term_put (word_of_int c) (vga_abs ?t)" .
  have "read_line kernel_kst dst n len s = read_line kernel_kst dst (n + 1) len u"
    unfolding t(3) after_char_def using c st(1) u(1) by (simp add: bind_run)
  moreover have "cooked (unat len) line (typed s) = cooked (unat len) (line @ [word_of_int c]) (typed t)"
    "cooked_echo (unat len) line (typed s) = word_of_int c # cooked_echo (unat len) (line @ [word_of_int c]) (typed t)"
    using c t(4) unfolding t(1,2) by (simp_all add: cooked.simps [of _ line "_ # _"] cooked_echo.simps [of _ line "_ # _"])
  moreover have "typed u = typed t" "vga_abs u = term_put (word_of_int c) (vga_abs s)"
    using u(3,5) t(9) by (simp_all add: vga_abs_def del: fun_upd_apply)
  ultimately show ?thesis using u(2) wrote_trans [OF t(8) wrote_trans [OF st(3) u(4)]] unfolding read_on_def
    by (intro exI [of _ "n + 1"] exI [of _ "line @ [word_of_int c]"] exI [of _ u]) simp
qed

lemma read_line_ignored:
  assumes r: "char_read dst len n line c s t"
    and c: "(c = 0x08 \<or> c = 0x7F) \<and> n = 0 \<or> c \<notin> {0x0D, 0x0A, 0x08, 0x7F} \<and> \<not> c \<ge> 0x20"
  shows "read_on dst len n line (typed t) s"
proof -
  note t = char_read_ref [OF r]
  have line: "n = 0 \<Longrightarrow> line = []" using t(5) by simp
  have "read_line kernel_kst dst n len s = read_line kernel_kst dst n len t" unfolding t(3) after_char_def using c by auto
  moreover have "cooked (unat len) line (typed s) = cooked (unat len) line (typed t)"
    "cooked_echo (unat len) line (typed s) = cooked_echo (unat len) line (typed t)"
    using c line t(4) unfolding t(1,2)
    by (auto simp: cooked.simps [of _ line "_ # _"] cooked_echo.simps [of _ line "_ # _"])
  ultimately show ?thesis using t(7-9) unfolding read_on_def by metis
qed

lemma read_line_char:
  fixes s :: "'z libc_scheme"
  assumes "mapped dst (unat len)" and "line_at dst len n line s" and "length line < unat len" and c: "typed s = c # rest"
  shows "read_on dst len n line rest s \<or> read_done dst len n line (typed s) s"
proof -
  from read_line_step [OF assms] obtain t where r: "char_read dst len n line c s t" .
  then have "typed t = rest" using c by (simp add: char_read_def)
  moreover have "n > 0 \<or> n = 0" using word_neq_0_conv [of n] by blast
  ultimately show ?thesis
    using read_line_newline [OF r] read_line_rub [OF r] read_line_put [OF r] read_line_ignored [OF r] by blast
qed

lemma read_line_run:
  fixes s :: "'z libc_scheme"
  assumes dst: "mapped dst (unat len)" and "line_at dst len n line s"
  shows "case cooked (unat len) line (typed s) of
      None \<Rightarrow> \<exists>t. read_line kernel_kst dst n len s = Some (Wait t) \<and> wrote dst len s t
        \<and> vga_abs t = fold term_put (cooked_echo (unat len) line (typed s)) (vga_abs s)
    | Some (l, rest) \<Rightarrow> \<exists>t. read_line kernel_kst dst n len s = Some (Ok (int (length l)) t)
        \<and> on_display t \<and> typed t = rest \<and> stored (mem t) dst l \<and> length l \<le> unat len \<and> wrote dst len s t
        \<and> vga_abs t = fold term_put (cooked_echo (unat len) line (typed s)) (vga_abs s)"
  using assms(2)
proof (induction "length (typed s)" arbitrary: s n line rule: less_induct)
  case less
  then have s: "on_display s" "n < len \<longleftrightarrow> length line < unat len" by (simp_all add: line_at_def word_less_nat_alt)
  show ?case
  proof (cases "length line < unat len")
    case False
    with less.prems have full: "length line = unat len" "unat n = unat len" "unat len < 2 ^ 31"
      using dst by (simp_all add: line_at_def mapped_def MAP_LIMIT_def)
    then have "read_line kernel_kst dst n len s = Some (Ok (int (length line)) s)"
      using False s(2) by (subst read_line.simps) (simp add: ret_run to_int_small)
    with False less.prems wrote_quiet [OF refl, of dst len s] show ?thesis
      by (simp add: cooked.simps [of _ line] cooked_echo.simps [of _ line] line_at_def)
  next
    case True
    show ?thesis
    proof (cases "typed s")
      case Nil
      with display.getchar_pending [OF s(1)] obtain t where
        t: "con_getchar kernel_kst s = Some (Wait t)" "off_display t = off_display s" "vga_abs t = vga_abs s" by auto
      then have "read_line kernel_kst dst n len s = Some (Wait t)"
        using True s(2) by (subst read_line.simps) (simp add: bind_run)
      with Nil True t(3) wrote_quiet [OF t(2)] show ?thesis by (simp add: cooked.simps [of _ line] cooked_echo.simps [of _ line])
    next
      case (Cons c rest)
      from read_line_char [OF dst less.prems True Cons] show ?thesis
      proof
        assume "read_done dst len n line (typed s) s"
        then show ?thesis by (auto simp: read_done_def)
      next
        assume "read_on dst len n line rest s"
        then obtain k l u where u: "read_line kernel_kst dst n len s = read_line kernel_kst dst k len u"
          "cooked (unat len) line (typed s) = cooked (unat len) l rest"
          "fold term_put (cooked_echo (unat len) line (typed s)) (vga_abs s) = fold term_put (cooked_echo (unat len) l rest) (vga_abs u)"
          "line_at dst len k l u" "typed u = rest" "wrote dst len s u" by (auto simp: read_on_def)
        from less.hyps [OF _ u(4)] u(5) Cons show ?thesis
          unfolding u(1-3) by (auto split: option.splits dest: wrote_trans [OF u(6)])
      qed
    qed
  qed
qed


section \<open>Results and errors\<close>

text \<open>\<open>fails e m\<close>: the hook does nothing but set \<open>errno\<close> and return \<open>-1\<close>.\<close>

definition fails :: "error_code \<Rightarrow> (int, 'z libc_scheme) prog \<Rightarrow> bool" where
  "fails e m \<longleftrightarrow> (\<forall>s. m s = Some (Ok (- 1) (s\<lparr>errno := Some e\<rparr>)))"

lemma fails_fail_with: "fails e (fail_with e (- 1))"
  by (simp add: fails_def fail_with_def bind_run modify_run ret_run)

lemmas hook_defs = write_fd_def read_fd_def open_fd_def close_fd_def lseek_def fstat_def

text \<open>Without the table every call that needs the kernel fails with \<open>ENOSYS\<close>.\<close>

lemma hooks_without_table:
  "fails ENOSYS (write_fd None fd buf len)" "fails ENOSYS (read_fd None fd buf len)"
  "fails ENOSYS (open_fd None path flags mode)" "fails ENOSYS (close_fd None fd)"
  "fails ENOSYS (lseek None fd offset whence)" "fails ENOSYS (fstat None fd st)"
  by (simp_all add: hook_defs fails_fail_with)

text \<open>With the kernel's table: there are no files, and only the standard streams.\<close>

lemma hooks_without_files:
  "fails ENOENT (open_fd (Some kernel_kst) path flags mode)" "fails EBADF (close_fd (Some kernel_kst) fd)"
  "fails ESPIPE (lseek (Some kernel_kst) fd offset whence)"
  "fd \<noteq> 1 \<Longrightarrow> fd \<noteq> 2 \<Longrightarrow> fails EIO (write_fd (Some kernel_kst) fd buf len)"
  "fd \<noteq> 0 \<Longrightarrow> fails EBADF (read_fd (Some kernel_kst) fd buf len)"
  by (simp_all add: hook_defs kst_open_def kst_close_def kst_lseek_def kst_write_def kst_read_def fails_fail_with)

text \<open>The standard output: the bytes of the buffer go to the console in order.\<close>

lemma kst_write_run:
  assumes "mapped buf (unat len)" and "fd = 1 \<or> fd = 2"
  shows "kst_write fd buf len s = bind (for_each (map (\<lambda>i. mem s (buf + of_nat i)) [0..<unat len]) hal_console_putchar)
    (\<lambda>_. ret (int (unat len))) s"
proof -
  have small: "unat len < 2 ^ 31" using assms(1) by (simp add: mapped_def MAP_LIMIT_def)
  have "for_each is (\<lambda>i. bind (load8 (buf + of_nat i)) hal_console_putchar) u
      = for_each is (\<lambda>i. hal_console_putchar (m (buf + of_nat i))) u"
    if "set is \<subseteq> {0..<unat len}" "mem u = m" for "is" m and u :: "'a kernel_scheme"
    using that
  proof (induction "is" arbitrary: u)
    case (Cons i "is")
    have "buf + of_nat i < MAP_LIMIT" by (rule line_address [OF assms(1)]) (use Cons.prems in simp)
    then have here: "bind (load8 (buf + of_nat i)) hal_console_putchar u = hal_console_putchar (m (buf + of_nat i)) u"
      using Cons.prems(2) by (simp add: bind_run load8_run)
    have "for_each is (\<lambda>i. bind (load8 (buf + of_nat i)) hal_console_putchar) v
        = for_each is (\<lambda>i. hal_console_putchar (m (buf + of_nat i))) v"
      if v: "bind (load8 (buf + of_nat i)) hal_console_putchar u = Some (Ok a v)" for a v
    proof (rule Cons.IH)
      show "mem v = m"
        using unchanged_OkD [OF unchanged_hal_console_putchar [OF con_local_print [OF con_local_basic(1)]] v [unfolded here]] Cons.prems(2) by simp
    qed (use Cons.prems in simp)
    with here show ?case unfolding for_each.simps by (rule bind_cong_at)
  qed simp
  from this [of "[0..<unat len]" s "mem s"] show ?thesis
    using assms(2) small
    by (simp add: kst_write_def for_word_for_each for_each_map comp_def to_int_small bind_run)
qed

text \<open>A positive \<open>sbrk\<close> that the heap cannot hold fails with \<open>ENOMEM\<close>.\<close>

lemma sbrk_full:
  assumes "heap_inv s" and "0 < sint incr" and "unat (heap_limit s) < unat (heap_cur s) + unat incr"
  shows "sbrk (Some kernel_kst) incr s = Some (Ok (- 1) (s\<lparr>errno := Some ENOMEM\<rparr>))"
  using heap_sbrk_full [OF assms]
  by (simp add: sbrk_def fail_with_def bind_run modify_run ret_run)

text \<open>A program that exits or aborts does not come back.\<close>

lemma exit_no_return:
  "exit_program kst status s \<noteq> Some (Ok () t)" "kill (Some kernel_kst) pid 6 s \<noteq> Some (Ok r t)"
  by (auto simp: exit_program_def kill_def bind_run halt_run hal_panic_no_return split: option.splits outcome.splits)

end
