(* ===== verification/Load_Command.thy ===== *)
theory Load_Command imports Shell_Loop Screen begin

text \<open>
  The command \<open>load\<close> of the shell from end to end, on the display: the transfer over COM2, the
  loader, the run of the program and the report. Every state is described by what the screen
  shows and by what the command changed beside it.
\<close>

section \<open>The parts of the command\<close>

definition waiting_text :: "u8 list" where
  "waiting_text = lit ''Waiting for ELF on COM2 (KELF protocol)...'' @ [0x0A]"

definition transfer_error_text :: "u8 list" where
  "transfer_error_text = lit ''Transfer error: bad magic, size out of range, or OOM.'' @ [0x0A]"

definition received_text :: "nat \<Rightarrow> u8 list" where
  "received_text n = lit ''Received '' @ dec_str n @ lit '' bytes. Loading ELF...'' @ [0x0A]"

definition load_failed_text :: "u8 list" where
  "load_failed_text = lit ''ELF load failed: invalid or unsupported binary.'' @ [0x0A]"

text \<open>The routine that prints a number puts a \<open>0x\<close> of its own before the digits.\<close>

definition entry_text :: "u64 \<Rightarrow> u8 list" where
  "entry_text entry = lit ''Entry at 0x'' @ (lit ''0x'' @ hex_buf 16 entry) @ lit ''. Running...'' @ [0x0A]"

definition finished_text :: "u8 list" where
  "finished_text = lit ''Program finished.'' @ [0x0A]"

definition error_code_text :: "u64 \<Rightarrow> u8 list" where
  "error_code_text err = (if err \<noteq> 0 then lit ''  ERR=0x'' @ lit ''0x'' @ hex_buf 16 err else [])"

definition exception_text :: "u64 \<Rightarrow> u64 \<Rightarrow> u64 \<Rightarrow> u8 list" where
  "exception_text vec ip err = (0x0A # lit ''Exception: '') @ lit (exc_name vec) @ (0x0A # lit ''  RIP=0x'')
     @ (lit ''0x'' @ hex_buf 16 ip) @ error_code_text err @ [0x0A]"

text \<open>The report of an exception, and the command from the loader on with its last step.\<close>

definition exception_lines :: "'s kst \<Rightarrow> u64 \<Rightarrow> u64 \<Rightarrow> u64 \<Rightarrow> (unit, 's) prog" where
  "exception_lines kst vec ip err = seq [
     con_print kst (Lit (0x0A # lit ''Exception: '')),
     con_print kst (str (exc_name vec)),
     con_print kst (Lit (0x0A # lit ''  RIP=0x'')),
     con_print_hex kst ip,
     (if err \<noteq> 0 then seq [con_print kst (str ''  ERR=0x''), con_print_hex kst err] else skip),
     con_putchar kst 0x0A]"

lemma print_exception_lines:
  "print_exception kst s = exception_lines kst (exc_vec s) (exc_rip s) (exc_err s) s"
  unfolding print_exception_def exception_lines_def bind_run gets_run option.case outcome.case prod.case by (rule refl)

definition load_report :: "'z shell_scheme kst \<Rightarrow> (unit, 'z shell_scheme) prog" where
  "load_report kst = branch exc_caught (print_exception kst) (con_print kst (Lit finished_text))"

definition load_image :: "'z shell_scheme kst \<Rightarrow> (u64 \<Rightarrow> (run_end, 'z shell_scheme) prog) \<Rightarrow> u64 \<Rightarrow> u64
    \<Rightarrow> u64 \<Rightarrow> u32 \<Rightarrow> (unit, 'z shell_scheme) prog" where
  "load_image kst run hook sp buf sz = bind (sys_elf_load kst buf (ucast sz)) (\<lambda>entry.
     if entry = 0 then con_print kst (Lit load_failed_text)
     else bind (seq [con_print kst (str ''Entry at 0x''), con_print_hex kst entry,
         con_print kst (Lit (lit ''. Running...'' @ [0x0A]))])
       (\<lambda>_. bind (elf_exec kst run hook sp entry) (\<lambda>_. load_report kst)))"

lemma cmd_load_parts:
  "cmd_load kst run hook sp = bind (con_print kst (Lit waiting_text)) (\<lambda>_.
     bind (transfer_recv_elf kst) (\<lambda>r. case r of
       None \<Rightarrow> con_print kst (Lit transfer_error_text)
     | Some (buf, sz) \<Rightarrow> bind (seq [con_print kst (str ''Received ''), con_print_dec kst (ucast sz),
           con_print kst (Lit (lit '' bytes. Loading ELF...'' @ [0x0A]))])
         (\<lambda>_. load_image kst run hook sp buf sz)))"
  by (simp add: cmd_load_def load_image_def load_report_def waiting_text_def transfer_error_text_def
      load_failed_text_def finished_text_def bind_assoc del: lit_Cons cong: option.case_cong prod.case_cong if_cong)

section \<open>What the parts show\<close>

lemma exc_name_no_zero: "0 \<notin> set (lit (exc_name v))"
proof (cases "v < 32")
  case True
  have all: "\<forall>w\<in>set exc_names. 0 \<notin> set (lit w)" by (simp add: exc_names_def)
  have "unat v < length exc_names" using True by (simp add: word_less_nat_alt exc_names_def)
  with all True show ?thesis by (simp add: exc_name_def)
qed (simp add: exc_name_def)

lemma shows_waiting: "shows_text waiting_text (con_print kernel_kst (Lit waiting_text))"
  by (rule shows_kst(1)) (simp add: waiting_text_def)

lemma shows_transfer_error: "shows_text transfer_error_text (con_print kernel_kst (Lit transfer_error_text))"
  by (rule shows_kst(1)) (simp add: transfer_error_text_def)

lemma shows_load_failed: "shows_text load_failed_text (con_print kernel_kst (Lit load_failed_text))"
  by (rule shows_kst(1)) (simp add: load_failed_text_def)

lemma shows_finished: "shows_text finished_text (con_print kernel_kst (Lit finished_text))"
  by (rule shows_kst(1)) (simp add: finished_text_def)

lemma shows_received:
  assumes "unat sz < 10 ^ 19"
  shows "shows_text (received_text (unat sz)) (seq [con_print kernel_kst (str ''Received ''), con_print_dec kernel_kst sz,
    con_print kernel_kst (Lit (lit '' bytes. Loading ELF...'' @ [0x0A]))])"
proof -
  have "shows_text (lit ''Received '' @ dec_str (unat sz) @ (lit '' bytes. Loading ELF...'' @ [0x0A]) @ [])
    (seq [con_print kernel_kst (str ''Received ''), con_print_dec kernel_kst sz,
      con_print kernel_kst (Lit (lit '' bytes. Loading ELF...'' @ [0x0A]))])"
    by (intro shows_intros assms) simp_all
  then show ?thesis by (simp add: received_text_def)
qed

lemma shows_entry: "shows_text (entry_text entry) (seq [con_print kernel_kst (str ''Entry at 0x''), con_print_hex kernel_kst entry,
  con_print kernel_kst (Lit (lit ''. Running...'' @ [0x0A]))])"
proof -
  have "shows_text (lit ''Entry at 0x'' @ (lit ''0x'' @ hex_buf 16 entry) @ (lit ''. Running...'' @ [0x0A]) @ [])
    (seq [con_print kernel_kst (str ''Entry at 0x''), con_print_hex kernel_kst entry,
      con_print kernel_kst (Lit (lit ''. Running...'' @ [0x0A]))])"
    by (intro shows_intros) simp_all
  then show ?thesis by (simp add: entry_text_def)
qed

lemma shows_error_code:
  "shows_text (error_code_text err) (if err \<noteq> 0 then seq [con_print kernel_kst (str ''  ERR=0x''), con_print_hex kernel_kst err] else skip)"
proof -
  have "shows_text (lit ''  ERR=0x'' @ (lit ''0x'' @ hex_buf 16 err) @ [])
    (seq [con_print kernel_kst (str ''  ERR=0x''), con_print_hex kernel_kst err])"
    by (intro shows_intros) simp_all
  then show ?thesis unfolding error_code_text_def by (intro shows_if shows_skip) (simp only: append_Nil2)
qed

lemma shows_exception: "shows_text (exception_text vec ip err) (exception_lines kernel_kst vec ip err)"
proof -
  have "shows_text ((0x0A # lit ''Exception: '') @ lit (exc_name vec) @ (0x0A # lit ''  RIP=0x'')
     @ (lit ''0x'' @ hex_buf 16 ip) @ error_code_text err @ [0x0A] @ []) (exception_lines kernel_kst vec ip err)"
    unfolding exception_lines_def by (intro shows_intros shows_error_code exc_name_no_zero) simp_all
  then show ?thesis by (simp only: exception_text_def append_Nil2)
qed

text \<open>The report decides by the mark that the return through \<open>exc_restore\<close> sets.\<close>

lemma load_report_run:
  assumes "on_display s"
  shows "\<exists>t. load_report kernel_kst s = Some (Ok () t)
    \<and> shown (if exc_caught s then exception_text (exc_vec s) (exc_rip s) (exc_err s) else finished_text) s t"
proof (cases "exc_caught s")
  case True
  then have "load_report kernel_kst s = exception_lines kernel_kst (exc_vec s) (exc_rip s) (exc_err s) s"
    by (simp only: load_report_def branch_run print_exception_lines if_True)
  with shows_textE [OF shows_exception assms] True show ?thesis by metis
next
  case False
  with shows_textE [OF shows_finished assms] show ?thesis by (auto simp: load_report_def branch_run)
qed

section \<open>The command\<close>

lemma load_image_refused:
  fixes u :: "'z shell_scheme"
  assumes "sys_elf_load kernel_kst buf (ucast sz) s = Some (Ok 0 u)" and "on_display u"
  shows "\<exists>t. load_image kernel_kst run hook sp buf sz s = Some (Ok () t) \<and> shown load_failed_text u t"
proof -
  have "load_image kernel_kst run hook sp buf sz s = con_print kernel_kst (Lit load_failed_text) u"
    by (simp only: load_image_def bind_run [of "sys_elf_load _ _ _"] assms(1) option.case outcome.case simp_thms if_True)
  with shows_textE [OF shows_load_failed assms(2)] show ?thesis by metis
qed

lemma load_image_run:
  fixes u :: "'z shell_scheme"
  assumes "sys_elf_load kernel_kst buf (ucast sz) s = Some (Ok entry u)" and "entry \<noteq> 0" and "on_display u"
  shows "\<exists>t. shown (entry_text entry) u t
    \<and> load_image kernel_kst run hook sp buf sz s = bind (elf_exec kernel_kst run hook sp entry) (\<lambda>_. load_report kernel_kst) t"
proof -
  from shows_textE [OF shows_entry assms(3)] obtain t where
    t: "seq [con_print kernel_kst (str ''Entry at 0x''), con_print_hex kernel_kst entry,
      con_print kernel_kst (Lit (lit ''. Running...'' @ [0x0A]))] u = Some (Ok () t)" "shown (entry_text entry) u t" .
  have "load_image kernel_kst run hook sp buf sz s = bind (elf_exec kernel_kst run hook sp entry) (\<lambda>_. load_report kernel_kst) t"
    using assms(2) by (simp only: load_image_def bind_run [of "sys_elf_load _ _ _"] bind_run [of "seq _"] assms(1) t(1) option.case outcome.case if_False)
  with t(2) show ?thesis by blast
qed

text \<open>The state after the file came in, but for the screen.\<close>

lemma received_fields [simp]:
  "mem (received content p s) = written (mem s) (heap_cur s) content"
  "heap_cur (received content p s) = heap_cur s + of_nat (length content)"
  "port_in (received content p s) = p"
  "heap_limit (received content p s) = heap_limit s"
  "heap_base (received content p s) = heap_base s"
  "vga_abs (received content p s) = vga_abs s"
  "on_display (received content p s) = on_display s"
  by (simp_all add: received_def vga_abs_def on_display_def vga_inv_def)

lemma typed_took:
  assumes "took k (port_in s) p"
  shows "typed (s\<lparr>port_in := p\<rparr>) = typed s" "typed (received content p s) = typed s"
proof -
  have "KBD_STATUS \<noteq> COM2" "KBD_STATUS \<noteq> COM2 + 5" "KBD_DATA \<noteq> COM2" "KBD_DATA \<noteq> COM2 + 5"
    by (simp_all add: KBD_STATUS_def KBD_DATA_def COM2_def)
  with assms have "p KBD_STATUS = port_in s KBD_STATUS" "p KBD_DATA = port_in s KBD_DATA"
    by (simp_all add: took_def)
  then show "typed (s\<lparr>port_in := p\<rparr>) = typed s" "typed (received content p s) = typed s"
    by (simp_all add: typed_def kbd_flags_def available_def n_full_def received_def)
qed

text \<open>The two ends of a transfer, with what is printed after it.\<close>

lemma rejected_printed:
  fixes s :: "'z shell_scheme"
  assumes a: "shown waiting_text s a" and u: "u = a\<lparr>port_out := out, com2_initialized := True\<rparr>"
    and p: "took k (port_in a) p"
  obtains t where "con_print kernel_kst (Lit transfer_error_text) (u\<lparr>port_in := p\<rparr>) = Some (Ok () t)"
    and "on_display t" "typed t = typed s" "mem t = mem s" "heap_cur t = heap_cur s"
    and "vga_abs t = fold term_put (waiting_text @ transfer_error_text) (vga_abs s)"
proof -
  let ?v = "u\<lparr>port_in := p\<rparr>"
  have "typed a = typed s" "mem a = mem s" "heap_cur a = heap_cur s"
    by - (rule shown_local [OF a]; (rule typed_local | simp add: vga_local_def))+
  then have v: "on_display ?v" "vga_abs ?v = vga_abs a" "typed ?v = typed s" "mem ?v = mem s" "heap_cur ?v = heap_cur s"
    using a typed_took(1) [OF p]
    by (auto simp: u shown_def on_display_def vga_inv_def vga_abs_def typed_def kbd_flags_def available_def n_full_def)
  from shows_textE [OF shows_transfer_error v(1)] obtain t where
    t: "con_print kernel_kst (Lit transfer_error_text) ?v = Some (Ok () t)" "shown transfer_error_text ?v t" .
  have "typed t = typed ?v" "mem t = mem ?v" "heap_cur t = heap_cur ?v"
    by - (rule shown_local [OF t(2)]; (rule typed_local | simp add: vga_local_def))+
  with t v a that show thesis by (simp add: shown_def)
qed

lemma received_printed:
  fixes s :: "'z shell_scheme"
  assumes a: "shown waiting_text s a" and u: "u = a\<lparr>port_out := out, com2_initialized := True\<rparr>"
    and p: "took (8 + length content) (port_in a) p" and n: "length content \<le> 2 * 1024 * 1024"
  obtains t where "seq [con_print kernel_kst (str ''Received ''), con_print_dec kernel_kst (ucast (of_nat (length content) :: u32)),
      con_print kernel_kst (Lit (lit '' bytes. Loading ELF...'' @ [0x0A]))] (received content p u) = Some (Ok () t)"
    and "on_display t" "typed t = typed s" "com2_bytes t = drop (8 + length content) (com2_bytes s)"
    and "mem t = written (mem s) (heap_cur s) content" "heap_cur t = heap_cur s + of_nat (length content)" "resident t = resident s"
    and "vga_abs t = fold term_put (waiting_text @ received_text (length content)) (vga_abs s)"
proof -
  let ?v = "received content p u" and ?n = "length content"
  have "typed a = typed s" "mem a = mem s" "heap_cur a = heap_cur s" "com2_bytes a = com2_bytes s" "resident a = resident s"
    by - (rule shown_local [OF a]; (rule typed_local | simp add: vga_local_def com2_bytes_def))+
  then have v: "on_display ?v" "vga_abs ?v = vga_abs a" "typed ?v = typed s" "mem ?v = written (mem s) (heap_cur s) content"
    "heap_cur ?v = heap_cur s + of_nat ?n" "com2_bytes ?v = drop (8 + ?n) (com2_bytes s)" "resident ?v = resident s"
    using a typed_took(2) [OF p, of content] p
    by (auto simp: u shown_def on_display_def vga_inv_def vga_abs_def typed_def kbd_flags_def available_def n_full_def
        received_def com2_bytes_def took_def)
  have m: "unat (ucast (of_nat ?n :: u32) :: u64) = ?n" using n by (simp add: unat_ucast_up unat_of_nat)
  moreover have "?n < 10 ^ 19" using n by simp
  ultimately obtain t where
    t: "seq [con_print kernel_kst (str ''Received ''), con_print_dec kernel_kst (ucast (of_nat ?n :: u32)),
      con_print kernel_kst (Lit (lit '' bytes. Loading ELF...'' @ [0x0A]))] ?v = Some (Ok () t)"
    "shown (received_text ?n) ?v t" using shows_textE [OF shows_received v(1)] by metis
  have "typed t = typed ?v" "mem t = mem ?v" "heap_cur t = heap_cur ?v" "com2_bytes t = com2_bytes ?v" "resident t = resident ?v"
    by - (rule shown_local [OF t(2)]; (rule typed_local | simp add: vga_local_def com2_bytes_def))+
  with t(2) v a have "on_display t" "typed t = typed s" "com2_bytes t = drop (8 + ?n) (com2_bytes s)"
    "mem t = written (mem s) (heap_cur s) content" "heap_cur t = heap_cur s + of_nat ?n" "resident t = resident s"
    "vga_abs t = fold term_put (waiting_text @ received_text ?n) (vga_abs s)" by (simp_all add: shown_def)
  with t(1) show thesis by (rule that)
qed

text \<open>The first message, and the transfer in the state after it.\<close>

lemma load_transfer:
  fixes s :: "'z shell_scheme"
  assumes s: "on_display s" and heap: "heap_inv s" and low: "unat (heap_limit s) \<le> unat MAP_LIMIT"
  obtains a u out where "con_print kernel_kst (Lit waiting_text) s = Some (Ok () a)" and "shown waiting_text s a"
    and "u = a\<lparr>port_out := out, com2_initialized := True\<rparr>"
    and "case kelf_receive (heap_room_left s) (com2_bytes s) of
      None \<Rightarrow> \<exists>t. transfer_recv_elf kernel_kst a = Some (Wait t)
    | Some None \<Rightarrow> \<exists>k p. took k (port_in a) p \<and> transfer_recv_elf kernel_kst a = Some (Ok None (u\<lparr>port_in := p\<rparr>))
    | Some (Some content) \<Rightarrow> \<exists>p. took (8 + length content) (port_in a) p
        \<and> transfer_recv_elf kernel_kst a = Some (Ok (Some (heap_cur s, of_nat (length content))) (received content p u))"
proof -
  from shows_textE [OF shows_waiting s] obtain a where
    a: "con_print kernel_kst (Lit waiting_text) s = Some (Ok () a)" "shown waiting_text s a" .
  have keep: "heap_inv a = heap_inv s" "heap_limit a = heap_limit s" "heap_cur a = heap_cur s" "typed a = typed s"
    "com2_bytes a = com2_bytes s" "mem a = mem s" "heap_room_left a = heap_room_left s"
    by - (rule shown_local [OF a(2)]; (rule typed_local | simp add: vga_local_def heap_inv_def com2_bytes_def heap_room_left_def))+
  note heap_a = heap [folded keep(1)] low [folded keep(2)]
  from transfer_recv_elf_run [OF heap_a] obtain u where u: "\<exists>out. u = a\<lparr>port_out := out, com2_initialized := True\<rparr>"
    and run: "case kelf_receive (heap_room_left a) (com2_bytes a) of
      None \<Rightarrow> \<exists>t. transfer_recv_elf kernel_kst a = Some (Wait t)
    | Some None \<Rightarrow> \<exists>k p. took k (port_in a) p \<and> transfer_recv_elf kernel_kst a = Some (Ok None (u\<lparr>port_in := p\<rparr>))
    | Some (Some content) \<Rightarrow> \<exists>p. took (8 + length content) (port_in a) p
        \<and> transfer_recv_elf kernel_kst a = Some (Ok (Some (heap_cur a, of_nat (length content))) (received content p u))" .
  from u obtain out where "u = a\<lparr>port_out := out, com2_initialized := True\<rparr>" ..
  from that [OF a this run [unfolded keep]] show thesis .
qed

lemma cmd_load_run:
  fixes s :: "'z shell_scheme"
  assumes s: "on_display s" and heap: "heap_inv s" and low: "unat (heap_limit s) \<le> unat MAP_LIMIT"
  shows "case kelf_receive (heap_room_left s) (com2_bytes s) of
      None \<Rightarrow> \<exists>t. cmd_load kernel_kst run hook sp s = Some (Wait t)
    | Some None \<Rightarrow> \<exists>t. cmd_load kernel_kst run hook sp s = Some (Ok () t)
        \<and> on_display t \<and> typed t = typed s \<and> mem t = mem s \<and> heap_cur t = heap_cur s
        \<and> vga_abs t = fold term_put (waiting_text @ transfer_error_text) (vga_abs s)
    | Some (Some content) \<Rightarrow> \<exists>t. on_display t \<and> typed t = typed s \<and> com2_bytes t = drop (8 + length content) (com2_bytes s)
        \<and> mem t = written (mem s) (heap_cur s) content \<and> heap_cur t = heap_cur s + of_nat (length content) \<and> resident t = resident s
        \<and> vga_abs t = fold term_put (waiting_text @ received_text (length content)) (vga_abs s)
        \<and> cmd_load kernel_kst run hook sp s = load_image kernel_kst run hook sp (heap_cur s) (of_nat (length content)) t"
proof -
  from load_transfer [OF s heap low] obtain a u out where
    a: "con_print kernel_kst (Lit waiting_text) s = Some (Ok () a)" "shown waiting_text s a"
    and u: "u = a\<lparr>port_out := out, com2_initialized := True\<rparr>"
    and run: "case kelf_receive (heap_room_left s) (com2_bytes s) of
      None \<Rightarrow> \<exists>t. transfer_recv_elf kernel_kst a = Some (Wait t)
    | Some None \<Rightarrow> \<exists>k p. took k (port_in a) p \<and> transfer_recv_elf kernel_kst a = Some (Ok None (u\<lparr>port_in := p\<rparr>))
    | Some (Some content) \<Rightarrow> \<exists>p. took (8 + length content) (port_in a) p
        \<and> transfer_recv_elf kernel_kst a = Some (Ok (Some (heap_cur s, of_nat (length content))) (received content p u))" .
  note cmd = cmd_load_parts [of kernel_kst run hook sp] a(1)
  show ?thesis
  proof (cases "kelf_receive (heap_room_left s) (com2_bytes s)")
    case None
    with run obtain t where "transfer_recv_elf kernel_kst a = Some (Wait t)" by auto
    with None cmd show ?thesis by (simp add: bind_run)
  next
    case (Some r)
    show ?thesis
    proof (cases r)
      case None
      with Some run obtain k p where p: "took k (port_in a) p" "transfer_recv_elf kernel_kst a = Some (Ok None (u\<lparr>port_in := p\<rparr>))"
        by auto
      from rejected_printed [OF a(2) u p(1)] cmd p(2) Some None show ?thesis by (auto simp: bind_run)
    next
      case content: (Some content)
      with Some run obtain p where p: "took (8 + length content) (port_in a) p"
        "transfer_recv_elf kernel_kst a = Some (Ok (Some (heap_cur s, of_nat (length content))) (received content p u))"
        by auto
      have "kelf_receive (heap_room_left s) (com2_bytes s) = Some (Some content)" using Some content by simp
      then have "length content \<le> 2 * 1024 * 1024" by (rule kelf_receive_bounds(2))
      from received_printed [OF a(2) u p(1) this] obtain t where
        t: "seq [con_print kernel_kst (str ''Received ''), con_print_dec kernel_kst (ucast (of_nat (length content) :: u32)),
          con_print kernel_kst (Lit (lit '' bytes. Loading ELF...'' @ [0x0A]))] (received content p u) = Some (Ok () t)"
        "on_display t" "typed t = typed s" "com2_bytes t = drop (8 + length content) (com2_bytes s)"
        "mem t = written (mem s) (heap_cur s) content" "heap_cur t = heap_cur s + of_nat (length content)" "resident t = resident s"
        "vga_abs t = fold term_put (waiting_text @ received_text (length content)) (vga_abs s)" .
      have "cmd_load kernel_kst run hook sp s = load_image kernel_kst run hook sp (heap_cur s) (of_nat (length content)) t"
        by (simp only: cmd(1) bind_run [of "con_print _ _"] bind_run [of "transfer_recv_elf _"] bind_run [of "seq _"]
            cmd(2) p(2) t(1) option.case outcome.case prod.case)
      with t(2-) Some content show ?thesis by auto
    qed
  qed
qed

section \<open>The run of a program\<close>

text \<open>An image the loader installs away from the resident addresses \<open>K\<close>, with an entry that is not 0.\<close>

definition program_ok :: "(u64 \<Rightarrow> bool) \<Rightarrow> memory \<Rightarrow> u64 \<Rightarrow> nat \<Rightarrow> bool" where
  "program_ok K m buf n \<longleftrightarrow> header_ok m buf n \<and> (\<forall>ph\<in>set (load_phdrs m buf). segment_ok K m buf n ph)
     \<and> load_phdrs m buf \<noteq> [] \<and> entry_of m buf \<noteq> 0"

text \<open>The memory a loaded program starts in: the file in the heap and its segments installed.\<close>

definition program_memory :: "memory \<Rightarrow> u64 \<Rightarrow> memory" where
  "program_memory m buf = fold (with_segment m buf) (load_phdrs m buf) m"

lemma cmd_load_runs:
  fixes s :: "'z shell_scheme"
  assumes s: "on_display s" and heap: "heap_inv s" and low: "unat (heap_limit s) \<le> unat MAP_LIMIT"
    and got: "kelf_receive (heap_room_left s) (com2_bytes s) = Some (Some content)"
    and ok: "program_ok (resident s) (written (mem s) (heap_cur s) content) (heap_cur s) (length content)"
  obtains t where "on_display t" "typed t = typed s" "com2_bytes t = drop (8 + length content) (com2_bytes s)"
    and "mem t = program_memory (written (mem s) (heap_cur s) content) (heap_cur s)"
    and "heap_cur t = heap_cur s + of_nat (length content)"
    and "vga_abs t = fold term_put (waiting_text @ received_text (length content)
      @ entry_text (entry_of (written (mem s) (heap_cur s) content) (heap_cur s))) (vga_abs s)"
    and "cmd_load kernel_kst run hook sp s
      = bind (elf_exec kernel_kst run hook sp (entry_of (written (mem s) (heap_cur s) content) (heap_cur s)))
          (\<lambda>_. load_report kernel_kst) t"
proof -
  let ?m = "written (mem s) (heap_cur s) content" and ?n = "length content" and ?buf = "heap_cur s"
  let ?entry = "entry_of ?m ?buf" and ?sz = "of_nat ?n :: u32"
  from cmd_load_run [OF s heap low, of run hook sp] got obtain a where
    a: "on_display a" "typed a = typed s" "com2_bytes a = drop (8 + ?n) (com2_bytes s)" "mem a = ?m"
      "heap_cur a = ?buf + of_nat ?n" "resident a = resident s" "vga_abs a = fold term_put (waiting_text @ received_text ?n) (vga_abs s)"
      "cmd_load kernel_kst run hook sp s = load_image kernel_kst run hook sp ?buf ?sz a" by auto
  have n: "unat (ucast ?sz :: u64) = ?n"
    using kelf_receive_bounds(2) [OF got] by (simp add: unat_ucast_up unat_of_nat)
  let ?v = "a\<lparr>mem := program_memory ?m ?buf\<rparr>"
  have "elf_load ?buf (ucast ?sz) a = Some (Ok ?entry ?v)"
    using elf_load_run [where s = a and data = ?buf and sz = "ucast ?sz"] ok
    by (simp add: n a(4,6) program_ok_def program_memory_def)
  then have "sys_elf_load kernel_kst ?buf (ucast ?sz) a = Some (Ok ?entry ?v)" by (simp add: kst_elf_load_def)
  moreover have "?entry \<noteq> 0" using ok by (simp add: program_ok_def)
  moreover have v: "on_display ?v" "typed ?v = typed s" "com2_bytes ?v = com2_bytes a" "vga_abs ?v = vga_abs a"
    using a(1,2) by (simp_all add: on_display_def vga_inv_def com2_bytes_def vga_abs_def)
  ultimately obtain t where t: "shown (entry_text ?entry) ?v t" "load_image kernel_kst run hook sp ?buf ?sz a
      = bind (elf_exec kernel_kst run hook sp ?entry) (\<lambda>_. load_report kernel_kst) t"
    using load_image_run by metis
  have "typed t = typed ?v" "mem t = mem ?v" "heap_cur t = heap_cur ?v" "com2_bytes t = com2_bytes ?v"
    by - (rule shown_local [OF t(1)]; (rule typed_local | simp add: vga_local_def com2_bytes_def))+
  with t v a show thesis by (intro that [of t]) (simp_all add: shown_def)
qed

text \<open>The end of a program and what \<open>load\<close> makes of it.\<close>

lemma load_finishes:
  fixes v :: "'z shell_scheme"
  assumes "body entry (started hook sp t) = Some (Ok () v)" and "on_display v" and "\<not> exc_caught v"
  shows "\<exists>w. bind (elf_exec kernel_kst (hosted call restore frame body) hook sp entry) (\<lambda>_. load_report kernel_kst) t = Some (Ok () w)
    \<and> shown finished_text (v\<lparr>exc_hook := 0\<rparr>) w"
proof -
  have "on_display (v\<lparr>exc_hook := 0\<rparr>)" using assms(2) by (simp add: on_display_def vga_inv_def)
  from load_report_run [OF this] elf_exec_returns [where body = body, OF assms(1)] assms(3) show ?thesis by (simp add: bind_run)
qed

lemma load_reports:
  fixes v :: "'z shell_scheme"
  assumes "body entry (started hook sp t) = Some (Trap vec v)" and "on_display v"
    and "exc_hook v = hook" and "hook \<noteq> 0" and "restore \<noteq> 0" and "call hook = exc_hook_fn restore"
  shows "\<exists>w. bind (elf_exec kernel_kst (hosted call restore frame body) hook sp entry) (\<lambda>_. load_report kernel_kst) t = Some (Ok () w)
    \<and> shown (exception_text (vector (frame vec v)) (rip (frame vec v)) (error_code (frame vec v))) (recovered (frame vec v) v) w"
proof -
  have "on_display (recovered (frame vec v) v)" using assms(2) by (simp add: on_display_def vga_inv_def recovered_def)
  from load_report_run [OF this] elf_exec_recovers [where call = call and body = body, OF assms(1,3-6)] show ?thesis
    by (simp add: bind_run recovered_def)
qed

text \<open>An image that is refused; the segments before the one that fails stay in memory.\<close>

lemma cmd_load_refused:
  fixes s :: "'z shell_scheme"
  assumes s: "on_display s" and heap: "heap_inv s" and low: "unat (heap_limit s) \<le> unat MAP_LIMIT"
    and got: "kelf_receive (heap_room_left s) (com2_bytes s) = Some (Some content)"
    and bad: "length content < 64 \<or> header_bad (written (mem s) (heap_cur s) content) (heap_cur s)"
  shows "\<exists>t. cmd_load kernel_kst run hook sp s = Some (Ok () t) \<and> on_display t \<and> typed t = typed s
    \<and> mem t = written (mem s) (heap_cur s) content
    \<and> vga_abs t = fold term_put (waiting_text @ received_text (length content) @ load_failed_text) (vga_abs s)"
proof -
  let ?m = "written (mem s) (heap_cur s) content" and ?n = "length content" and ?buf = "heap_cur s"
  let ?sz = "of_nat ?n :: u32"
  from cmd_load_run [OF s heap low, of run hook sp] got obtain a where
    a: "on_display a" "typed a = typed s" "mem a = ?m"
      "vga_abs a = fold term_put (waiting_text @ received_text ?n) (vga_abs s)"
      "cmd_load kernel_kst run hook sp s = load_image kernel_kst run hook sp ?buf ?sz a" by auto
  have n: "unat (ucast ?sz :: u64) = ?n"
    using kelf_receive_bounds(2) [OF got] by (simp add: unat_ucast_up unat_of_nat)
  have "?buf \<le> heap_limit s" using heap by (simp add: heap_inv_def)
  then have "mapped ?buf (unat (ucast ?sz :: u64))"
    using kelf_receive_bounds(3) [OF got] low by (simp add: n mapped_def heap_room_left_def word_le_nat_alt)
  from elf_load_bad_header [OF this, of a] bad have "sys_elf_load kernel_kst ?buf (ucast ?sz) a = Some (Ok 0 a)"
    by (simp add: n a(3) kst_elf_load_def)
  from load_image_refused [OF this a(1)] obtain t where
    t: "load_image kernel_kst run hook sp ?buf ?sz a = Some (Ok () t)" "shown load_failed_text a t" by blast
  have "typed t = typed a" "mem t = mem a"
    by - (rule shown_local [OF t(2)]; (rule typed_local | simp add: vga_local_def))+
  with t a show ?thesis by (auto simp: shown_def)
qed

section \<open>The command typed at the prompt\<close>

text \<open>Reading a line changes nothing the command depends on.\<close>

lemma off_display_fields:
  "mem (off_display s) = mem s" "heap_inv (off_display s) = heap_inv s" "heap_limit (off_display s) = heap_limit s"
  "heap_cur (off_display s) = heap_cur s" "heap_room_left (off_display s) = heap_room_left s"
  "com2_bytes (off_display s) = com2_bytes s" "resident (off_display s) = resident s"
  by (simp_all add: off_display_def heap_inv_def heap_room_left_def com2_bytes_def com2_line_def
      KBD_STATUS_def KBD_DATA_def COM2_def)

lemma off_display_same:
  assumes "off_display u = off_display s"
  shows "mem u = mem s" "heap_inv u = heap_inv s" "heap_limit u = heap_limit s" "heap_cur u = heap_cur s"
    "heap_room_left u = heap_room_left s" "com2_bytes u = com2_bytes s" "resident u = resident s"
  using off_display_fields [of u] off_display_fields [of s] by (simp_all add: assms)

lemma typed_load:
  fixes s :: "'z shell_scheme"
  assumes "on_display s" and "length line = LINE_MAX"
    and "edit_line (LINE_MAX - 1) [] (typed s) = Some (lit ''load'', rest)"
  obtains line' u where "on_display u" and "typed u = rest" and "off_display u = off_display s" and "length line' = LINE_MAX"
    and "vga_abs u = fold term_put (prompt_text (typed s)) (vga_abs s)"
    and "shell_round kernel_kst load_cmd line s = bind load_cmd (\<lambda>_. ret line') u"
proof -
  from shell_round_run [OF assms(1,2), of load_cmd] assms(3) obtain line' u where
    u: "on_display u" "typed u = rest" "off_display u = off_display s" "length line' = LINE_MAX" "c_string line' = lit ''load''"
      "vga_abs u = fold term_put (prompt_text (typed s)) (vga_abs s)"
      "shell_round kernel_kst load_cmd line s = bind (run_command kernel_kst load_cmd line') (\<lambda>_. ret line') u" by auto
  have "run_command kernel_kst load_cmd line' = load_cmd"
    using u(5) by (simp add: run_command_def parse_command_def)
  with u show thesis by (intro that [of u line']) (simp_all only:)
qed

lemma round_returns: "m u = Some (Ok () w) \<Longrightarrow> bind m (\<lambda>_. ret line') u = Some (Ok line' w)"
  by (simp add: bind_run ret_run)

end
