(* ===== verification/Session.thy ===== *)
theory Session imports Shell_Loop Screen begin

text \<open>
  Whole sessions at the display, \<open>module_main\<close> of \<open>command_kern/main.c\<close>: a reference on typed
  characters and the abstract terminal, and the proof that the shell follows it.
\<close>

section \<open>The reference\<close>

definition help_text :: "u8 list" where
  "help_text = lit ''Commands:'' @ [0x0A]
     @ lit ''  help   -- show this help'' @ [0x0A]
     @ lit ''  clear  -- clear the screen'' @ [0x0A]
     @ lit ''  halt   -- halt the system'' @ [0x0A]
     @ lit ''  load   -- receive ELF via COM2 (KELF protocol) and run it'' @ [0x0A]"

definition banner_text :: "u8 list" where
  "banner_text = lit ''KDOS COMMAND.KERN 1.0'' @ [0x0A]
     @ lit ''Type '' @ [0x27] @ lit ''help'' @ [0x27] @ lit '' for available commands.'' @ [0x0A, 0x0A]"

text \<open>What a command does to the screen, but for \<open>load\<close>.\<close>

definition command_screen :: "u8 list \<Rightarrow> terminal \<Rightarrow> terminal" where
  "command_screen line = (case parse_command line of
     Blank \<Rightarrow> id
   | Help \<Rightarrow> fold term_put help_text
   | Clear \<Rightarrow> term_clear
   | Halt_System \<Rightarrow> fold term_put (panic_text (lit ''halt requested'')) \<circ> alarm
   | Load \<Rightarrow> id
   | Unknown \<Rightarrow> fold term_put (lit ''Unknown command: '' @ line @ [0x0A]))"

text \<open>
  How a session comes to its end on the characters typed so far, with the characters that are
  left and the screen: it waits for more, it has halted, or it is about to run \<open>load\<close>.
\<close>

datatype finish = Awaits_Input | Halted | Starts_Load

lemma edit_line_shorter: "edit_line cap line chars = Some (l, rest) \<Longrightarrow> length rest < length chars"
  by (induction cap line chars rule: edit_line.induct) (fastforce split: if_splits)+

function session :: "int list \<Rightarrow> terminal \<Rightarrow> finish \<times> int list \<times> terminal" where
  "session chars d = (let d = fold term_put (prompt_text chars) d in
     case edit_line (LINE_MAX - 1) [] chars of
       None \<Rightarrow> (Awaits_Input, [], d)
     | Some (line, rest) \<Rightarrow>
         (case parse_command line of
            Halt_System \<Rightarrow> (Halted, rest, command_screen line d)
          | Load \<Rightarrow> (Starts_Load, rest, d)
          | _ \<Rightarrow> session rest (command_screen line d)))"
  by pat_completeness auto
termination
  by (relation "measure (\<lambda>(chars, d). length chars)") (auto dest: edit_line_shorter)

declare session.simps [simp del]

lemma session_waits: "edit_line (LINE_MAX - 1) [] chars = None \<Longrightarrow>
    session chars d = (Awaits_Input, [], fold term_put (prompt_text chars) d)"
  by (simp add: session.simps [of chars])

lemma session_line:
  assumes "edit_line (LINE_MAX - 1) [] chars = Some (line, rest)"
  shows "parse_command line = Halt_System \<Longrightarrow>
      session chars d = (Halted, rest, command_screen line (fold term_put (prompt_text chars) d))"
    and "parse_command line = Load \<Longrightarrow>
      session chars d = (Starts_Load, rest, fold term_put (prompt_text chars) d)"
    and "parse_command line \<notin> {Halt_System, Load} \<Longrightarrow>
      session chars d = session rest (command_screen line (fold term_put (prompt_text chars) d))"
  using assms by (simp_all add: session.simps [of chars]) (cases "parse_command line"; simp)

section \<open>The commands follow it\<close>

lemma command_says:
  fixes load_cmd :: "(unit, 'z shell_scheme) prog"
  assumes "parse_command (c_string line) \<notin> {Halt_System, Load}"
  shows "says on_display typed off_display vga_abs (command_screen (c_string line)) (run_command kernel_kst load_cmd line)"
proof -
  have unknown: "says on_display typed off_display vga_abs
      (((id \<circ> term_put 0x0A) \<circ> fold term_put (c_string line)) \<circ> fold term_put (lit ''Unknown command: ''))
      (cmd_unknown kernel_kst (Lit line) :: (unit, 'z shell_scheme) prog)"
    unfolding cmd_unknown_def by (intro says_seq_Cons says_seq_Nil display_print display.print_says display.putchar_says) simp
  have commands: "says on_display typed off_display vga_abs (fold term_put help_text) (cmd_help kernel_kst :: (unit, 'z shell_scheme) prog)"
    unfolding cmd_help_def help_text_def by (rule display_print) simp
  have blank: "says on_display typed off_display vga_abs id (skip :: (unit, 'z shell_scheme) prog)"
    using says_seq_Nil by simp
  show ?thesis
    using assms unknown commands blank display.clear_says
    by (cases "parse_command (c_string line)") (simp_all add: run_command_def command_screen_def comp_def del: lit_Cons)
qed

lemma halt_display:
  fixes s :: "'z shell_scheme"
  assumes "on_display s" and "parse_command (c_string line) = Halt_System"
  shows "\<exists>t. run_command kernel_kst load_cmd line s = Some (Halt t) \<and> vga_abs t = command_screen (c_string line) (vga_abs s)
    \<and> mem t = mem s \<and> \<not> intr_enabled t"
  using hal_panic_display [OF assms(1), of "lit ''halt requested''"] assms(2)
  by (simp add: run_command_def command_screen_def del: lit_Cons) simp

section \<open>The loop follows it\<close>

definition follows :: "(unit, 'z shell_scheme) prog \<Rightarrow> 'z shell_scheme \<Rightarrow> finish \<times> int list \<times> terminal
    \<Rightarrow> (unit, 'z shell_scheme) outcome option \<Rightarrow> bool" where
  "follows load_cmd s e r \<longleftrightarrow> (case e of
      (Awaits_Input, rest, d) \<Rightarrow> \<exists>t. r = Some (Wait t) \<and> vga_abs t = d \<and> off_display t = off_display s
    | (Halted, rest, d) \<Rightarrow> \<exists>t. r = Some (Halt t) \<and> vga_abs t = d \<and> mem t = mem s \<and> \<not> intr_enabled t
    | (Starts_Load, rest, d) \<Rightarrow> \<exists>line t. r = bind load_cmd (\<lambda>_. shell_loop kernel_kst load_cmd line) t
        \<and> length line = LINE_MAX \<and> on_display t \<and> typed t = rest \<and> vga_abs t = d \<and> off_display t = off_display s)"

lemma follows_same: "off_display t = off_display s \<Longrightarrow> follows load_cmd t e r = follows load_cmd s e r"
  using off_display_mem [of t s] by (auto simp: follows_def split: prod.split finish.split)

lemma shell_loop_follows:
  fixes s :: "'z shell_scheme"
  assumes "on_display s" and "length line = LINE_MAX"
  shows "follows load_cmd s (session (typed s) (vga_abs s)) (shell_loop kernel_kst load_cmd line s)"
  using assms
proof (induction "length (typed s)" arbitrary: s line rule: less_induct)
  case less
  let ?d = "fold term_put (prompt_text (typed s)) (vga_abs s)"
  have loop: "shell_loop kernel_kst load_cmd line s
      = bind (shell_round kernel_kst load_cmd line) (shell_loop kernel_kst load_cmd) s"
    by (subst shell_loop.simps) (rule refl)
  show ?case
  proof (cases "edit_line (LINE_MAX - 1) [] (typed s)")
    case None
    with shell_round_run [OF less.prems, of load_cmd] session_waits [OF None, of "vga_abs s"] show ?thesis
      by (auto simp: loop bind_run follows_def)
  next
    case (Some r)
    obtain l rest where l: "edit_line (LINE_MAX - 1) [] (typed s) = Some (l, rest)" using Some by (cases r) auto
    with shell_round_run [OF less.prems, of load_cmd] obtain line' t where
      t: "on_display t" "typed t = rest" "off_display t = off_display s" "vga_abs t = ?d" "length line' = LINE_MAX" "c_string line' = l"
        "shell_round kernel_kst load_cmd line s = bind (run_command kernel_kst load_cmd line') (\<lambda>_. ret line') t" by auto
    have run: "shell_loop kernel_kst load_cmd line s
        = bind (run_command kernel_kst load_cmd line') (\<lambda>_. shell_loop kernel_kst load_cmd line') t"
      using t(7) by (simp add: loop bind_run ret_run split: option.split outcome.split)
    consider (halt) "parse_command l = Halt_System" | (load) "parse_command l = Load" | (prompt) "parse_command l \<notin> {Halt_System, Load}"
      by blast
    then show ?thesis
    proof cases
      case halt
      with halt_display [OF t(1), of line' load_cmd] t(4,6) obtain u where
        u: "run_command kernel_kst load_cmd line' t = Some (Halt u)" "vga_abs u = command_screen l ?d" "mem u = mem t"
          "\<not> intr_enabled u" by auto
      then show ?thesis
        using off_display_mem [OF t(3)] by (simp add: run bind_run follows_def session_line(1) [OF l halt])
    next
      case load
      with t(6) have "run_command kernel_kst load_cmd line' = load_cmd" by (simp add: run_command_def)
      then show ?thesis using t(1-5) by (auto simp: run follows_def session_line(2) [OF l load])
    next
      case prompt
      with saysE [OF command_says t(1), of line' load_cmd] t(6) obtain u where
        u: "run_command kernel_kst load_cmd line' t = Some (Ok () u)" "on_display u" "typed u = typed t"
          "off_display u = off_display t" "vga_abs u = command_screen l (vga_abs t)" by metis
      have shorter: "length (typed u) < length (typed s)" using edit_line_shorter [OF l] u(3) t(2) by simp
      have same: "off_display u = off_display s" using u(4) t(3) by simp
      have "shell_loop kernel_kst load_cmd line s = shell_loop kernel_kst load_cmd line' u" using u(1) by (simp add: run bind_run)
      moreover have "session (typed s) (vga_abs s) = session (typed u) (vga_abs u)"
        using session_line(3) [OF l prompt] u(3,5) t(2,4) by simp
      ultimately show ?thesis
        using less.hyps [OF shorter u(2) t(5)] follows_same [OF same] by simp
    qed
  qed
qed

section \<open>The session from the start of the module\<close>

lemma clear_bss_display:
  "on_display (clear_bss s) = on_display s" "typed (clear_bss s) = typed s" "vga_abs (clear_bss s) = vga_abs s"
  by (simp_all add: clear_bss_def on_display_def vga_inv_def typed_def kbd_flags_def available_def n_full_def vga_abs_def)

lemma module_main_follows:
  fixes s :: "'z shell_scheme"
  assumes s: "on_display s" and line: "length line = LINE_MAX"
  shows "follows (cmd_load kernel_kst run hook sp) (clear_bss s)
    (session (typed s) (fold term_put banner_text (term_clear (vga_abs s)))) (module_main kernel_kst run hook sp line s)"
proof -
  let ?s = "clear_bss s" and ?load = "cmd_load kernel_kst run hook sp"
  have "on_display ?s" using s by (simp add: clear_bss_display)
  from saysE [OF display.clear_says this] obtain u where
    u: "con_clear kernel_kst ?s = Some (Ok () u)" "on_display u" "typed u = typed s" "off_display u = off_display ?s"
      "vga_abs u = term_clear (vga_abs s)" by (auto simp: clear_bss_display)
  have "0 \<notin> set banner_text" by (simp add: banner_text_def)
  from saysE [OF display_print [OF this] u(2)] obtain v where
    v: "con_print kernel_kst (Lit banner_text) u = Some (Ok () v)" "on_display v" "typed v = typed u" "off_display v = off_display u"
      "vga_abs v = fold term_put banner_text (vga_abs u)" .
  have "module_main kernel_kst run hook sp line s = shell_loop kernel_kst ?load line v"
    using u(1) v(1) unfolding module_main_def seq.simps banner_text_def
    by (simp add: bind_run modify_run skip_run split: option.split outcome.split del: lit_Cons)
  with shell_loop_follows [OF v(2) line, of ?load] follows_same [of v ?s ?load] u v show ?thesis by simp
qed

end
