(* ===== verification/Power_On.thy ===== *)
theory Power_On imports Session begin

text \<open>
  From power on to the shell on the display: what the boot path leaves of the keyboard input and
  of the colours, modules that run to their end, and the session of the shell that is launched.
\<close>

section \<open>What the boot path leaves alone\<close>

text \<open>The colour of the display and the input, with the exception of the status port of the serial line.\<close>

definition console_view :: "'z hal_scheme \<Rightarrow> u8 \<times> (bool \<times> bool) \<times> (u16 \<Rightarrow> u8 list)" where
  "console_view s = (current_color s, kbd_flags s, (port_in s)(COM1 + 5 := []))"

lemma print_free_view [simp]: "print_free console_view"
  by (simp add: print_free_def vga_free_def line_free_def console_view_def kbd_flags_def)

lemma view_port:
  assumes "console_view t = console_view s" and "p \<noteq> COM1 + 5"
  shows "port_in t p = port_in s p"
proof -
  have "((port_in t)(COM1 + 5 := [])) p = ((port_in s)(COM1 + 5 := [])) p" using assms(1) by (simp add: console_view_def)
  with assms(2) show ?thesis by simp
qed

lemma com2_bytes_ports: "port_in t COM2 = port_in s COM2 \<Longrightarrow> port_in t (COM2 + 5) = port_in s (COM2 + 5) \<Longrightarrow> com2_bytes t = com2_bytes s"
  by (simp add: com2_bytes_def com2_line_def)

lemma typed_view:
  assumes "console_view t = console_view s"
  shows "typed t = typed s" and "com2_bytes t = com2_bytes s"
proof -
  have "port_in t COM2 = port_in s COM2" "port_in t (COM2 + 5) = port_in s (COM2 + 5)"
    by (rule view_port [OF assms]; simp add: COM1_def COM2_def)+
  then show "com2_bytes t = com2_bytes s" by (rule com2_bytes_ports)
  have "port_in t KBD_STATUS = port_in s KBD_STATUS" "port_in t KBD_DATA = port_in s KBD_DATA"
    by (rule view_port [OF assms]; rule input_ports)+
  moreover have "kbd_flags t = kbd_flags s" using assms by (simp add: console_view_def)
  ultimately show "typed t = typed s" by (simp add: typed_def available_def n_full_def)
qed

text \<open>\<open>steady f m\<close>: when \<open>m\<close> returns, \<open>f\<close> is as it was.\<close>

definition steady :: "('s \<Rightarrow> 'f) \<Rightarrow> ('a, 's) prog \<Rightarrow> bool" where
  "steady f m \<longleftrightarrow> (\<forall>s a t. m s = Some (Ok a t) \<longrightarrow> f t = f s)"

named_theorems steady_intros

lemma steadyI: "(\<And>s a t. m s = Some (Ok a t) \<Longrightarrow> f t = f s) \<Longrightarrow> steady f m"
  by (simp add: steady_def)

lemma steadyD: "steady f m \<Longrightarrow> m s = Some (Ok a t) \<Longrightarrow> f t = f s"
  by (simp add: steady_def)

lemma steady_unchanged: "unchanged f m \<Longrightarrow> steady f m"
  by (rule steadyI) (rule unchanged_OkD)

lemma steady_bind [steady_intros]:
  assumes m: "steady f m" and k: "\<And>a. steady f (k a)"
  shows "steady f (bind m k)"
proof (rule steadyI)
  fix s a t assume "bind m k s = Some (Ok a t)"
  then obtain b u where u: "m s = Some (Ok b u)" "k b u = Some (Ok a t)"
    by (auto simp: bind_run split: option.splits outcome.splits)
  show "f t = f s" using steadyD [OF m u(1)] steadyD [OF k u(2)] by simp
qed

lemma steady_if [steady_intros]: "(c \<Longrightarrow> steady f m) \<Longrightarrow> (\<not> c \<Longrightarrow> steady f k) \<Longrightarrow> steady f (if c then m else k)"
  by simp

lemma steady_seq [steady_intros]: "steady f skip" "steady f (seq [])" "steady f m \<Longrightarrow> steady f (seq ms) \<Longrightarrow> steady f (seq (m # ms))"
  by (simp_all add: steady_bind steady_unchanged unchanged_skip)

lemma steady_panic [steady_intros]: "steady f (hal_panic c)"
  by (rule steadyI) (simp add: hal_panic_no_return)

text \<open>The page allocator writes the bitmap only.\<close>

lemma unchanged_frames:
  assumes "\<And>s x. f (s\<lparr>bitmap := x\<rparr>) = f s"
  shows "unchanged f (frame_set_used i)" "unchanged f (frame_set_free i)" "unchanged f (frame_is_free i)"
  using assms by (auto simp: unchanged_def frame_set_used_def frame_set_free_def frame_is_free_def split: option.splits)

lemma unchanged_for_pages:
  assumes g: "\<And>a. unchanged f (g a)"
  shows "unchanged f (for_pages a stop g)"
proof (rule unchangedI)
  fix s r assume "for_pages a stop g s = Some r"
  then have "(\<forall>a. unchanged f (g a)) \<longrightarrow> leaves f s r"
  proof (rule for_pages.raw_induct [where P = "\<lambda>a stop g s r. (\<forall>a. unchanged f (g a)) \<longrightarrow> leaves f s r", rotated], intro impI)
    fix rec :: "u64 \<Rightarrow> u64 \<Rightarrow> (u64 \<Rightarrow> (unit, 'a) prog) \<Rightarrow> (unit, 'a) prog" and a stop g s r
    assume IH: "\<And>a stop g s r. rec a stop g s = Some r \<Longrightarrow> (\<forall>a. unchanged f (g a)) \<longrightarrow> leaves f s r"
      and eq: "branch (\<lambda>_. a < stop) (bind (g a) (\<lambda>_. rec (a + PAGE_SIZE) stop g)) skip s = Some r"
      and g: "\<forall>a. unchanged f (g a)"
    have "unchanged f (rec (a + PAGE_SIZE) stop g)" using IH g by (blast intro: unchangedI)
    then have "unchanged f (branch (\<lambda>_. a < stop) (bind (g a) (\<lambda>_. rec (a + PAGE_SIZE) stop g)) skip)"
      using g by (intro unchanged_intros) blast+
    then show "leaves f s r" using eq by (rule unchangedD)
  qed
  with g show "leaves f s r" by blast
qed

lemma unchanged_alloc_scan:
  fixes f :: "'z pmm_scheme \<Rightarrow> 'f"
  assumes f: "\<And>s x. f (s\<lparr>bitmap := x\<rparr>) = f s"
  shows "unchanged f (alloc_scan n i run start)"
proof (rule unchangedI)
  fix s :: "'z pmm_scheme" and r assume "alloc_scan n i run start s = Some r"
  then show "leaves f s r"
  proof (rule alloc_scan.raw_induct [where P = "\<lambda>n i run start s r. leaves f s r", rotated])
    fix rec :: "u32 \<Rightarrow> u32 \<Rightarrow> u32 \<Rightarrow> u32 \<Rightarrow> (u64, 'z pmm_scheme) prog" and n i run start and s :: "'z pmm_scheme" and r
    assume IH: "\<And>n i run start s r. rec n i run start s = Some r \<Longrightarrow> leaves f s r"
      and eq: "bind (gets total_frames) (\<lambda>total. if i < total then bind (frame_is_free i) (\<lambda>is_free.
         if is_free then (let start = (if run = 0 then i else start); run = run + 1 in
            if run = n then bind (for_word start (start + n) frame_set_used) (\<lambda>_. ret (ucast start * PAGE_SIZE))
            else rec n (i + 1) run start)
         else rec n (i + 1) 0 start) else ret 0) s = Some r"
    have "unchanged f (rec n i run start)" for n i run start using IH by (rule unchangedI)
    then have "unchanged f (bind (gets total_frames) (\<lambda>total. if i < total then bind (frame_is_free i) (\<lambda>is_free.
         if is_free then (let start = (if run = 0 then i else start); run = run + 1 in
            if run = n then bind (for_word start (start + n) frame_set_used) (\<lambda>_. ret (ucast start * PAGE_SIZE))
            else rec n (i + 1) run start)
         else rec n (i + 1) 0 start) else ret 0))"
      unfolding Let_def by (intro unchanged_intros unchanged_frames f)
    then show "leaves f s r" using eq by (rule unchangedD)
  qed
qed

lemma unchanged_map: "unchanged f (hal_mem_get_map rs n)"
  unfolding hal_mem_get_map_def Let_def by (intro unchanged_intros)

lemma view_updates [simp]:
  "console_view (r\<lparr>mem_map := mm\<rparr>) = console_view r" "console_view (r\<lparr>mem_map_count := c\<rparr>) = console_view r"
  "console_view (s\<lparr>bitmap := b\<rparr>) = console_view s" "console_view (s\<lparr>total_frames := n\<rparr>) = console_view s"
  "console_view (t\<lparr>heap_base := a\<rparr>) = console_view t" "console_view (t\<lparr>heap_cur := a\<rparr>) = console_view t"
  "console_view (t\<lparr>heap_limit := a\<rparr>) = console_view t"
  "console_view (u\<lparr>idt := g\<rparr>) = console_view u" "console_view (u\<lparr>kernel_tss := k\<rparr>) = console_view u"
  "console_view (u\<lparr>kernel_gdt := d\<rparr>) = console_view u" "console_view (u\<lparr>gdt_ptr := p\<rparr>) = console_view u"
  "console_view (u\<lparr>idt_ptr := p\<rparr>) = console_view u" "console_view (u\<lparr>gdtr := p\<rparr>) = console_view u"
  "console_view (u\<lparr>idtr := p\<rparr>) = console_view u" "console_view (u\<lparr>task_register := q\<rparr>) = console_view u"
  "console_view (v\<lparr>modules := ms\<rparr>) = console_view v" "console_view (v\<lparr>mod_count := c\<rparr>) = console_view v"
  by (simp_all add: console_view_def kbd_flags_def)

lemma view_memory: "unchanged console_view (pmm_init kend)" "steady console_view (heap_init kend)"
proof -
  have fill: "unchanged console_view (\<lambda>s. if i < length (bitmap s) then Some (Ok () (s\<lparr>bitmap := (bitmap s)[i := 0xFF]\<rparr>)) else Some Undef)"
    for i by (auto simp: unchanged_def)
  show "unchanged console_view (pmm_init kend)"
    unfolding pmm_init_def free_region_def free_page_def reserve_page_def
    by (intro unchanged_intros unchanged_map unchanged_for_pages unchanged_frames fill) simp_all
  have alloc: "unchanged console_view (hal_mem_alloc_pages n)" for n
    unfolding hal_mem_alloc_pages_def pmm_alloc_pages_def by (intro unchanged_alloc_scan) simp
  show "steady console_view (heap_init kend)"
    unfolding heap_init_def
    by (intro steady_intros steady_unchanged [OF alloc] steady_unchanged [OF unchanged_modify] steady_unchanged [OF unchanged_gets]) simp_all
qed

lemma view_idt: "unchanged console_view (hal_idt_init lay)"
proof -
  have ltr: "unchanged console_view (ltr q)" for q
    by (auto simp: unchanged_def ltr_def Let_def split: if_splits)
  show ?thesis
    unfolding hal_idt_init_def idt_init_def gdt_set_tss_entry_def idt_set_gate_def
    by (intro unchanged_intros ltr) simp_all
qed

text \<open>The calls of the boot path behind the initialisation of the console.\<close>

lemma view_arch: "unchanged console_view (hal_arch_init MULTIBOOT2_MAGIC boot_addr)"
  unfolding hal_arch_init_def hal_mem_set_map_def
  by (simp only: simp_thms if_False, intro unchanged_intros unchanged_arch_tags) simp_all

lemma view_lists: "unchanged console_view list_regions" "unchanged console_view list_modules"
  unfolding list_regions_def list_modules_def print_region_def if_distrib [of hal_console_print] modules_count_def
  by (intro unchanged_intros unchanged_map; simp)+

lemma boot_calls_view:
  fixes s :: "'z kernel_scheme"
  assumes "boot_calls lay boot_addr cons s = Some (Ok () t)"
  obtains u where "hal_console_init cons s = Some (Ok () u)" and "console_view t = console_view u"
proof -
  define m :: "(unit, 'z kernel_scheme) prog" where "m = seq [
     hal_console_clear, hal_idt_init lay,
     hal_console_print (Lit (lit ''KDOS Kernel'' @ [0x0A])),
     hal_console_print (Lit (lit ''---------------'' @ [0x0A, 0x0A])),
     hal_arch_init MULTIBOOT2_MAGIC boot_addr, hal_mem_init (kernel_end lay), heap_init (kernel_end lay),
     list_regions, list_modules]"
  have print: "unchanged console_view (hal_console_print c :: (unit, 'z kernel_scheme) prog)"
    "unchanged console_view (hal_console_clear :: (unit, 'z kernel_scheme) prog)" for c
    by (intro unchanged_intros print_free_view)+
  have st: "steady console_view m"
    unfolding m_def hal_mem_init_def
    by (intro steady_intros print [THEN steady_unchanged] view_idt [THEN steady_unchanged] view_arch [THEN steady_unchanged]
        view_lists [THEN steady_unchanged] view_memory(1) [THEN steady_unchanged] view_memory(2))
  have "boot_calls lay boot_addr cons = bind (hal_console_init cons) (\<lambda>_. m)"
    by (simp only: boot_calls_def m_def seq.simps)
  then obtain u where u: "hal_console_init cons s = Some (Ok () u)" "m u = Some (Ok () t)"
    using assms by (auto simp: bind_run split: option.splits outcome.splits)
  show thesis by (rule that [OF u(1) steadyD [OF st u(2)]])
qed

section \<open>The display and the keyboard after the boot\<close>

definition boot_color :: u8 where
  "boot_color = make_color VGA_WHITE VGA_BLACK"

definition blank_screen :: terminal where
  "blank_screen = \<lparr>cells = replicate (VGA_ROWS * VGA_COLS) (make_entry 0x20 boot_color), row = 0, col = 0, attr = boot_color\<rparr>"

lemma clear_blank: "current_color s = boot_color \<Longrightarrow> term_clear (vga_abs s) = blank_screen"
  by (simp add: term_clear_def vga_abs_def blank_screen_def)

lemma drained_free:
  assumes "\<And>s p. f (s\<lparr>port_in := p\<rparr>) = f s"
  shows "f (drained s) = f s"
  using assms by (simp add: drained_def split: prod.split)

lemma hal_console_init_view:
  fixes s :: "'z hal_scheme"
  assumes "length (vram s) = VGA_ROWS * VGA_COLS" and "keyboard_quiet s" and "hal_console_init HAL_CONSOLE_VGA s = Some (Ok () u)"
  shows "current_color u = boot_color" and "typed u = typed (drained s)" and "com2_bytes u = com2_bytes s"
proof -
  let ?s = "s\<lparr>active_console := HAL_CONSOLE_VGA\<rparr>"
  let ?b = "?s\<lparr>buffer := VGA_BUFFER, cursor_row := 0, cursor_col := 0, current_color := boot_color\<rparr>"
  have init: "vga_init ?s = vga_clear ?b" by (simp add: vga_init_def bind_run modify_run boot_color_def)
  from vga_init_inv [of ?s] assms(1) obtain t where t: "vga_init ?s = Some (Ok () t)" by auto
  have view: "console_view t = console_view ?b"
    by (rule unchanged_OkD [OF unchanged_vga_clear t [unfolded init]]) (simp add: vga_free_def console_view_def kbd_flags_def)
  then have rest: "kbd_flags t = kbd_flags s" "current_color t = boot_color"
    by (simp_all add: console_view_def kbd_flags_def)
  have other: "port_in t p = port_in s p" if "p \<noteq> COM1 + 5" for p
    using view_port [OF view that] by simp
  note ports = other [OF input_ports(1)] other [OF input_ports(2)]
  have "keyboard_quiet t" using assms(2) by (simp add: keyboard_quiet_def ports)
  from keyboard_init_quiet [OF this] t have u: "u = drained t"
    using assms(3) by (simp add: hal_console_init_def bind_run modify_run skip_run)
  have "available (drained t) = available (drained s)"
    by (simp add: available_def n_full_def drained_def ports split: prod.split)
  moreover have "kbd_flags (drained t) = kbd_flags (drained s)" "current_color (drained t) = current_color t"
    using rest(1) by (simp_all add: drained_def kbd_flags_def split: prod.split)
  ultimately show "current_color u = boot_color" "typed u = typed (drained s)"
    using rest(2) by (simp_all add: u typed_def)
  show "com2_bytes u = com2_bytes s"
    by (rule com2_bytes_ports) (simp_all add: u drained_def other COM1_def COM2_def KBD_STATUS_def KBD_DATA_def split: prod.split)
qed

text \<open>The state in which the modules start, display and input included.\<close>

lemma kernel_main_display:
  fixes s :: "'z kernel_scheme"
  assumes boot: "power_on m s" "boot_addr \<noteq> 0" "tag_chain m (boot_addr + 8) ts" "\<forall>t\<in>set ts. tag_ok L m t"
      "case find (\<lambda>t. read_le m t 4 = MB2_TAG_CMDLINE) ts of
        Some t \<Rightarrow> denotes m (Ptr (t + 8)) line | None \<Rightarrow> True"
      "4096 \<le> unat (page_up (kernel_end lay))"
    and free: "chosen_console m ts line = HAL_CONSOLE_VGA" "keyboard_quiet s"
      "heap_room (kernel_end lay) (take 64 (all_regions m ts))"
    and code: "module_code N entry" "table_strings N m (register_all L m ts [])"
  obtains t where "kernel_ready HAL_CONSOLE_VGA (kernel_end lay) (take 64 (all_regions m ts)) m (register_all L m ts []) t"
    and "on_display t" and "current_color t = boot_color" and "typed t = typed (drained s)"
    and "com2_bytes t = com2_bytes s"
    and "kernel_main False lay entry MULTIBOOT2_MAGIC boot_addr s
      = bind (start_all N entry (loaded t)) (\<lambda>_. bind (start_shell N entry (loaded t))
          (\<lambda>_. hal_panic (str ''kernel_main end reached.''))) t"
proof -
  from kernel_main_starts [OF boot free code] obtain t where
    t: "kernel_ready HAL_CONSOLE_VGA (kernel_end lay) (take 64 (all_regions m ts)) m (register_all L m ts []) t"
      "boot_calls lay boot_addr HAL_CONSOLE_VGA s = Some (Ok () t)"
    and run: "kernel_main False lay entry MULTIBOOT2_MAGIC boot_addr s
      = bind (start_all N entry (loaded t)) (\<lambda>_. bind (start_shell N entry (loaded t))
          (\<lambda>_. hal_panic (str ''kernel_main end reached.''))) t" by blast
  from boot_calls_view [OF t(2)] obtain u where
    u: "hal_console_init HAL_CONSOLE_VGA s = Some (Ok () u)" "console_view t = console_view u" .
  have "length (vram s) = VGA_ROWS * VGA_COLS" using boot(1) by (simp add: power_on_def)
  note init = hal_console_init_view [OF this free(2) u(1)]
  have "current_color t = boot_color" "typed t = typed (drained s)" "com2_bytes t = com2_bytes s"
    using init typed_view [OF u(2)] u(2) by (simp_all add: console_view_def)
  moreover have "on_display t"
    using t(1) by (auto simp: kernel_ready_def con_and_def arch_ready_def on_display_def con_inv_def on_serial_def)
  ultimately show thesis using that t(1) run by blast
qed

section \<open>Modules that run to their end\<close>

text \<open>
  From \<open>s\<close> to \<open>t\<close> nothing changed but the text on the screen and the states of the modules;
  \<open>polite\<close> programs return with no more than that.
\<close>

definition carries :: "'z kernel_scheme \<Rightarrow> 'z kernel_scheme \<Rightarrow> bool" where
  "carries s t \<longleftrightarrow> on_display t \<and> console_view t = console_view s \<and> length (modules t) = length (modules s)
     \<and> (off_display t)\<lparr>modules := []\<rparr> = (off_display s)\<lparr>modules := []\<rparr>"

definition polite :: "(unit, 'z kernel_scheme) prog \<Rightarrow> bool" where
  "polite m \<longleftrightarrow> (\<forall>s. on_display s \<and> length (modules s) = 16 \<longrightarrow> (\<exists>t. m s = Some (Ok () t) \<and> carries s t))"

named_theorems polite_intros

lemma carries_trans: "carries s t \<Longrightarrow> carries t u \<Longrightarrow> carries s u"
  by (simp add: carries_def)

lemma carriesD:
  assumes "carries s t" and "\<And>s. f ((off_display s)\<lparr>modules := []\<rparr>) = f s"
  shows "f t = f s"
  using assms(1) assms(2) [of s] assms(2) [of t] by (simp add: carries_def)

lemma politeE:
  assumes "polite m" and "on_display s" and "length (modules s) = 16"
  obtains t where "m s = Some (Ok () t)" and "carries s t"
  using assms by (auto simp: polite_def)

lemma polite_skip [polite_intros]: "polite skip" "polite (seq [])"
  by (simp_all add: polite_def skip_run carries_def)

lemma polite_seq [polite_intros]:
  assumes "polite m" and "polite (seq ms)"
  shows "polite (seq (m # ms))"
  unfolding polite_def
proof (intro allI impI)
  fix s :: "'a kernel_scheme" assume s: "on_display s \<and> length (modules s) = 16"
  then obtain t where t: "m s = Some (Ok () t)" "carries s t" using assms(1) by (blast elim: politeE)
  with s have "on_display t" "length (modules t) = 16" by (simp_all add: carries_def)
  from politeE [OF assms(2) this] obtain u where u: "seq ms t = Some (Ok () u)" "carries t u" .
  with t carries_trans show "\<exists>u. seq (m # ms) s = Some (Ok () u) \<and> carries s u"
    by (auto simp: bind_run)
qed

lemma polite_for_each [polite_intros]: "(\<And>x. x \<in> set xs \<Longrightarrow> polite (f x)) \<Longrightarrow> polite (for_each xs f)"
proof (induction xs)
  case (Cons x xs)
  then have "polite (seq [f x, for_each xs f])" by (intro polite_intros) auto
  then show ?case by simp
qed (simp add: polite_intros)

lemma polite_print [polite_intros]: "polite (hal_console_print (Lit xs))"
  unfolding polite_def
proof (intro allI impI)
  fix s :: "'a kernel_scheme" assume s: "on_display s \<and> length (modules s) = 16"
  then obtain t where t: "hal_console_print (Lit xs) s = Some (Ok () t)" "on_display t" "off_display t = off_display s"
    using display_for_each [of s] con_dev.print_Lit by metis
  have "console_view t = console_view s" "modules t = modules s"
    by (rule unchanged_OkD [OF unchanged_hal_console_print t(1)]; simp)+
  with t show "\<exists>t. hal_console_print (Lit xs) s = Some (Ok () t) \<and> carries s t" by (auto simp: carries_def)
qed

lemma polite_upd_module [polite_intros]: "i < 16 \<Longrightarrow> polite (upd_module i f)"
  by (auto simp: polite_def upd_module_def carries_def on_display_def vga_inv_def off_display_def)

lemma polite_start_all:
  assumes "length ms \<le> 16" and "\<And>x. x \<in> set ms \<Longrightarrow> startable N x \<Longrightarrow> polite (entry (mod_start x + HEADER_SIZE))"
  shows "polite (start_all N entry ms)"
  unfolding start_all_def announce_def start_as_def by (intro polite_intros) (use assms in auto)

section \<open>The shell of the table\<close>

text \<open>A module by its name, seen from the table.\<close>

definition info_named :: "headers \<Rightarrow> u8 list \<Rightarrow> module_info \<Rightarrow> bool" where
  "info_named N xs x \<longleftrightarrow> info_line x = xs \<or> info_header x \<noteq> 0 \<and> fst (N (info_header x)) = xs"

lemma named_info: "named N xs x = info_named N xs (module_info x)"
  by (simp add: named_def info_named_def module_info_def)

text \<open>The first module named \<open>COMMAND.KERN\<close> is the shell, when it has a header.\<close>

lemma shell_choice_first:
  assumes ms: "map module_info ms = before @ x # after" and x: "info_named N (lit ''COMMAND.KERN'') x" "info_header x \<noteq> 0"
    and before: "\<forall>b\<in>set before. \<not> info_named N (lit ''COMMAND.KERN'') b"
  shows "shell_choice N ms = Some (length before)" and "length before < length ms" and "module_info (ms ! length before) = x"
proof -
  show less: "length before < length ms" using arg_cong [OF ms, of length] by simp
  show at: "module_info (ms ! length before) = x"
    using arg_cong [OF ms, of "\<lambda>xs. xs ! length before"] less by simp
  have "first_index (info_named N xs) (map module_info ns) = first_index (named N xs) ns" for xs ns
    by (induction ns) (simp_all add: named_info)
  moreover have "first_index P (before @ x # after) = Some (length before)" if "P x" "\<forall>b\<in>set before. \<not> P b" for P
    using that by (induction before) simp_all
  ultimately have "first_index (named N (lit ''COMMAND.KERN'')) ms = Some (length before)"
    using x(1) before ms by metis
  moreover have "header (ms ! length before) \<noteq> 0" using at x(2) by (auto simp: module_info_def)
  ultimately show "shell_choice N ms = Some (length before)"
    by (simp add: shell_choice_def SHELLS_def List.map_filter_simps split: option.split)
qed

section \<open>The shell does not return\<close>

lemma shell_loop_no_return: "shell_loop kst load_cmd line s \<noteq> Some (Ok a t)"
proof -
  have "r \<noteq> Ok a t" if "shell_loop kst load_cmd line s = Some r" for r
    using that
  proof (rule shell_loop.raw_induct [where P = "\<lambda>kst load_cmd line s r. r \<noteq> Ok a t", rotated])
    fix rec kst load_cmd line s r
    assume IH: "\<And>kst load_cmd line s r. rec kst load_cmd line s = Some r \<Longrightarrow> r \<noteq> Ok a t"
      and eq: "bind (shell_round kst load_cmd line) (rec kst load_cmd) s = Some r"
    show "r \<noteq> Ok a t"
    proof
      assume "r = Ok a t"
      with eq obtain line' u where "rec kst load_cmd line' u = Some (Ok a t)"
        by (auto simp: bind_run split: option.splits outcome.splits)
      with IH show False by blast
    qed
  qed
  then show ?thesis by blast
qed

lemma module_main_no_return: "module_main kst run hook sp line s \<noteq> Some (Ok a t)"
  by (auto simp: module_main_def bind_run shell_loop_no_return skip_run simp del: lit_Cons
      split: option.splits outcome.splits)

section \<open>From power on to the session\<close>

lemma launch_split: "launch N entry i x = bind (seq [
     hal_console_print (Lit (0x0A # lit ''Launching '')),
     hal_console_print (Lit (fst (N (header x)))),
     hal_console_print (Lit (lit ''...'' @ [0x0A])),
     upd_module i (\<lambda>x. x\<lparr>state := MODULE_STATE_RUNNING\<rparr>)]) (\<lambda>_. entry (mod_start x + HEADER_SIZE))"
  by (simp add: launch_def start_as_def bind_assoc del: lit_Cons)

lemma power_on_shell:
  fixes s :: "'z shell_scheme"
  assumes boot: "power_on m s" "boot_addr \<noteq> 0" "tag_chain m (boot_addr + 8) ts" "\<forall>t\<in>set ts. tag_ok L m t"
      "case find (\<lambda>t. read_le m t 4 = MB2_TAG_CMDLINE) ts of
        Some t \<Rightarrow> denotes m (Ptr (t + 8)) line | None \<Rightarrow> True"
      "4096 \<le> unat (page_up (kernel_end lay))"
    and free: "chosen_console m ts line = HAL_CONSOLE_VGA" "keyboard_quiet s"
      "heap_room (kernel_end lay) (take 64 (all_regions m ts))"
    and code: "module_code N entry" "table_strings N m (register_all L m ts [])"
    and table: "register_all L m ts [] = before @ sh # after"
    and sh: "info_named N (lit ''COMMAND.KERN'') sh" "info_header sh \<noteq> 0" "\<forall>x\<in>set before. \<not> info_named N (lit ''COMMAND.KERN'') x"
    and others: "\<And>x. x \<in> set (before @ sh # after) \<Longrightarrow> \<forall>xs\<in>set SHELLS. \<not> info_named N xs x \<Longrightarrow> polite (entry (info_start x + HEADER_SIZE))"
    and shell: "entry (info_start sh + HEADER_SIZE) = module_main kernel_kst run hook sp buf"
  obtains w where "kernel_main False lay entry MULTIBOOT2_MAGIC boot_addr s = module_main kernel_kst run hook sp buf w"
    and "on_display w" and "typed w = typed (drained s)" and "term_clear (vga_abs w) = blank_screen"
    and "mem w = m" and "heap_inv w" and "heap_cur w = page_up (kernel_end lay)" and "com2_bytes w = com2_bytes s"
proof -
  from kernel_main_display [OF boot free code] obtain t where
    ready: "kernel_ready HAL_CONSOLE_VGA (kernel_end lay) (take 64 (all_regions m ts)) m (register_all L m ts []) t"
    and t: "on_display t" "current_color t = boot_color" "typed t = typed (drained s)" "com2_bytes t = com2_bytes s"
    and run: "kernel_main False lay entry MULTIBOOT2_MAGIC boot_addr s
      = bind (start_all N entry (loaded t)) (\<lambda>_. bind (start_shell N entry (loaded t))
          (\<lambda>_. hal_panic (str ''kernel_main end reached.''))) t" .
  let ?ms = "loaded t" and ?i = "length before"
  from ready have r: "mem t = m" "heap_inv t" "heap_cur t = page_up (kernel_end lay)" "modules_inv t" "infos t = before @ sh # after"
    by (simp_all add: kernel_ready_def con_and_def arch_ready_def machine_ready_def table)
  have sixteen: "length (modules t) = 16" "length ?ms \<le> 16" using modules_invD [OF r(4)] by simp_all
  note choice = shell_choice_first [OF r(5) [unfolded infos_def] sh]
  have i: "?i < 16" using choice(2) sixteen(2) by simp
  have mods: "polite (entry (mod_start x + HEADER_SIZE))" if "x \<in> set ?ms" "startable N x" for x
  proof -
    have "module_info x \<in> set (before @ sh # after)" using that(1) r(5) by (auto simp flip: r(5) simp: infos_def)
    moreover have "\<forall>xs\<in>set SHELLS. \<not> info_named N xs (module_info x)"
      using that(2) by (auto simp: startable_def is_shell_def named_info)
    ultimately show ?thesis using others [of "module_info x"] by (simp add: module_info_def)
  qed
  have "polite (start_all N entry ?ms)" by (rule polite_start_all [OF sixteen(2)]) (rule mods)
  from politeE [OF this t(1) sixteen(1)] obtain u where
    u: "start_all N entry ?ms t = Some (Ok () u)" "carries t u" .
  let ?pre = "seq [
     hal_console_print (Lit (0x0A # lit ''Launching '')),
     hal_console_print (Lit (fst (N (header (?ms ! ?i))))),
     hal_console_print (Lit (lit ''...'' @ [0x0A])),
     upd_module ?i (\<lambda>x. x\<lparr>state := MODULE_STATE_RUNNING\<rparr>)] :: (unit, 'z shell_scheme) prog"
  have "polite ?pre" by (intro polite_intros i)
  with u(2) sixteen(1) obtain w where w: "?pre u = Some (Ok () w)" "carries u w"
    by (auto simp: carries_def elim: politeE)
  note tw = carries_trans [OF u(2) w(2)]
  have "mod_start (?ms ! ?i) = info_start sh" using choice(3) by (auto simp: module_info_def)
  with choice(1) shell have start: "start_shell N entry ?ms = bind ?pre (\<lambda>_. module_main kernel_kst run hook sp buf)"
    by (simp add: start_shell_def launch_split)
  have "kernel_main False lay entry MULTIBOOT2_MAGIC boot_addr s
      = bind (module_main kernel_kst run hook sp buf) (\<lambda>_. hal_panic (str ''kernel_main end reached.'')) w"
    unfolding run start bind_assoc by (simp only: bind_run [of "start_all N entry ?ms"] u(1) option.case outcome.case bind_run [of ?pre] w(1))
  also have "\<dots> = module_main kernel_kst run hook sp buf w" by (rule bind_stuck) (rule module_main_no_return)
  finally have main: "kernel_main False lay entry MULTIBOOT2_MAGIC boot_addr s = module_main kernel_kst run hook sp buf w" .
  have view: "console_view w = console_view t" using tw by (simp add: carries_def)
  have "on_display w" "typed w = typed (drained s)" "current_color w = boot_color" "com2_bytes w = com2_bytes s"
    using tw typed_view [OF view] view t by (simp_all add: carries_def console_view_def)
  moreover have "mem w = m" "heap_cur w = page_up (kernel_end lay)" "heap_inv w"
    using carriesD [OF tw, of mem] carriesD [OF tw, of heap_cur] carriesD [OF tw, of heap_inv] r
    by (simp_all add: off_display_def heap_inv_def)
  ultimately show thesis using that main clear_blank by blast
qed

end
