(* ===== verification/Frames.thy ===== *)
theory Frames imports Pmm begin

text \<open>
  The page allocator over a whole session: any interleaving of requests and releases, with a
  ledger of the blocks that are held. The steps are those of a client that frees only what it
  was given; the invariant says that the ledger and the free frames partition what was free.
\<close>

type_synonym ledger = "(u64 \<times> u32) list"

inductive page_step :: "(u32 \<Rightarrow> (u64, 's) prog) \<Rightarrow> (u64 \<Rightarrow> u32 \<Rightarrow> (unit, 's) prog) \<Rightarrow> 's \<times> ledger \<Rightarrow> 's \<times> ledger \<Rightarrow> bool"
  for alloc dealloc where
  granted: "alloc n s = Some (Ok a t) \<Longrightarrow> a \<noteq> 0 \<Longrightarrow> page_step alloc dealloc (s, L) (t, (a, n) # L)"
| refused: "alloc n s = Some (Ok 0 t) \<Longrightarrow> page_step alloc dealloc (s, L) (t, L)"
| freed: "dealloc a n s = Some (Ok () t) \<Longrightarrow> page_step alloc dealloc (s, L @ (a, n) # M) (t, L @ M)"

inductive_cases page_stepE: "page_step alloc dealloc (s, L) (t, M)"

definition held :: "ledger \<Rightarrow> nat set" where
  "held L = (\<Union>(a, n)\<in>set L. block a n)"

definition apart :: "u64 \<times> u32 \<Rightarrow> u64 \<times> u32 \<Rightarrow> bool" where
  "apart b c \<longleftrightarrow> block (fst b) (snd b) \<inter> block (fst c) (snd c) = {}"

lemma held_simps [simp]:
  "held [] = {}" "held ((a, n) # L) = block a n \<union> held L" "held (L @ M) = held L \<union> held M"
  by (auto simp: held_def)

lemma apart_held: "(\<forall>b\<in>set L. apart b (a, n)) \<longleftrightarrow> held L \<inter> block a n = {}"
  by (induction L) (auto simp: apart_def Int_Un_distrib2)

lemma apart_commute: "apart b c = apart c b"
  by (auto simp: apart_def)

lemma held_memD: "(a, n) \<in> set L \<Longrightarrow> block a n \<subseteq> held L"
  by (auto simp: held_def)

definition in_books :: "('s \<Rightarrow> nat set) \<Rightarrow> ('s \<Rightarrow> bool) \<Rightarrow> nat set \<Rightarrow> 's \<times> ledger \<Rightarrow> bool" where
  "in_books free_set I F c \<longleftrightarrow> I (fst c) \<and> held (snd c) \<subseteq> F \<and> free_set (fst c) = F - held (snd c)
     \<and> sorted_wrt apart (snd c) \<and> (\<forall>(a, n)\<in>set (snd c). unat a mod 4096 = 0 \<and> 0 < unat n)"

locale page_session = page_allocator alloc dealloc free_set inv
  for alloc :: "u32 \<Rightarrow> (u64, 's) prog" and dealloc and free_set and inv +
  assumes free_bound: "free_set s \<subseteq> {..<max_frames}"
begin

lemma free_frames_range: "inv s \<Longrightarrow> free_set s \<subseteq> {1..<max_frames}"
  using free_bound [of s] zero_reserved [of s] by (auto simp: Suc_le_eq intro!: gr0I)

lemma alloc_refused: "inv s \<Longrightarrow> alloc n s = Some (Ok 0 t) \<Longrightarrow> t = s"
  using alloc_cases [of s n] zero_reserved [of s] by (auto simp: block_def)

lemma in_books_granted:
  assumes "in_books free_set inv F (s, L)" and "alloc n s = Some (Ok a t)" and "a \<noteq> 0"
  shows "in_books free_set inv F (t, (a, n) # L)"
proof -
  have s: "inv s" "free_set s = F - held L" using assms(1) by (simp_all add: in_books_def)
  from alloc_cases [OF s(1), of n] assms(2,3) have t: "inv t" "unat a mod 4096 = 0" "0 < unat n"
    "block a n \<subseteq> free_set s" "free_set t = free_set s - block a n" by auto
  then have "\<forall>b\<in>set L. apart (a, n) b"
    using s(2) apart_held [of L a n] by (auto simp: apart_commute [of "(a, n)"])
  with t s assms(1) show ?thesis by (auto simp: in_books_def)
qed

lemma in_books_freed:
  assumes books: "in_books free_set inv F (s, L @ (a, n) # M)" and F: "F \<subseteq> {1..<max_frames}"
  shows "\<exists>t. dealloc a n s = Some (Ok () t) \<and> in_books free_set inv F (t, L @ M)"
proof -
  have s: "inv s" "block a n \<subseteq> F" "free_set s = F - (held L \<union> block a n \<union> held M)"
    using books by (auto simp: in_books_def)
  from dealloc_block [OF s(1), of a n] s(2) F obtain t where
    t: "dealloc a n s = Some (Ok () t)" "inv t" "free_set t = free_set s \<union> block a n" by blast
  have "(\<forall>b\<in>set L. apart b (a, n)) \<and> (\<forall>b\<in>set M. apart b (a, n))"
    using books by (simp add: in_books_def sorted_wrt_append apart_commute [of _ "(a, n)"])
  then have "held L \<inter> block a n = {}" "held M \<inter> block a n = {}" by (simp_all only: apart_held)
  with s t have "free_set t = F - held (L @ M)" by auto
  moreover have "sorted_wrt apart (L @ M)" using books by (auto simp: in_books_def sorted_wrt_append)
  ultimately show ?thesis using t books by (auto simp: in_books_def)
qed

lemma page_step_books:
  assumes F: "F \<subseteq> {1..<max_frames}"
  shows "page_step alloc dealloc c d \<Longrightarrow> in_books free_set inv F c \<Longrightarrow> in_books free_set inv F d"
proof (induction rule: page_step.induct)
  case (granted n s a t L)
  then show ?case by (intro in_books_granted)
next
  case (refused n s t L)
  then have "t = s" by (intro alloc_refused) (simp_all add: in_books_def)
  with refused show ?case by simp
next
  case (freed a n s t L M)
  with in_books_freed [OF freed(2) F] show ?case by simp
qed

lemma page_steps_books:
  assumes "(page_step alloc dealloc)\<^sup>*\<^sup>* (s, []) c" and "inv s"
  shows "in_books free_set inv (free_set s) c"
  using assms(1)
proof (induction rule: rtranclp_induct)
  case base
  show ?case using assms(2) by (simp add: in_books_def)
next
  case (step c d)
  from page_step_books [OF free_frames_range [OF assms(2)] step(2,3)] show ?case .
qed

text \<open>No session gets stuck: each request is answered, and each block held can be freed.\<close>

lemma page_steps_progress:
  assumes "in_books free_set inv (free_set s) (t, L)" and "inv s"
  shows "\<exists>M u. page_step alloc dealloc (t, L) (u, M) \<and> (\<exists>a. alloc n t = Some (Ok a u))"
    and "(a, k) \<in> set L \<Longrightarrow> \<exists>u. dealloc a k t = Some (Ok () u)"
proof -
  have "inv t" using assms(1) by (simp add: in_books_def)
  from alloc_total [OF this, of n] obtain a u where "alloc n t = Some (Ok a u)" by blast
  then show "\<exists>M u. page_step alloc dealloc (t, L) (u, M) \<and> (\<exists>a. alloc n t = Some (Ok a u))"
    by (cases "a = 0") (auto intro: granted refused)
next
  assume "(a, k) \<in> set L"
  then obtain K M where "L = K @ (a, k) # M" by (meson split_list)
  with in_books_freed [of "free_set s" t K a k M] assms free_frames_range show "\<exists>u. dealloc a k t = Some (Ok () u)" by blast
qed

end

interpretation frames: page_session hal_mem_alloc_pages hal_mem_free_pages free_frames pmm_inv
  by (rule page_session.intro [OF pages.page_allocator_axioms], unfold_locales) (auto simp: free_frames_def)

end
