(* ===== verification/Elf_Safety.thy ===== *)
theory Elf_Safety imports Elf begin

text \<open>
  The loader on any image, however malformed: how it can end, and what it can reach. The copy and
  the fill stay inside the load window for every destination that passes the first check; as long
  as no segment lands on the headers, every outcome is explained by the headers of the image.
\<close>

section \<open>Reads and writes of memory only\<close>

text \<open>
  \<open>tame m\<close>: \<open>m\<close> changes nothing but memory, never halts or waits, raises no exception but those
  of a memory access, and is undefined only where there are resident addresses.
\<close>

fun tame_at :: "'z hw_scheme \<Rightarrow> ('a, 'z hw_scheme) outcome \<Rightarrow> bool" where
  "tame_at s (Ok a t) = (t = s\<lparr>mem := mem t\<rparr>)"
| "tame_at s (Trap v t) = (t = s\<lparr>mem := mem t\<rparr> \<and> v \<in> {13, 14})"
| "tame_at s Undef = (\<exists>a. resident s a)"
| "tame_at s (Halt t) = False"
| "tame_at s (Wait t) = False"

definition tame :: "('a, 'z hw_scheme) prog \<Rightarrow> bool" where
  "tame m \<longleftrightarrow> (\<forall>s r. m s = Some r \<longrightarrow> tame_at s r)"

named_theorems tame_intros

lemma tameI: "(\<And>s r. m s = Some r \<Longrightarrow> tame_at s r) \<Longrightarrow> tame m"
  by (simp add: tame_def)

lemma tameD: "tame m \<Longrightarrow> m s = Some r \<Longrightarrow> tame_at s r"
  by (simp add: tame_def)

lemma fault_vector_cases: "fault_vector a n \<in> {13, 14}"
  by (simp add: fault_vector_def)

lemma fault_vector_canonical: "fault_vector a 1 = (if canonical a then 14 else 13)"
  by (simp add: fault_vector_def)

lemma memory_update_resident: "t = s\<lparr>mem := m\<rparr> \<Longrightarrow> resident t = resident s"
  by simp

lemma tame_at_trans:
  assumes t: "t = s\<lparr>mem := mem t\<rparr>" and r: "tame_at t r"
  shows "tame_at s r"
proof -
  have "s\<lparr>mem := m\<rparr> = t\<lparr>mem := m\<rparr>" for m by (subst t) simp
  with r memory_update_resident [OF t] show ?thesis by (cases r) simp_all
qed

lemma tame_bind [tame_intros]:
  assumes m: "tame m" and k: "\<And>a. tame (k a)"
  shows "tame (bind m k)"
proof (rule tameI)
  fix s r assume run: "bind m k s = Some r"
  then obtain q where q: "m s = Some q" by (auto simp: bind_run split: option.splits)
  note at = tameD [OF m q]
  show "tame_at s r"
  proof (cases q)
    case (Ok a t)
    with run q have "k a t = Some r" by (simp add: bind_run)
    from tame_at_trans [OF _ tameD [OF k this]] at Ok show ?thesis by simp
  qed (use run q at in \<open>auto simp: bind_run\<close>)
qed

lemma tame_basic [tame_intros]: "tame (ret x)" "tame skip" "tame (load n a)" "tame (load8 a)" "tame (poke a b)"
  by (auto simp: tame_def ret_run skip_run load_def load8_def poke_def branch_run undef_run store8_def fault_vector_def
      split: if_splits)

lemma tame_if [tame_intros]: "tame m \<Longrightarrow> tame k \<Longrightarrow> tame (if c then m else k)"
  by simp

lemma tame_memory_helpers [tame_intros]: "tame (km_memcpy d a n)" "tame (km_memset d c n)"
proof -
  show "tame (km_memcpy d a n)" by (induction n arbitrary: d a) (auto intro!: tame_intros)
  show "tame (km_memset d c n)" by (induction n arbitrary: d) (auto intro!: tame_intros)
qed

lemma tame_load_segments: "tame (load_segments data sz i ld)"
proof (rule tameI)
  fix s :: "'z hw_scheme" and r assume "load_segments data sz i ld s = Some r"
  then show "tame_at s r"
  proof (rule load_segments.raw_induct [where P = "\<lambda>_ _ _ _ s r. tame_at s r", rotated])
    fix rec :: "u64 \<Rightarrow> u64 \<Rightarrow> u16 \<Rightarrow> bool \<Rightarrow> (u64, 'z hw_scheme) prog" and data sz i ld s r
    assume "\<And>data sz i ld s r. rec data sz i ld s = Some r \<Longrightarrow> tame_at s r"
    then have IH: "tame (rec data sz i ld)" for data sz i ld by (rule tameI)
    let ?b = "bind (e_phnum data) (\<lambda>phnum.
     if ucast i < phnum then
       bind (e_phoff data) (\<lambda>phoff. bind (e_phentsize data) (\<lambda>phentsize.
       let off = phoff + ucast i * phentsize in
       if off + PHDR_SIZE > sz then ret 0
       else bind (p_type (data + off)) (\<lambda>ty.
         if ty \<noteq> PT_LOAD then rec data sz (i + 1) ld
         else bind (load_segment data sz (data + off)) (\<lambda>ok.
           if ok then rec data sz (i + 1) True else ret 0))))
     else if ld then e_entry data else ret 0)"
    assume "?b s = Some r"
    moreover have "tame ?b"
      unfolding Let_def load_segment_def field_defs by (intro tame_intros IH)
    ultimately show "tame_at s r" by (blast intro: tameD)
  qed
qed

lemma tame_elf_load: "tame (elf_load data sz)"
  unfolding elf_load_def ehdr_ok_def field_defs by (intro tame_intros tame_load_segments)

section \<open>The copy and the fill stay in the window\<close>

text \<open>\<open>inside s t\<close>: from \<open>s\<close> to \<open>t\<close> only bytes of the load window changed, and no resident one.\<close>

definition inside :: "'z hw_scheme \<Rightarrow> 'z hw_scheme \<Rightarrow> bool" where
  "inside s t \<longleftrightarrow> t = s\<lparr>mem := mem t\<rparr>
     \<and> (\<forall>a. a < PROG_LOAD_MIN \<or> PROG_LOAD_MAX \<le> a \<or> resident s a \<longrightarrow> mem t a = mem s a)"

lemma inside_refl: "inside s s"
  by (simp add: inside_def)

lemma inside_resident: "inside s t \<Longrightarrow> resident t = resident s"
  unfolding inside_def by (blast intro: memory_update_resident)

lemma inside_trans:
  assumes st: "inside s t" and tu: "inside t u"
  shows "inside s u"
proof -
  have "u = t\<lparr>mem := mem u\<rparr>" "t = s\<lparr>mem := mem t\<rparr>" using st tu by (simp_all add: inside_def)
  then have "u = s\<lparr>mem := mem u\<rparr>" by (metis hw.fold_congs(1) hw.update_convs(1) hw.cases_scheme)
  with st tu inside_resident [OF st] show ?thesis by (simp add: inside_def)
qed

text \<open>
  What writing \<open>n\<close> bytes from \<open>d\<close> on comes to; \<open>src\<close> says that the bytes can be read.
\<close>

fun wrote_span :: "u64 \<Rightarrow> nat \<Rightarrow> bool \<Rightarrow> 'z hw_scheme \<Rightarrow> (unit, 'z hw_scheme) outcome \<Rightarrow> bool" where
  "wrote_span d n src s (Ok _ t) \<longleftrightarrow> inside s t \<and> (\<forall>x. unat x \<notin> span d n \<longrightarrow> mem t x = mem s x)
     \<and> (n = 0 \<or> unat d + n \<le> unat PROG_LOAD_MAX)"
| "wrote_span d n src s (Trap v t) \<longleftrightarrow> inside s t \<and> v \<in> {13, 14} \<and> (src \<longrightarrow> unat PROG_LOAD_MAX < unat d + n)"
| "wrote_span d n src s Undef \<longleftrightarrow> \<not> clear_of (resident s) d n"
| "wrote_span d n src s (Halt t) \<longleftrightarrow> False"
| "wrote_span d n src s (Wait t) \<longleftrightarrow> False"

lemma window_step:
  assumes "PROG_LOAD_MIN \<le> d" and "d < MAP_LIMIT"
  shows "unat (d + 1) = Suc (unat d)" and "PROG_LOAD_MIN \<le> d + 1" and "span d (Suc n) = insert (unat d) (span (d + 1) n)"
proof -
  show d: "unat (d + 1) = Suc (unat d)" using assms(2) by (simp add: word_less_nat_alt MAP_LIMIT_def unat_word_ariths)
  with assms(1) show "PROG_LOAD_MIN \<le> d + 1" by (simp add: word_le_nat_alt)
  show "span d (Suc n) = insert (unat d) (span (d + 1) n)" by (auto simp: span_def d)
qed

lemma wrote_span_step:
  assumes d: "PROG_LOAD_MIN \<le> d" "d < MAP_LIMIT" "\<not> resident s d"
    and r: "wrote_span (d + 1) n src' (s\<lparr>mem := (mem s)(d := b)\<rparr>) r" and src: "src \<Longrightarrow> src'"
  shows "wrote_span d (Suc n) src s r"
proof -
  note st = window_step [OF d(1,2)]
  have one: "inside s (s\<lparr>mem := (mem s)(d := b)\<rparr>)"
    using d by (auto simp: inside_def PROG_LOAD_MAX_def MAP_LIMIT_def)
  note trans = inside_trans [OF one]
  have max: "unat d < unat PROG_LOAD_MAX" using d(2) by (simp add: word_less_nat_alt PROG_LOAD_MAX_def MAP_LIMIT_def)
  show ?thesis
  proof (cases r)
    case (Ok x t)
    have "mem t x = mem s x" if "unat x \<notin> span d (Suc n)" for x
    proof -
      have "x \<noteq> d" "unat x \<notin> span (d + 1) n" using that by (auto simp: st(3))
      with r Ok show ?thesis by simp
    qed
    with r Ok trans max show ?thesis by (auto simp: st(1))
  next
    case Undef
    with r show ?thesis by (auto simp: clear_of_def st(3))
  qed (use r src trans in \<open>auto simp: st(1)\<close>)
qed

lemma poke_outside:
  assumes "\<not> d < MAP_LIMIT"
  shows "poke d b s = Some (Trap (fault_vector d 1) s)" and "wrote_span d (Suc n) src s (Trap (fault_vector d 1) s)"
proof -
  show "poke d b s = Some (Trap (fault_vector d 1) s)" using assms by (simp add: poke_def branch_run store8_def)
  have "unat PROG_LOAD_MAX \<le> unat d" using assms by (simp add: word_less_nat_alt PROG_LOAD_MAX_def MAP_LIMIT_def)
  then show "wrote_span d (Suc n) src s (Trap (fault_vector d 1) s)"
    using fault_vector_cases [of d 1] by (simp add: inside_refl)
qed

lemma poke_resident:
  assumes "d < MAP_LIMIT" and "resident s d"
  shows "poke d b s = Some Undef" and "wrote_span d (Suc n) src s Undef"
  using assms by (auto simp: poke_def branch_run undef_run clear_of_def span_def)

lemma km_memset_reach: "PROG_LOAD_MIN \<le> d \<Longrightarrow> \<exists>r. km_memset d c n s = Some r \<and> wrote_span d n True s r"
proof (induction n arbitrary: d s)
  case 0
  then show ?case by (simp add: skip_run inside_refl)
next
  case (Suc n)
  consider (out) "\<not> d < MAP_LIMIT" | (hit) "d < MAP_LIMIT" "resident s d" | (free) "d < MAP_LIMIT" "\<not> resident s d" by blast
  then show ?case
  proof cases
    case out
    then have "km_memset d c (Suc n) s = Some (Trap (fault_vector d 1) s)" by (simp add: bind_run poke_outside(1))
    with poke_outside(2) [OF out] show ?thesis by blast
  next
    case hit
    then show ?thesis using poke_resident [OF hit] by (simp add: bind_run)
  next
    case free
    from Suc.IH [OF window_step(2) [OF Suc.prems free(1)], of "s\<lparr>mem := (mem s)(d := c)\<rparr>"] obtain r where
      r: "km_memset (d + 1) c n (s\<lparr>mem := (mem s)(d := c)\<rparr>) = Some r"
        "wrote_span (d + 1) n True (s\<lparr>mem := (mem s)(d := c)\<rparr>) r" by blast
    have "km_memset d c (Suc n) s = Some r" using r(1) by (simp add: bind_run poke_run [OF free] del: fun_upd_apply)
    with wrote_span_step [OF Suc.prems free r(2)] show ?thesis by blast
  qed
qed

lemma km_memcpy_reach: "PROG_LOAD_MIN \<le> d \<Longrightarrow> \<exists>r. km_memcpy d a n s = Some r \<and> wrote_span d n (mapped a n) s r"
proof (induction n arbitrary: d a s)
  case 0
  then show ?case by (simp add: skip_run inside_refl)
next
  case (Suc n)
  consider (unread) "\<not> a < MAP_LIMIT" | (out) "a < MAP_LIMIT" "\<not> d < MAP_LIMIT" | (hit) "a < MAP_LIMIT" "d < MAP_LIMIT" "resident s d"
    | (free) "a < MAP_LIMIT" "d < MAP_LIMIT" "\<not> resident s d" by blast
  then show ?case
  proof cases
    case unread
    then have "\<not> mapped a (Suc n)" using mapped_Suc(1) by blast
    with unread fault_vector_cases [of a 1] show ?thesis by (simp add: bind_run load8_def inside_refl)
  next
    case out
    then have "km_memcpy d a (Suc n) s = Some (Trap (fault_vector d 1) s)" by (simp add: bind_run load8_run poke_outside(1))
    with poke_outside(2) [OF out(2)] show ?thesis by blast
  next
    case hit
    then show ?thesis using poke_resident [OF hit(2,3)] by (simp add: bind_run load8_run)
  next
    case free
    let ?s = "s\<lparr>mem := (mem s)(d := mem s a)\<rparr>"
    from Suc.IH [OF window_step(2) [OF Suc.prems free(2)], of "a + 1" ?s] obtain r where
      r: "km_memcpy (d + 1) (a + 1) n ?s = Some r" "wrote_span (d + 1) n (mapped (a + 1) n) ?s r" by blast
    have "km_memcpy d a (Suc n) s = Some r"
      using r(1) by (simp add: bind_run load8_run [OF free(1)] poke_run [OF free(2,3)] del: fun_upd_apply)
    with wrote_span_step [OF Suc.prems free(2,3) r(2), of "mapped a (Suc n)"] mapped_Suc(3) show ?thesis by blast
  qed
qed

section \<open>A segment of any header\<close>

text \<open>
  The bytes a header asks for, the larger of its two sizes, and the two ways past the check of
  the window: a start above it, for which the subtraction wraps, and a file part larger than
  the memory part, which is the one that is checked.
\<close>

definition extent_of :: "memory \<Rightarrow> u64 \<Rightarrow> nat" where
  "extent_of m ph = max (unat (filesz_of m ph)) (unat (memsz_of m ph))"

definition escapes :: "memory \<Rightarrow> u64 \<Rightarrow> bool" where
  "escapes m ph \<longleftrightarrow> PROG_LOAD_MAX < vaddr_of m ph \<or> memsz_of m ph < filesz_of m ph"

text \<open>
  \<open>w\<close> and \<open>z\<close> span all headers the loader can read; \<open>P\<close> is what a normal return promises and \<open>H\<close>
  selects the headers that may be to blame.
\<close>

fun reaches :: "('a \<Rightarrow> 'z hw_scheme \<Rightarrow> bool) \<Rightarrow> memory \<Rightarrow> u64 set \<Rightarrow> 'z hw_scheme \<Rightarrow> ('a, 'z hw_scheme) outcome \<Rightarrow> bool" where
  "reaches P m H s (Ok a t) \<longleftrightarrow> inside s t \<and> P a t"
| "reaches P m H s (Trap v t) \<longleftrightarrow> inside s t \<and> v \<in> {13, 14} \<and> (\<exists>ph\<in>H. escapes m ph)"
| "reaches P m H s Undef \<longleftrightarrow> (\<exists>ph\<in>H. \<not> clear_of (resident s) (vaddr_of m ph) (extent_of m ph))"
| "reaches P m H s (Halt t) \<longleftrightarrow> False"
| "reaches P m H s (Wait t) \<longleftrightarrow> False"

lemma reaches_trans:
  assumes t: "inside s t" and r: "reaches P m H t r"
  shows "reaches P m H s r"
  using r inside_trans [OF t] by (cases r) (simp_all add: inside_resident [OF t])

lemma reaches_mono: "reaches P m {ph} s r \<Longrightarrow> ph \<in> H \<Longrightarrow> (\<And>a t. P a t \<Longrightarrow> Q a t) \<Longrightarrow> reaches Q m H s r"
  by (cases r) auto

lemma window_check:
  assumes "\<not> PROG_LOAD_MAX - v < n" and "\<not> PROG_LOAD_MAX < v"
  shows "unat v + unat n \<le> unat PROG_LOAD_MAX"
proof -
  have "unat (PROG_LOAD_MAX - v) = unat PROG_LOAD_MAX - unat v" "unat v \<le> unat PROG_LOAD_MAX"
    using assms(2) by (simp_all add: unat_sub_le word_le_nat_alt not_less)
  with assms(1) show ?thesis by (simp add: word_less_nat_alt)
qed

text \<open>The copy, and then the fill behind it, of a header \<open>v\<close>, \<open>f\<close>, \<open>n\<close> that passed the checks.\<close>

lemma copy_reach:
  assumes v: "PROG_LOAD_MIN \<le> vaddr_of m ph" and n: "\<not> PROG_LOAD_MAX - vaddr_of m ph < memsz_of m ph"
    and src: "mapped a (unat (filesz_of m ph))"
  shows "\<exists>r. km_memcpy (vaddr_of m ph) a (unat (filesz_of m ph)) s = Some r
    \<and> reaches (\<lambda>_ t. (\<forall>x. unat x \<notin> span (vaddr_of m ph) (extent_of m ph) \<longrightarrow> mem t x = mem s x)
        \<and> (filesz_of m ph = 0 \<or> unat (vaddr_of m ph) + unat (filesz_of m ph) \<le> unat PROG_LOAD_MAX)) m {ph} s r"
proof -
  let ?v = "vaddr_of m ph" and ?f = "filesz_of m ph" and ?n = "memsz_of m ph"
  from km_memcpy_reach [OF v] obtain r where r: "km_memcpy ?v a (unat ?f) s = Some r"
    "wrote_span ?v (unat ?f) (mapped a (unat ?f)) s r" by blast
  have sub: "span ?v (unat ?f) \<subseteq> span ?v (extent_of m ph)" by (auto simp: span_def extent_of_def)
  have esc: "escapes m ph" if "unat PROG_LOAD_MAX < unat ?v + unat ?f"
  proof (cases "PROG_LOAD_MAX < ?v")
    case False
    from window_check [OF n this] that show ?thesis by (simp add: escapes_def word_less_nat_alt)
  qed (simp add: escapes_def)
  have "\<not> clear_of (resident s) ?v (extent_of m ph)" if "\<not> clear_of (resident s) ?v (unat ?f)"
    using that clear_of_subset [OF _ sub] by blast
  with r(2) sub esc src have "reaches (\<lambda>_ t. (\<forall>x. unat x \<notin> span ?v (extent_of m ph) \<longrightarrow> mem t x = mem s x)
        \<and> (?f = 0 \<or> unat ?v + unat ?f \<le> unat PROG_LOAD_MAX)) m {ph} s r"
    by (cases r) (auto simp: unat_eq_0)
  with r(1) show ?thesis by blast
qed

lemma fill_reach:
  assumes v: "PROG_LOAD_MIN \<le> vaddr_of m ph" and n: "\<not> PROG_LOAD_MAX - vaddr_of m ph < memsz_of m ph"
    and f: "filesz_of m ph < memsz_of m ph"
    and c: "filesz_of m ph = 0 \<or> unat (vaddr_of m ph) + unat (filesz_of m ph) \<le> unat PROG_LOAD_MAX"
  shows "\<exists>r. km_memset (vaddr_of m ph + filesz_of m ph) 0 (unat (memsz_of m ph - filesz_of m ph)) s = Some r
    \<and> reaches (\<lambda>_ t. \<forall>x. unat x \<notin> span (vaddr_of m ph) (extent_of m ph) \<longrightarrow> mem t x = mem s x) m {ph} s r"
proof -
  let ?v = "vaddr_of m ph" and ?f = "filesz_of m ph" and ?n = "memsz_of m ph"
  have d: "unat (?v + ?f) = unat ?v + unat ?f"
  proof (cases "?f = 0")
    case False
    with c have "unat ?v + unat ?f < 2 ^ 64" by (simp add: PROG_LOAD_MAX_def)
    then show ?thesis by (simp add: unat_word_ariths)
  qed simp
  have k: "unat (?n - ?f) = unat ?n - unat ?f" "unat ?f < unat ?n"
    using f by (simp_all add: unat_sub_le word_less_nat_alt order_less_imp_le)
  have "PROG_LOAD_MIN \<le> ?v + ?f" using v by (simp add: word_le_nat_alt d)
  from km_memset_reach [OF this] obtain r where r: "km_memset (?v + ?f) 0 (unat (?n - ?f)) s = Some r"
    "wrote_span (?v + ?f) (unat (?n - ?f)) True s r" by blast
  have sub: "span (?v + ?f) (unat (?n - ?f)) \<subseteq> span ?v (extent_of m ph)" using k(2) by (auto simp: span_def d k(1) extent_of_def)
  have esc: "escapes m ph" if "unat PROG_LOAD_MAX < unat (?v + ?f) + unat (?n - ?f)"
  proof (rule ccontr)
    assume "\<not> escapes m ph"
    then have "\<not> PROG_LOAD_MAX < ?v" by (simp add: escapes_def)
    from window_check [OF n this] that k(2) show False by (simp add: d k(1))
  qed
  have "\<not> clear_of (resident s) ?v (extent_of m ph)" if "\<not> clear_of (resident s) (?v + ?f) (unat (?n - ?f))"
    using that clear_of_subset [OF _ sub] by blast
  with r(2) sub esc have "reaches (\<lambda>_ t. \<forall>x. unat x \<notin> span ?v (extent_of m ph) \<longrightarrow> mem t x = mem s x) m {ph} s r"
    by (cases r) auto
  with r(1) show ?thesis by blast
qed

lemma load_segment_reach:
  assumes map: "mapped data (unat sz)" and W: "mapped w z" and k: "k + 56 \<le> z" and ag: "agree m (mem s) w z"
    and ph: "ph = w + of_nat k" and apart: "span (vaddr_of m ph) (extent_of m ph) \<inter> span w z = {}"
  shows "\<exists>r. load_segment data sz ph s = Some r \<and> reaches (\<lambda>_ t. agree m (mem t) w z) m {ph} s r"
proof -
  let ?v = "vaddr_of m ph" and ?f = "filesz_of m ph" and ?n = "memsz_of m ph" and ?o = "offset_of m ph"
  let ?R = "reaches (\<lambda>_ t. agree m (mem t) w z) m {ph} s :: (bool, 'a hw_scheme) outcome \<Rightarrow> bool"
  note f = phdr_fields [OF W k ag ph]
  show ?thesis
  proof (cases "?v < PROG_LOAD_MIN \<or> PROG_LOAD_MAX - ?v < ?n \<or> sz < ?f \<or> sz - ?f < ?o")
    case True
    then have "load_segment data sz ph s = Some (Ok False s)"
      by (auto simp: load_segment_def bind_run f ret_run)
    with ag show ?thesis by (simp add: inside_refl)
  next
    case False
    then have v: "PROG_LOAD_MIN \<le> ?v" and n: "\<not> PROG_LOAD_MAX - ?v < ?n" by (simp_all add: not_less)
    have f': "?f \<le> sz" and "?o \<le> sz - ?f" using False by (simp_all add: not_less)
    then have "unat ?f \<le> unat sz" "unat ?o \<le> unat sz - unat ?f"
      by (simp_all add: word_le_nat_alt unat_sub_le [OF f'])
    then have "mapped (data + of_nat (unat ?o)) (unat ?f)" by (intro mapped_offset [OF map]) simp
    then have src: "mapped (data + ?o) (unat ?f)" by simp
    from copy_reach [OF v n src, of s] obtain r where r: "km_memcpy ?v (data + ?o) (unat ?f) s = Some r"
      "reaches (\<lambda>_ t. (\<forall>x. unat x \<notin> span ?v (extent_of m ph) \<longrightarrow> mem t x = mem s x)
        \<and> (?f = 0 \<or> unat ?v + unat ?f \<le> unat PROG_LOAD_MAX)) m {ph} s r" by blast
    let ?rest = "bind (p_memsz ph) (\<lambda>memsz. bind (p_filesz ph) (\<lambda>filesz.
     bind (if memsz > filesz
       then bind (p_vaddr ph) (\<lambda>vaddr. km_memset (vaddr + filesz) 0 (unat (memsz - filesz)))
       else skip) (\<lambda>_. ret True))) :: (bool, 'a hw_scheme) prog"
    have load: "load_segment data sz ph s = bind (\<lambda>_. Some r) (\<lambda>_. ?rest) s"
      using False r(1) by (simp add: load_segment_def bind_run f)
    have keep: "agree m (mem u) w z" if "agree m (mem t) w z" "\<forall>x. unat x \<notin> span ?v (extent_of m ph) \<longrightarrow> mem u x = mem t x" for t u
      using that apart by (auto simp: agree_def)
    show ?thesis
    proof (cases r)
      case (Ok x t)
      with r(2) keep [OF ag] have t: "inside s t" "agree m (mem t) w z"
        and c: "?f = 0 \<or> unat ?v + unat ?f \<le> unat PROG_LOAD_MAX" by auto
      note g = phdr_fields [OF W k t(2) ph]
      have "\<exists>q. ?rest t = Some q \<and> reaches (\<lambda>_ t. agree m (mem t) w z) m {ph} t q"
      proof (cases "?f < ?n")
        case True
        from fill_reach [OF v n True c, of t] obtain q where
          q: "km_memset (?v + ?f) 0 (unat (?n - ?f)) t = Some q"
            "reaches (\<lambda>_ u. \<forall>x. unat x \<notin> span ?v (extent_of m ph) \<longrightarrow> mem u x = mem t x) m {ph} t q" by blast
        have "agree m (mem u) w z" if "q = Ok () u" for u
          by (rule keep [OF t(2)]) (use q(2) that in simp)
        with q True show ?thesis by (cases q) (simp_all add: bind_run g ret_run)
      next
        case False
        then show ?thesis using t(2) by (simp add: bind_run g skip_run ret_run inside_refl)
      qed
      with load Ok reaches_trans [OF t(1)] show ?thesis by (auto simp: bind_run)
    qed (use r(2) load in \<open>auto simp: bind_run\<close>)
  qed
qed

section \<open>The loader on any image\<close>

text \<open>
  All headers the loader can read: those of the image, and, because the check of the header
  table wraps around too, those that start up to 56 bytes in front of it.
\<close>

definition headers_apart :: "memory \<Rightarrow> u64 \<Rightarrow> nat \<Rightarrow> bool" where
  "headers_apart m data sz \<longleftrightarrow> (\<forall>ph\<in>set (load_phdrs m data).
     span (vaddr_of m ph) (extent_of m ph) \<inter> span (data - 56) (sz + 56) = {})"

lemma header_window:
  assumes "mapped data sz" and "56 \<le> unat data"
  shows "unat (data - 56) = unat data - 56" and "mapped (data - 56) (sz + 56)" and "span data sz \<subseteq> span (data - 56) (sz + 56)"
proof -
  have "(56 :: u64) \<le> data" using assms(2) by (simp add: word_le_nat_alt)
  then show w: "unat (data - 56) = unat data - 56" by (simp add: unat_sub_le)
  show "mapped (data - 56) (sz + 56)" using assms by (simp add: mapped_def w)
  show "span data sz \<subseteq> span (data - 56) (sz + 56)" using assms(2) by (auto simp: span_def w)
qed

lemma agree_subset: "agree m m' b k \<Longrightarrow> span a n \<subseteq> span b k \<Longrightarrow> agree m m' a n"
  by (auto simp: agree_def)

lemma load_segments_reach:
  assumes map: "mapped data (unat sz)" "56 \<le> unat data" "64 \<le> unat sz" and apart: "headers_apart m data (unat sz)"
    and ag: "agree m (mem s) (data - 56) (unat sz + 56)"
  shows "\<exists>r. load_segments data sz i ld s = Some r
    \<and> reaches (\<lambda>e t. e \<in> {0, entry_of m data}) m (set (load_phdrs m data)) s r"
  using ag
proof (induction "2 ^ 16 - unat i" arbitrary: i ld s rule: less_induct)
  case less
  let ?H = "set (load_phdrs m data)" and ?num = "read_le m (data + 56) 2"
  let ?off = "read_le m (data + 32) 8 + ucast i * read_le m (data + 54) 2" and ?ph = "phdr m data (unat i)"
  note W = header_window [OF map(1,2)]
  note f = ehdr_fields [OF map(1,3) agree_subset [OF less.prems W(3)]]
  have "ucast i = (of_nat (unat i) :: u64)" by simp
  then have ph: "data + ?off = ?ph" by (simp add: phdr_def phdr_off_def)
  show ?case
  proof (cases "ucast i < ?num \<and> \<not> ?off + PHDR_SIZE > sz")
    case False
    then have "load_segments data sz i ld s = Some (Ok (if ucast i < ?num then 0 else if ld then entry_of m data else 0) s)"
      by (subst load_segments.simps) (auto simp: bind_run f Let_def ret_run)
    then show ?thesis by (simp add: inside_refl)
  next
    case True
    define k where "k = unat (?off + PHDR_SIZE)"
    have k: "k + 56 \<le> unat sz + 56" using True by (simp add: k_def word_le_nat_alt not_less)
    have "data - 56 + of_nat k = data + ?off" by (simp add: k_def PHDR_SIZE_def)
    then have at: "?ph = data - 56 + of_nat k" using ph by simp
    have lt: "unat i < phnum_of m data" using True by (simp add: phnum_of_def word_less_nat_alt unat_ucast_up)
    then have "unat i < 2 ^ 16 - 1" using read_le_bound [of m "data + 56" 2] by (simp add: phnum_of_def)
    then have dec: "2 ^ 16 - unat (i + 1) < (2 :: nat) ^ 16 - unat i" by (simp add: unat_word_ariths)
    have step: "load_segments data sz i ld s =
      (if read_le m ?ph 4 \<noteq> PT_LOAD then load_segments data sz (i + 1) ld s
       else bind (load_segment data sz ?ph) (\<lambda>ok. if ok then load_segments data sz (i + 1) True else ret 0) s)"
      using True by (subst load_segments.simps) (simp add: bind_run f Let_def ph phdr_fields(1) [OF W(2) k less.prems at])
    show ?thesis
    proof (cases "read_le m ?ph 4 = PT_LOAD")
      case False
      with step less.hyps [OF dec less.prems] show ?thesis by simp
    next
      case load: True
      then have H: "?ph \<in> ?H" using lt by (simp add: load_phdrs_def)
      with apart have "span (vaddr_of m ?ph) (extent_of m ?ph) \<inter> span (data - 56) (unat sz + 56) = {}"
        by (simp add: headers_apart_def)
      from load_segment_reach [OF map(1) W(2) k less.prems at this] obtain r where r: "load_segment data sz ?ph s = Some r"
        "reaches (\<lambda>_ t. agree m (mem t) (data - 56) (unat sz + 56)) m {?ph} s r" by blast
      show ?thesis
      proof (cases r)
        case (Ok ok t)
        with r(2) have t: "inside s t" "agree m (mem t) (data - 56) (unat sz + 56)" by simp_all
        have "load_segments data sz i ld s = (if ok then load_segments data sz (i + 1) True t else Some (Ok 0 t))"
          using step load r(1) Ok by (simp add: bind_run ret_run)
        with less.hyps [OF dec t(2), of True] reaches_trans [OF t(1)] t(1) show ?thesis by (cases ok) auto
      qed (use r step load H in \<open>auto simp: bind_run\<close>)
    qed
  qed
qed

lemma elf_load_reach:
  assumes map: "mapped data (unat sz)" "56 \<le> unat data" and apart: "headers_apart (mem s) data (unat sz)"
  shows "\<exists>r. elf_load data sz s = Some r
    \<and> reaches (\<lambda>e t. e \<in> {0, entry_of (mem s) data}) (mem s) (set (load_phdrs (mem s) data)) s r"
proof (cases "unat sz < 64")
  case True
  then show ?thesis by (simp add: elf_load_def EHDR_SIZE_def word_less_nat_alt ret_run inside_refl)
next
  case False
  then have sz: "64 \<le> unat sz" by simp
  note f = ehdr_fields [where m = "mem s" and s = s, OF map(1) sz agree_refl]
  have "ehdr_ok data s \<in> {Some (Ok True s), Some (Ok False s)}"
    using f(1) [of 0] f(1) [of 1] f(1) [of 2] f(1) [of 3] f(1) [of 4]
    by (simp add: ehdr_ok_def e_ident_def EI_CLASS_def bind_run f ret_run)
  then obtain ok where "ehdr_ok data s = Some (Ok ok s)" by blast
  with load_segments_reach [OF map sz apart agree_refl, of 0 False] sz show ?thesis
    by (cases ok) (simp_all add: elf_load_def bind_run ret_run EHDR_SIZE_def word_less_nat_alt inside_refl)
qed

section \<open>A segment over its own header\<close>

text \<open>
  The fill reads the header again. When the copy has just written over it, the values that were
  checked are not those that are used.
\<close>

lemma load_segment_rereads:
  assumes map: "mapped data (unat sz)" and k: "k + 56 \<le> unat sz" and ph: "ph = data + of_nat k"
    and checks: "PROG_LOAD_MIN \<le> vaddr_of (mem s) ph" "memsz_of (mem s) ph \<le> PROG_LOAD_MAX - vaddr_of (mem s) ph"
      "unat (offset_of (mem s) ph) + unat (filesz_of (mem s) ph) \<le> unat sz"
    and copy: "mapped (vaddr_of (mem s) ph) (unat (filesz_of (mem s) ph))"
      "span (vaddr_of (mem s) ph) (unat (filesz_of (mem s) ph)) \<inter> span (data + offset_of (mem s) ph) (unat (filesz_of (mem s) ph)) = {}"
      "clear_of (resident s) (vaddr_of (mem s) ph) (unat (filesz_of (mem s) ph))"
    and c: "c = copied (mem s) (data + offset_of (mem s) ph) (mem s) (vaddr_of (mem s) ph) (unat (filesz_of (mem s) ph))"
    and fill: "filesz_of c ph < memsz_of c ph" "mapped (vaddr_of c ph + filesz_of c ph) (unat (memsz_of c ph - filesz_of c ph))"
      "clear_of (resident s) (vaddr_of c ph + filesz_of c ph) (unat (memsz_of c ph - filesz_of c ph))"
  shows "load_segment data sz ph s
    = Some (Ok True (s\<lparr>mem := filled c (vaddr_of c ph + filesz_of c ph) 0 (unat (memsz_of c ph - filesz_of c ph))\<rparr>))"
proof -
  let ?v = "vaddr_of (mem s) ph" and ?f = "filesz_of (mem s) ph" and ?o = "offset_of (mem s) ph"
  have fs: "?f \<le> sz" using checks(3) by (simp add: word_le_nat_alt)
  have "unat ?o \<le> unat (sz - ?f)" using checks(3) by (simp add: unat_sub_le [OF fs])
  then have os: "?o \<le> sz - ?f" by (simp add: word_le_nat_alt)
  have "mapped (data + of_nat (unat ?o)) (unat ?f)" using checks(3) by (intro mapped_offset [OF map]) simp
  then have cp: "km_memcpy ?v (data + ?o) (unat ?f) s = Some (Ok () (s\<lparr>mem := c\<rparr>))"
    unfolding c by (intro km_memcpy_run copy) simp
  note fields = phdr_fields [OF map k agree_refl ph, of s] phdr_fields [where s = "s\<lparr>mem := c\<rparr>" and m = c, OF map k _ ph, simplified]
  show ?thesis
    using checks(1,2) fs os fill(1) km_memset_run [of _ _ "s\<lparr>mem := c\<rparr>" 0, OF fill(2)] fill(3)
    by (simp add: load_segment_def bind_run fields cp ret_run not_less)
qed

end
