(* ===== verification/Samples.thy ===== *)
theory Samples imports Demos Newlib Load_Command Power_On Frames Elf_Safety begin

text \<open>
  Concrete machines: the state at power on with a given memory, and memories that hold a boot
  information structure and a program image.
\<close>

definition machine :: "memory \<Rightarrow> libc" where
  "machine m = \<lparr>mem = m, port_in = (\<lambda>_. []), port_out = [], intr_enabled = True,
     resident = (\<lambda>a. 0x100000 \<le> a \<and> a < 0x200000),
     vram = replicate (VGA_ROWS * VGA_COLS) 0, buffer = VGA_BUFFER, cursor_row = 0, cursor_col = 0, current_color = 0x07,
     shift_held = False, extended = False,
     active_console = HAL_CONSOLE_VGA, mem_map = replicate 64 \<lparr>base = 0, length_of = 0, type_of = 0\<rparr>, mem_map_count = 0,
     bitmap = replicate (max_frames div 8) 0xFF, total_frames = 0,
     heap_base = 0x200000, heap_cur = 0x200000, heap_limit = 0x600000,
     idt = replicate 256 (make_gate 0 0), kernel_tss = \<lparr>ist1 = 0, iopb_offset = 0\<rparr>, kernel_gdt = initial_gdt,
     gdt_ptr = \<lparr>ptr_limit = 0, ptr_base = 0\<rparr>, idt_ptr = \<lparr>ptr_limit = 0, ptr_base = 0\<rparr>, exc_hook = 0,
     gdtr = \<lparr>ptr_limit = 0, ptr_base = 0\<rparr>, task_register = 0, idtr = \<lparr>ptr_limit = 0, ptr_base = 0\<rparr>,
     modules = replicate 16 \<lparr>mod_start = 0, mod_end = 0, cmdline = replicate 64 0, state = MODULE_STATE_ABSENT, header = 0\<rparr>,
     mod_count = 0,
     com2_initialized = False, exc_caught = False, exc_vec = 0, exc_rip = 0, exc_err = 0, exc_restore_rsp = 0,
     errno = None\<rparr>"

lemma machine_mem [simp]: "mem (machine m) = m"
  by (simp add: machine_def)

text \<open>The kernel image and its stack are the second megabyte.\<close>

lemma machine_resident: "clear_of (resident (machine m)) a n" if "0x200000 \<le> unat a"
proof -
  have "\<not> resident (machine m) x" if "unat x \<in> span a n" for x
    using that \<open>0x200000 \<le> unat a\<close> by (simp add: machine_def span_def word_less_nat_alt)
  then show ?thesis by (simp add: clear_of_def)
qed

lemma clear_of_empty: "clear_of K a 0"
  by (simp add: clear_of_def span_def)

lemma machine_display: "vga_inv (machine m)" "on_display (machine m)" "con_inv (machine m)"
  by (simp_all add: machine_def vga_inv_def on_display_def con_inv_def VGA_ROWS_def VGA_COLS_def)

lemma machine_tables: "tables_ok (machine m)" "bitmap_ok (machine m)" "modules_inv (machine m)" "mem_map_inv (machine m)"
  by (simp_all add: machine_def tables_ok_def initial_gdt_def bitmap_ok_def modules_inv_def mem_map_inv_def)

lemma machine_power_on: "power_on m (machine m)"
  using machine_tables [of m] by (simp add: power_on_def) (simp add: machine_def)

text \<open>The same machine with a keyboard controller that has nothing to say.\<close>

definition quiet_machine :: "memory \<Rightarrow> libc" where
  "quiet_machine m = (machine m)\<lparr>port_in := (\<lambda>_. [])(KBD_STATUS := [0])\<rparr>"

lemma quiet_machine_ok: "power_on m (quiet_machine m)" "keyboard_quiet (quiet_machine m)"
  using machine_power_on [of m]
  by (simp_all add: quiet_machine_def power_on_def tables_ok_def bitmap_ok_def modules_inv_def keyboard_quiet_def)

lemma machine_heap: "heap_inv (machine m)"
  by (simp add: machine_def heap_inv_def)

text \<open>
  A memory map with one usable region, a module named \<open>hello\<close> and the end tag; the image of the
  module starts with its header.
\<close>

definition boot_info :: memory where
  "boot_info = (\<lambda>_. 0)(
     0x1000 := 0x50,
     0x1008 := 6, 0x100C := 40, 0x1010 := 24,
     0x1023 := 8, 0x1028 := 1,
     0x1030 := 3, 0x1034 := 22, 0x103A := 0x30, 0x103D := 0x10, 0x103E := 0x30,
     0x1040 := 0x68, 0x1041 := 0x65, 0x1042 := 0x6C, 0x1043 := 0x6C, 0x1044 := 0x6F,
     0x104C := 8,
     0x300000 := 0x4D, 0x300001 := 0x53, 0x300002 := 0x4F, 0x300003 := 0x44,
     0x300004 := 0x68, 0x300005 := 0x65, 0x300006 := 0x6C, 0x300007 := 0x6C, 0x300008 := 0x6F,
     0x300024 := 0x31)"

lemma read_le_four: "read_le m a 4 = ucast (m a) OR push_bit 8 (ucast (m (a + 1)) OR push_bit 8 (ucast (m (a + 2)) OR push_bit 8 (ucast (m (a + 3)))))"
  by (simp add: eval_nat_numeral add.assoc)

lemma read_le_add: "read_le m a (i + j) = read_le m a i OR push_bit (8 * i) (read_le m (a + of_nat i) j)"
  by (induction i arbitrary: a) (simp_all add: push_bit_or push_bit_push_bit or.assoc algebra_simps)

lemma read_le_eight: "read_le m a 8 = read_le m a 4 OR push_bit 32 (read_le m (a + 4) 4)"
  using read_le_add [of m a 4 4] by simp

lemma boot_info_fields:
  "read_le boot_info 0x1008 4 = 6" "read_le boot_info 0x100C 4 = 40" "read_le boot_info 0x1010 4 = 24"
  "read_le boot_info 0x1030 4 = 3" "read_le boot_info 0x1034 4 = 22" "read_le boot_info 0x1038 4 = 0x300000"
  "read_le boot_info 0x103C 4 = 0x301000" "read_le boot_info 0x1048 4 = 0"
  by (simp_all add: boot_info_def read_le_four)

lemma boot_info_header: "read_le boot_info 0x300000 4 = 0x444F534D"
  by (simp add: boot_info_def read_le_four)

lemma boot_info_region: "region_at boot_info 0x1018 = \<lparr>base = 0, length_of = 0x8000000, type_of = 1\<rparr>"
  by (simp add: region_at_def read_le_eight read_le_four) (simp add: boot_info_def)

lemma boot_info_table: "registers 0x300000 0x301000 (lit ''hello'') boot_info []
    = [\<lparr>info_start = 0x300000, info_end = 0x301000, info_line = lit ''hello'', info_state = MODULE_STATE_LOADED, info_header = 0x300000\<rparr>]"
  by (simp add: registers_def new_info_def MODULE_MAGIC_def boot_info_header)

lemma boot_info_chain: "tag_chain boot_info 0x1008 [0x1008, 0x1030]"
  by (simp add: boot_info_fields mapped_def MAP_LIMIT_def mb2_tag_defs tag_step_def)

lemma boot_info_ok: "\<forall>t\<in>set [0x1008, 0x1030]. tag_ok (\<lambda>_. lit ''hello'') boot_info t"
  by (simp add: tag_ok_def mmap_ok_def tag_size_def entry_size_def boot_info_fields mapped_def MAP_LIMIT_def mb2_tag_defs)
    (simp add: boot_info_def MAP_LIMIT_def)

text \<open>A machine whose memory map has one region, and one with eight free frames.\<close>

definition mapped_machine :: libc where
  "mapped_machine = (machine boot_info)\<lparr>mem_map := \<lparr>base = 0, length_of = 0x8000000, type_of = 1\<rparr>
       # replicate 63 \<lparr>base = 0, length_of = 0, type_of = 0\<rparr>,
     mem_map_count := 1\<rparr>"

definition framed_machine :: libc where
  "framed_machine = (machine boot_info)\<lparr>bitmap := (replicate (max_frames div 8) 0xFF)[1 := 0], total_frames := 16\<rparr>"

lemma mapped_machine_ok: "mem_map_inv mapped_machine" "bitmap_ok mapped_machine"
  "regions mapped_machine = [\<lparr>base = 0, length_of = 0x8000000, type_of = 1\<rparr>]"
  by (simp_all add: mapped_machine_def mem_map_inv_def bitmap_ok_def regions_def machine_def)

lemma sample_usable_frames: "usable_frames [\<lparr>base = 0, length_of = 0x8000000, type_of = 1\<rparr>] 0x200000 = {512..<32768}"
proof -
  have "region_frames \<lparr>base = 0, length_of = 0x8000000, type_of = 1\<rparr> = {0..<32768}" "page_frames 0 512 = {0..<512}"
    by (auto simp: region_frames_def page_frames_small page_up_def page_down_def PAGE_SIZE_def max_frames_def)
  moreover have "unat (page_up 0x200000) div 4096 = 512" by (simp add: page_up_def PAGE_SIZE_def)
  moreover have "{0..<32768} - {0..<512} = {512..<32768 :: nat}" by auto
  ultimately show ?thesis by (simp add: usable_frames_def)
qed

lemma sample_heap_room: "heap_room 0x200000 [\<lparr>base = 0, length_of = 0x8000000, type_of = 1\<rparr>]"
proof -
  have below: "frames_below [\<lparr>base = 0, length_of = 0x8000000, type_of = 1\<rparr>] = 32768"
    by (simp add: frames_below_def top_of_def page_frame_def PAGE_SIZE_def max_frames_def)
  have "unat (page_up 0x200000) div 4096 = 512" by (simp add: page_up_def PAGE_SIZE_def)
  then show ?thesis
    unfolding heap_room_def sample_usable_frames below by (simp only:) (intro first_fit_SomeI; auto)
qed

lemma framed_machine_frames: "free_frames framed_machine = {8..<16}"
proof -
  have "bit (0xFF :: u8) j" if "j < 8" for j
  proof -
    have "(0xFF :: u8) = - 1" by simp
    then show ?thesis using that by (simp only: bit_minus_1_iff) simp
  qed
  then have full: "bit (0xFF :: u8) (k mod 8)" for k by simp
  have byte: "bitmap framed_machine ! (k div 8) = (if k div 8 = 1 then 0 else 0xFF)" if "k < max_frames" for k
  proof -
    have "k div 8 < max_frames div 8" using that by (simp add: max_frames_def less_mult_imp_div_less)
    then show ?thesis by (simp add: framed_machine_def nth_list_update)
  qed
  have "k \<in> free_frames framed_machine \<longleftrightarrow> k < max_frames \<and> k div 8 = 1" for k
    using byte [of k] full [of k] by (auto simp: free_frames_def split: if_splits)
  moreover have "k div 8 = 1 \<longleftrightarrow> 8 \<le> k \<and> k < 16" for k :: nat by arith
  moreover have "k < 16 \<Longrightarrow> k < max_frames" for k by (simp add: max_frames_def)
  ultimately have "k \<in> free_frames framed_machine \<longleftrightarrow> 8 \<le> k \<and> k < 16" for k by blast
  then show ?thesis by (intro set_eqI) simp
qed

lemma framed_machine_ok: "pmm_inv framed_machine" "bitmap_ok framed_machine" "unat (total_frames framed_machine) = 16"
proof -
  show total: "unat (total_frames framed_machine) = 16" and ok: "bitmap_ok framed_machine"
    by (simp_all add: framed_machine_def bitmap_ok_def)
  show "pmm_inv framed_machine"
    using total ok framed_machine_frames by (simp add: pmm_inv_def max_frames_def)
qed

section \<open>A program image\<close>

text \<open>
  An image of 124 bytes at 4 MB with one segment for the address 5 MB: four bytes of code
  followed by four zero bytes.
\<close>

definition program :: memory where
  "program = (\<lambda>_. 0)(
     0x400000 := 0x7F, 0x400001 := 0x45, 0x400002 := 0x4C, 0x400003 := 0x46, 0x400004 := 2,
     0x400010 := 2, 0x400012 := 62, 0x40001A := 0x50, 0x400020 := 64, 0x400036 := 56, 0x400038 := 1,
     0x400040 := 1, 0x400048 := 120, 0x400052 := 0x50, 0x400060 := 4, 0x400068 := 8,
     0x400078 := 0xB8, 0x400079 := 0x2A, 0x40007B := 0xC3)"

text \<open>The same image with its segment above the window.\<close>

definition high_program :: memory where
  "high_program = program(0x400053 := 9)"

lemma read_le_two: "read_le m a 2 = ucast (m a) OR push_bit 8 (ucast (m (a + 1)))"
  by (simp add: eval_nat_numeral)

lemmas read_le_bytes = read_le_eight read_le_four read_le_two

lemma program_fields:
  "program 0x400000 = 0x7F" "program 0x400001 = 0x45" "program 0x400002 = 0x4C" "program 0x400003 = 0x46"
  "program 0x400004 = 2" "read_le program 0x400010 2 = 2" "read_le program 0x400012 2 = 62"
  "read_le program 0x400018 8 = 0x500000" "read_le program 0x400020 8 = 64" "read_le program 0x400036 2 = 56"
  "read_le program 0x400038 2 = 1"
  by (simp_all only: read_le_bytes) (simp_all add: program_def)

lemma program_segment_fields:
  "read_le program 0x400040 4 = 1" "read_le program 0x400048 8 = 120"
  "read_le program 0x400050 8 = 0x500000" "read_le program 0x400060 8 = 4" "read_le program 0x400068 8 = 8"
  by (simp_all only: read_le_bytes) (simp_all add: program_def)

lemma high_program_fields:
  "read_le high_program 0x400048 8 = 120" "read_le high_program 0x400050 8 = 0x9500000"
  "read_le high_program 0x400060 8 = 4" "read_le high_program 0x400068 8 = 8"
  by (simp_all only: read_le_bytes) (simp_all add: high_program_def program_def)

lemma program_header: "header_ok program 0x400000 124"
  by (simp add: header_ok_def program_fields mapped_def MAP_LIMIT_def ELF_CLASS_def ET_EXEC_def ELF_MACHINE_def
      phdr_off_def phnum_of_def)

lemma program_phdrs: "load_phdrs program 0x400000 = [0x400040]"
  by (simp add: load_phdrs_def phnum_of_def phdr_def phdr_off_def program_fields program_segment_fields PT_LOAD_def)

lemma program_segment: "segment_ok (resident (machine m)) program 0x400000 124 0x400040"
  by (simp add: machine_resident segment_ok_def vaddr_of_def memsz_of_def filesz_of_def offset_of_def program_segment_fields
      PROG_LOAD_MIN_def PROG_LOAD_MAX_def span_def)

text \<open>An image of two headers, the second one for the address 0.\<close>

definition split_program :: memory where
  "split_program = program(0x400038 := 2, 0x400078 := 1, 0x400079 := 0, 0x40007B := 0)"

lemma split_program_fields:
  "read_le split_program 0x400010 2 = 2" "read_le split_program 0x400012 2 = 62"
  "read_le split_program 0x400020 8 = 64" "read_le split_program 0x400036 2 = 56" "read_le split_program 0x400038 2 = 2"
  by (simp_all only: read_le_bytes) (simp_all add: split_program_def program_def)

lemma split_program_segments:
  "read_le split_program 0x400040 4 = 1" "read_le split_program 0x400048 8 = 120"
  "read_le split_program 0x400050 8 = 0x500000" "read_le split_program 0x400060 8 = 4"
  "read_le split_program 0x400068 8 = 8"
  "read_le split_program 0x400078 4 = 1" "read_le split_program 0x400088 8 = 0"
  by (simp_all only: read_le_bytes) (simp_all add: split_program_def program_def)

lemma split_program_ok: "header_ok split_program 0x400000 180"
  "load_phdrs split_program 0x400000 = [0x400040] @ 0x400078 # []"
  "segment_ok (resident (machine m)) split_program 0x400000 180 0x400040" "segment_refused split_program 180 0x400078"
proof -
  have bytes: "split_program 0x400000 = 0x7F" "split_program 0x400001 = 0x45" "split_program 0x400002 = 0x4C"
    "split_program 0x400003 = 0x46" "split_program 0x400004 = 2"
    by (simp_all add: split_program_def program_def)
  show "header_ok split_program 0x400000 180"
    by (simp add: header_ok_def bytes split_program_fields mapped_def MAP_LIMIT_def ELF_CLASS_def ET_EXEC_def
        ELF_MACHINE_def phdr_off_def phnum_of_def)
  show "load_phdrs split_program 0x400000 = [0x400040] @ 0x400078 # []"
    by (simp add: load_phdrs_def phnum_of_def phdr_def phdr_off_def split_program_fields split_program_segments
        PT_LOAD_def upt_rec)
  show "segment_ok (resident (machine m)) split_program 0x400000 180 0x400040"
    by (simp add: machine_resident segment_ok_def vaddr_of_def memsz_of_def filesz_of_def offset_of_def split_program_segments
        PROG_LOAD_MIN_def PROG_LOAD_MAX_def span_def)
  show "segment_refused split_program 180 0x400078"
    by (simp add: segment_refused_def vaddr_of_def split_program_segments PROG_LOAD_MIN_def)
qed

lemma split_program_apart: "headers_apart split_program 0x400000 180"
  "\<not> (\<exists>ph\<in>{0x400040, 0x400078}. escapes split_program ph)"
  "\<forall>ph\<in>{0x400040, 0x400078}. clear_of (resident (machine m)) (vaddr_of split_program ph) (extent_of split_program ph)"
proof -
  have "read_le split_program 0x400098 8 = 0" "read_le split_program 0x4000A0 8 = 0"
    by (simp_all only: read_le_bytes) (simp_all add: split_program_def program_def)
  note f = this split_program_segments
  have e: "extent_of split_program 0x400040 = 8" "extent_of split_program 0x400078 = 0"
    "vaddr_of split_program 0x400040 = 0x500000" "vaddr_of split_program 0x400078 = 0"
    by (simp_all add: extent_of_def vaddr_of_def filesz_of_def memsz_of_def f)
  show "headers_apart split_program 0x400000 180" by (simp add: headers_apart_def split_program_ok(2) e span_def)
  show "\<not> (\<exists>ph\<in>{0x400040, 0x400078}. escapes split_program ph)"
    by (simp add: escapes_def vaddr_of_def filesz_of_def memsz_of_def f PROG_LOAD_MAX_def)
  show "\<forall>ph\<in>{0x400040, 0x400078}. clear_of (resident (machine m)) (vaddr_of split_program ph) (extent_of split_program ph)"
    by (simp add: e machine_resident clear_of_empty)
qed

lemma split_program_entry: "entry_of split_program 0x400000 = 0x500000"
  unfolding entry_of_def by (simp_all only: read_le_bytes) (simp add: split_program_def program_def)

text \<open>
  An image whose segment lands on its own header: what is copied there is a header for the
  4096 bytes from \<open>0x8000\<close> on, below the load window.
\<close>

definition self_program :: memory where
  "self_program = (\<lambda>_. 0)(0x8000 := 0xAA,
     0x400040 := 1, 0x400048 := 120, 0x400050 := 0x40, 0x400052 := 0x40, 0x400060 := 56, 0x400068 := 56,
     0x400078 := 1, 0x400089 := 0x80, 0x4000A1 := 0x10)"

definition self_copied :: memory where
  "self_copied = copied self_program 0x400078 self_program 0x400040 56"

lemma self_program_fields:
  "offset_of self_program 0x400040 = 120" "vaddr_of self_program 0x400040 = 0x400040"
  "filesz_of self_program 0x400040 = 56" "memsz_of self_program 0x400040 = 56"
  "vaddr_of self_copied 0x400040 = 0x8000" "filesz_of self_copied 0x400040 = 0" "memsz_of self_copied 0x400040 = 0x1000"
  by (simp_all only: offset_of_def vaddr_of_def filesz_of_def memsz_of_def read_le_bytes)
    (simp_all add: self_copied_def copied_def span_def self_program_def)

lemma self_program_low: "clear_of (resident (machine m)) 0x8000 4096"
proof -
  have "\<not> resident (machine m) x" if "unat x \<in> span 0x8000 4096" for x
    using that by (simp add: machine_def span_def word_le_nat_alt)
  then show ?thesis by (simp add: clear_of_def)
qed

definition sample_layout :: layout where
  "sample_layout = \<lparr>kernel_end = 0x200000, isr_table = map (\<lambda>i. 0x110000 + 16 * of_nat i) [0..<32],
     ist1_stack = 0x180000, tss_address = 0x181000, gdt_address = 0x182000, idt_address = 0x183000\<rparr>"

definition sample_frame :: interrupt_frame where
  "sample_frame = \<lparr>r15 = 0, r14 = 0, r13 = 0, r12 = 0, r11 = 0, r10 = 0, r9 = 0, r8 = 0,
     rdi = 0, rsi = 0, rbp = 0, rdx = 0, rcx = 0, rbx = 0, rax = 0, vector = 14, error_code = 2,
     rip = 0x500000, cs = 8, rflags = 2, rsp = 0x7FF000, ss = 0\<rparr>"

text \<open>The boot of the sample machine: what the tags say, for the kernel that ends at 2 MB.\<close>

lemma sample_boot:
  "tag_chain boot_info (0x1000 + 8) [0x1008, 0x1030]"
  "case find (\<lambda>t. read_le boot_info t 4 = MB2_TAG_CMDLINE) [0x1008, 0x1030] of
      Some t \<Rightarrow> denotes boot_info (Ptr (t + 8)) [] | None \<Rightarrow> True"
  "4096 \<le> unat (page_up (kernel_end sample_layout))"
  "chosen_console boot_info [0x1008, 0x1030] [] = HAL_CONSOLE_VGA"
  "kernel_end sample_layout = 0x200000"
  "take 64 (all_regions boot_info [0x1008, 0x1030]) = [\<lparr>base = 0, length_of = 0x8000000, type_of = 1\<rparr>]"
  "register_all (\<lambda>_. lit ''hello'') boot_info [0x1008, 0x1030] [] = registers 0x300000 0x301000 (lit ''hello'') boot_info []"
  "registers 0x300000 0x301000 (lit ''hello'') boot_info []
    = [\<lparr>info_start = 0x300000, info_end = 0x301000, info_line = lit ''hello'', info_state = MODULE_STATE_LOADED, info_header = 0x300000\<rparr>]"
proof -
  show "tag_chain boot_info (0x1000 + 8) [0x1008, 0x1030]" using boot_info_chain by (simp del: tag_chain.simps)
  show "case find (\<lambda>t. read_le boot_info t 4 = MB2_TAG_CMDLINE) [0x1008, 0x1030] of
      Some t \<Rightarrow> denotes boot_info (Ptr (t + 8)) [] | None \<Rightarrow> True"
    by (simp add: boot_info_fields mb2_tag_defs)
  show "4096 \<le> unat (page_up (kernel_end sample_layout))" by (simp add: sample_layout_def page_up_def PAGE_SIZE_def)
  show "chosen_console boot_info [0x1008, 0x1030] [] = HAL_CONSOLE_VGA"
    by (simp add: chosen_console_def picks_serial_def boot_info_fields mb2_tag_defs)
  show "kernel_end sample_layout = 0x200000" by (simp add: sample_layout_def)
  show "take 64 (all_regions boot_info [0x1008, 0x1030]) = [\<lparr>base = 0, length_of = 0x8000000, type_of = 1\<rparr>]"
    by (simp add: all_regions_def tag_regions_def boot_info_fields mb2_tag_defs tag_size_def entry_size_def boot_info_region)
  show "register_all (\<lambda>_. lit ''hello'') boot_info [0x1008, 0x1030] [] = registers 0x300000 0x301000 (lit ''hello'') boot_info []"
    by (simp add: register_all_def boot_info_fields mb2_tag_defs)
qed (rule boot_info_table)

section \<open>Consoles\<close>

text \<open>A command line tag that asks for the serial console, and a tag of size 0.\<close>

definition serial_info :: memory where
  "serial_info = (\<lambda>_. 0)(
     0x1008 := 1, 0x100C := 23,
     0x1010 := 0x63, 0x1011 := 0x6F, 0x1012 := 0x6E, 0x1013 := 0x73, 0x1014 := 0x6F, 0x1015 := 0x6C, 0x1016 := 0x65,
     0x1017 := 0x3D, 0x1018 := 0x73, 0x1019 := 0x65, 0x101A := 0x72, 0x101B := 0x69, 0x101C := 0x61, 0x101D := 0x6C)"

definition looping_info :: memory where
  "looping_info = (\<lambda>_. 0)(0x1008 := 9)"

lemma serial_info_fields:
  "read_le serial_info 0x1008 4 = 1" "read_le serial_info 0x100C 4 = 23" "read_le serial_info 0x1020 4 = 0"
  by (simp_all only: read_le_four) (simp_all add: serial_info_def)

lemma serial_info_chain: "tag_chain serial_info 0x1008 [0x1008]"
  by (simp add: serial_info_fields mapped_def MAP_LIMIT_def mb2_tag_defs tag_step_def)

lemma serial_info_line: "denotes serial_info (Ptr 0x1010) (lit ''console=serial'')"
  by (simp add: serial_info_def MAP_LIMIT_def)

lemma looping_info_fields: "read_le looping_info 0x1008 4 = 9" "read_le looping_info 0x100C 4 = 0"
  by (simp_all only: read_le_four) (simp_all add: looping_info_def)

text \<open>The serial line takes two characters; the keyboard delivers \<open>help\<close> and the return key.\<close>

definition serial_machine :: libc where
  "serial_machine = (machine boot_info)\<lparr>active_console := HAL_CONSOLE_SERIAL, port_in := (\<lambda>_. [])(COM1 + 5 := [0, 0x20, 0, 0x20])\<rparr>"

definition keyed_machine :: libc where
  "keyed_machine = (machine boot_info)\<lparr>port_in := (\<lambda>_. [])(KBD_STATUS := replicate 5 1, KBD_DATA := [0x23, 0x12, 0x26, 0x19, 0x1C])\<rparr>"

lemma keyed_machine_display: "on_display keyed_machine"
  using machine_display(2) [of boot_info] by (simp add: on_display_def keyed_machine_def vga_inv_def)

lemma kbd_chars_key: "kbd_decode st c = (st, ch) \<Longrightarrow> ch \<noteq> 0 \<Longrightarrow> kbd_chars st (c # rest) = ch # kbd_chars st rest"
  by (subst kbd_chars.simps) simp

lemma plain_keys:
  "kbd_decode (False, False) 0x23 = ((False, False), 104)" "kbd_decode (False, False) 0x12 = ((False, False), 101)"
  "kbd_decode (False, False) 0x26 = ((False, False), 108)" "kbd_decode (False, False) 0x19 = ((False, False), 112)"
  "kbd_decode (False, False) 0x18 = ((False, False), 111)" "kbd_decode (False, False) 0x1E = ((False, False), 97)"
  "kbd_decode (False, False) 0x20 = ((False, False), 100)" "kbd_decode (False, False) 0x1C = ((False, False), 10)"
  by (simp_all add: kbd_decode_def sc_normal_def)

lemma kbd_chars_Nil: "kbd_chars st [] = []"
  by (simp add: kbd_chars.simps)

lemma keyed_machine_typed: "typed keyed_machine = [104, 101, 108, 112, 10]"
proof -
  have "available keyed_machine = [0x23, 0x12, 0x26, 0x19, 0x1C]" "kbd_flags keyed_machine = (False, False)"
    by (simp_all add: available_def n_full_def keyed_machine_def kbd_flags_def machine_def)
  then show ?thesis by (simp add: typed_def kbd_chars_key plain_keys kbd_chars_Nil)
qed

section \<open>A module\<close>

text \<open>The header of \<open>hello\<close> at 3 MB, and a machine with it in the table.\<close>

definition module_machine :: libc where
  "module_machine = (machine boot_info)\<lparr>
     modules := \<lparr>mod_start = 0x300000, mod_end = 0x301000, cmdline = lit ''hello'' @ replicate 59 0, state = MODULE_STATE_LOADED, header = 0x300000\<rparr>
       # replicate 15 \<lparr>mod_start = 0, mod_end = 0, cmdline = replicate 64 0, state = MODULE_STATE_ABSENT, header = 0\<rparr>,
     mod_count := 1\<rparr>"

definition module_names :: headers where
  "module_names = (\<lambda>_. (lit ''hello'', lit ''1''))"

lemma module_machine_ok: "modules_inv module_machine" "con_inv module_machine" "on_display module_machine"
  using machine_display [of boot_info]
  by (simp_all add: module_machine_def modules_inv_def con_inv_def vga_inv_def on_serial_def on_display_def machine_def)

lemma module_machine_loaded: "loaded module_machine
  = [\<lparr>mod_start = 0x300000, mod_end = 0x301000, cmdline = lit ''hello'' @ replicate 59 0, state = MODULE_STATE_LOADED, header = 0x300000\<rparr>]"
  by (simp add: loaded_def module_machine_def)

lemma module_machine_headers: "headers_ok module_names (mem module_machine) (loaded module_machine)"
  by (simp add: headers_ok_def module_machine_loaded module_names_def header_name_def header_version_def)
    (simp add: module_machine_def boot_info_def MAP_LIMIT_def)

lemma sample_table_strings: "table_strings module_names boot_info (register_all (\<lambda>_. lit ''hello'') boot_info [0x1008, 0x1030] [])"
  unfolding sample_boot(7,8) by (simp add: table_strings_def module_names_def header_name_def header_version_def)
    (simp add: boot_info_def MAP_LIMIT_def)

section \<open>A transfer\<close>

text \<open>Three bytes on their way over COM2.\<close>

definition sending_machine :: libc where
  "sending_machine = (machine boot_info)\<lparr>com2_initialized := True,
     port_in := (\<lambda>_. [])(COM2 + 5 := replicate 11 1, COM2 := kelf_encode [1, 2, 3])\<rparr>"

text \<open>A machine with \<open>load\<close> typed on its keyboard and a file on the line, for the heap at 4 MB.\<close>

definition image_bytes :: "u8 list" where
  "image_bytes = map (\<lambda>i. program (0x400000 + of_nat i)) [0..<124]"

definition loading_machine :: "u8 list \<Rightarrow> libc" where
  "loading_machine bytes = (machine (\<lambda>_. 0))\<lparr>heap_cur := 0x400000,
     port_in := (\<lambda>_. [])(COM2 + 5 := replicate (length bytes) 1, COM2 := bytes,
       KBD_STATUS := replicate 5 1, KBD_DATA := [0x26, 0x18, 0x1E, 0x20, 0x1C])\<rparr>"

lemma loading_machine_typed: "typed (loading_machine bytes) = [108, 111, 97, 100, 10]"
proof -
  have "available (loading_machine bytes) = [0x26, 0x18, 0x1E, 0x20, 0x1C]" "kbd_flags (loading_machine bytes) = (False, False)"
    by (simp_all add: available_def n_full_def loading_machine_def kbd_flags_def machine_def)
  then show ?thesis by (simp add: typed_def kbd_chars_key plain_keys kbd_chars_Nil)
qed

lemma loading_machine_ok:
  "on_display (loading_machine bytes)" "heap_inv (loading_machine bytes)"
  "unat (heap_limit (loading_machine bytes)) \<le> unat MAP_LIMIT" "heap_room_left (loading_machine bytes) = 0x200000"
  "com2_bytes (loading_machine bytes) = bytes" "heap_cur (loading_machine bytes) = 0x400000"
  "mem (loading_machine bytes) = (\<lambda>_. 0)" "resident (loading_machine bytes) = resident (machine program)"
  using machine_display(2) [of "\<lambda>_. 0"]
  by (simp_all add: loading_machine_def heap_inv_def MAP_LIMIT_def heap_room_left_def com2_bytes_def com2_line_def
      on_display_def vga_inv_def KBD_STATUS_def KBD_DATA_def COM2_def) (simp_all add: machine_def)

lemma image_written: "written (\<lambda>_. 0) 0x400000 image_bytes = program"
proof
  fix x :: u64
  have len: "length image_bytes = 124" by (simp add: image_bytes_def)
  show "written (\<lambda>_. 0) 0x400000 image_bytes x = program x"
  proof (cases "unat x \<in> span 0x400000 124")
    case True
    define i where "i = unat x - 0x400000"
    have i: "i < 124" "unat x = 0x400000 + i" using True by (auto simp: i_def span_def)
    then have "x = 0x400000 + of_nat i" by (simp add: word_unat_eq_iff unat_word_ariths unat_of_nat)
    with True i show ?thesis by (simp add: written_def len image_bytes_def)
  next
    case False
    then have "unat x < 0x400000 \<or> 0x40007C \<le> unat x" by (auto simp: span_def)
    then have "x < 0x400000 \<or> 0x40007C \<le> x" by (simp add: word_less_nat_alt word_le_nat_alt)
    then have "program x = 0" by (auto simp: program_def)
    with False show ?thesis by (simp add: written_def len)
  qed
qed

lemma image_ok: "program_ok (resident (machine program)) program 0x400000 124"
  by (simp add: program_ok_def program_header program_phdrs program_segment entry_of_def program_fields)

lemma length_image: "length image_bytes = 124"
  by (simp add: image_bytes_def)

section \<open>A whole system\<close>

text \<open>
  Boot information with the modules \<open>hello\<close> and \<open>COMMAND.KERN\<close>, the shell, and a machine with it
  on which a line is typed once the keyboard controller has been drained.
\<close>

definition system_info :: memory where
  "system_info = boot_info(
     0x1048 := 3, 0x104C := 29, 0x1052 := 0x31, 0x1056 := 0x32,
     0x1058 := 0x43, 0x1059 := 0x4F, 0x105A := 0x4D, 0x105B := 0x4D, 0x105C := 0x41, 0x105D := 0x4E, 0x105E := 0x44,
     0x105F := 0x2E, 0x1060 := 0x4B, 0x1061 := 0x45, 0x1062 := 0x52, 0x1063 := 0x4E,
     0x106C := 8,
     0x310000 := 0x4D, 0x310001 := 0x53, 0x310002 := 0x4F, 0x310003 := 0x44,
     0x310004 := 0x43, 0x310005 := 0x4F, 0x310006 := 0x4D, 0x310007 := 0x4D, 0x310008 := 0x41, 0x310009 := 0x4E,
     0x31000A := 0x44, 0x31000B := 0x2E, 0x31000C := 0x4B, 0x31000D := 0x45, 0x31000E := 0x52, 0x31000F := 0x4E,
     0x310024 := 0x31)"

definition system_lines :: "u64 \<Rightarrow> u8 list" where
  "system_lines t = (if t = 0x1048 then lit ''COMMAND.KERN'' else lit ''hello'')"

definition system_names :: headers where
  "system_names a = (if a = 0x310000 then lit ''COMMAND.KERN'' else lit ''hello'', lit ''1'')"

definition system_machine :: libc where
  "system_machine = (machine system_info)\<lparr>port_in := (\<lambda>_. [])
     (KBD_STATUS := 0 # replicate 5 1, KBD_DATA := [0x23, 0x12, 0x26, 0x19, 0x1C])\<rparr>"

definition system_entry :: "u64 \<Rightarrow> (unit, libc) prog" where
  "system_entry a = (if a = 0x310038 then module_main kernel_kst (\<lambda>_. undef) 1 2 (replicate 128 0) else hello_main kernel_kst)"

definition hello_info :: module_info where
  "hello_info = \<lparr>info_start = 0x300000, info_end = 0x301000, info_line = lit ''hello'', info_state = MODULE_STATE_LOADED, info_header = 0x300000\<rparr>"

definition shell_info :: module_info where
  "shell_info = \<lparr>info_start = 0x310000, info_end = 0x320000, info_line = lit ''COMMAND.KERN'', info_state = MODULE_STATE_LOADED, info_header = 0x310000\<rparr>"

lemma system_info_fields:
  "read_le system_info 0x1008 4 = 6" "read_le system_info 0x100C 4 = 40" "read_le system_info 0x1010 4 = 24"
  "read_le system_info 0x1030 4 = 3" "read_le system_info 0x1034 4 = 22" "read_le system_info 0x1038 4 = 0x300000"
  "read_le system_info 0x103C 4 = 0x301000" "read_le system_info 0x1048 4 = 3" "read_le system_info 0x104C 4 = 29"
  "read_le system_info 0x1050 4 = 0x310000" "read_le system_info 0x1054 4 = 0x320000" "read_le system_info 0x1068 4 = 0"
  "read_le system_info 0x300000 4 = 0x444F534D" "read_le system_info 0x310000 4 = 0x444F534D"
  by (simp_all only: read_le_four) (simp_all add: system_info_def boot_info_def)

lemma system_info_region: "region_at system_info 0x1018 = \<lparr>base = 0, length_of = 0x8000000, type_of = 1\<rparr>"
  by (simp add: region_at_def read_le_eight read_le_four) (simp add: system_info_def boot_info_def)

lemma system_boot:
  "tag_chain system_info (0x1000 + 8) [0x1008, 0x1030, 0x1048]"
  "\<forall>t\<in>set [0x1008, 0x1030, 0x1048]. tag_ok system_lines system_info t"
  "find (\<lambda>t. read_le system_info t 4 = MB2_TAG_CMDLINE) [0x1008, 0x1030, 0x1048] = None"
  "chosen_console system_info [0x1008, 0x1030, 0x1048] [] = HAL_CONSOLE_VGA"
  "take 64 (all_regions system_info [0x1008, 0x1030, 0x1048]) = [\<lparr>base = 0, length_of = 0x8000000, type_of = 1\<rparr>]"
  "register_all system_lines system_info [0x1008, 0x1030, 0x1048] [] = [hello_info] @ shell_info # []"
proof -
  show "tag_chain system_info (0x1000 + 8) [0x1008, 0x1030, 0x1048]"
    by (simp add: system_info_fields mapped_def MAP_LIMIT_def mb2_tag_defs tag_step_def)
  show "\<forall>t\<in>set [0x1008, 0x1030, 0x1048]. tag_ok system_lines system_info t"
    by (simp add: tag_ok_def mmap_ok_def tag_size_def entry_size_def system_info_fields mapped_def MAP_LIMIT_def mb2_tag_defs system_lines_def)
      (simp add: system_info_def boot_info_def MAP_LIMIT_def)
  show "find (\<lambda>t. read_le system_info t 4 = MB2_TAG_CMDLINE) [0x1008, 0x1030, 0x1048] = None"
    by (simp add: system_info_fields mb2_tag_defs)
  show "chosen_console system_info [0x1008, 0x1030, 0x1048] [] = HAL_CONSOLE_VGA"
    by (simp add: chosen_console_def picks_serial_def system_info_fields mb2_tag_defs)
  show "take 64 (all_regions system_info [0x1008, 0x1030, 0x1048]) = [\<lparr>base = 0, length_of = 0x8000000, type_of = 1\<rparr>]"
    by (simp add: all_regions_def tag_regions_def system_info_fields mb2_tag_defs tag_size_def entry_size_def system_info_region)
  show "register_all system_lines system_info [0x1008, 0x1030, 0x1048] [] = [hello_info] @ shell_info # []"
    by (simp add: register_all_def registers_def new_info_def system_info_fields mb2_tag_defs MODULE_MAGIC_def system_lines_def
        hello_info_def shell_info_def)
qed

lemma system_strings: "table_strings system_names system_info ([hello_info] @ shell_info # [])"
  by (simp add: table_strings_def system_names_def header_name_def header_version_def hello_info_def shell_info_def)
    (simp add: system_info_def boot_info_def MAP_LIMIT_def)

lemma system_code: "module_code system_names system_entry"
proof
  fix a and s t :: libc and ms assume "system_entry a s = Some (Ok () t)"
  then have run: "shipped 0 a a s = Some (Ok () t)"
    by (cases "a = 0x310038") (simp_all add: system_entry_def shipped_def module_main_no_return)
  show "modules t = modules s \<and> mod_count t = mod_count s" by (rule shipped.entry_table [OF run])
  show "headers_ok system_names (mem t) ms" if "headers_ok system_names (mem s) ms"
    by (rule shipped.entry_headers [OF run that])
qed

lemma polite_hello: "polite (hello_main kernel_kst)"
  unfolding hello_main_def kernel_kst_sel by (rule polite_print)

lemma system_machine_ok:
  "power_on system_info system_machine" "keyboard_quiet system_machine" "typed (drained system_machine) = [104, 101, 108, 112, 10]"
proof -
  show "power_on system_info system_machine" "keyboard_quiet system_machine"
    using machine_power_on [of system_info] by (simp_all add: system_machine_def power_on_def tables_ok_def bitmap_ok_def
        modules_inv_def keyboard_quiet_def)
  have "typed (drained system_machine) = typed keyed_machine"
    by (simp add: typed_def available_def n_full_def kbd_flags_def drained_def system_machine_def keyed_machine_def machine_def)
  then show "typed (drained system_machine) = [104, 101, 108, 112, 10]" by (simp only: keyed_machine_typed)
qed

end
