(* ===== verification/Spec2Isabelle.thy ===== *)
theory Spec2Isabelle imports Samples begin

text \<open>
  KDOS is a freestanding x86-64 kernel that a Multiboot2 loader starts: it brings up a console
  (VGA text or the first serial port), the interrupt tables, a physical page allocator, a
  heap and the table of boot modules, runs the modules and launches the shell, which receives
  ELF programs over the second serial port and runs them. This development models that code
  in Isabelle/HOL and states what makes it correct. It follows the C of \<open>src/kernel\<close>,
  \<open>src/command_kern\<close> and \<open>src/newlib\<close> function by function.

  \<^bold>\<open>How a program is modelled.\<close> A C function is a state transformer
  \<open>('a, 's) prog = 's \<Rightarrow> ('a, 's) outcome option\<close> (theory \<open>Outcome\<close>). The outcomes are a
  normal return, a processor that halts, a wait for input that will never come, a processor
  exception with its vector, and undefined behaviour of the C program; \<open>None\<close> is a loop that
  never ends. Loops whose end depends on memory are \<open>partial_function (option)\<close>, so that
  not ending is a value the theorems speak of. There is no fuel in the development. The state is a chain of records, one per
  source file, each extending the one before: \<open>hw\<close> (memory, the input each port still has
  to deliver, the bytes written to ports, the interrupt flag, the resident addresses), \<open>vga\<close>, \<open>kbd\<close>, \<open>hal\<close>, \<open>pmm\<close>, \<open>heap\<close>,
  \<open>idts\<close>, \<open>kernel\<close>, \<open>shell\<close>, \<open>libc\<close>; their fields are the static variables of the file.
  Integers have the width of the C type. Pointers into the identity-mapped first 128 MB are
  words, and an access beyond them is an exception, 14 at a canonical address and 13 at any other; static arrays are lists, and an index
  past their end is undefined behaviour. The code, the stack and the static variables of the kernel and
  the shell are not in \<open>mem\<close>: the addresses they occupy are \<open>resident\<close>, a parameter of the machine, and when the
  loader, which writes where the image says, writes to one of them, the run is undefined from there on. All other
  writes go to the heap behind the kernel or to a buffer the caller provides.

  \<^bold>\<open>Theories.\<close>
  \<^item> \<open>Prelude\<close>: word and list facts, little-endian fields, the collections of rules.
  \<^item> \<open>Outcome\<close>: programs, the contract \<open>spec P m Q H\<close>, invariants (\<open>keeps\<close>), termination from
    every state (\<open>stops\<close>), frames (\<open>unchanged\<close>).
  \<^item> \<open>Hw\<close>: the port instructions of the drivers, memory, C strings and \<open>str_eq\<close>.
  \<^item> \<open>Vga\<close> (\<open>vga.c\<close>): the driver refines a terminal, \<open>putchar_is_terminal\<close>.
  \<^item> \<open>Char_Device\<close>: the interface of an output device, which \<open>Vga\<close>, \<open>Serial\<close> and \<open>Console\<close> provide.
  \<^item> \<open>Serial\<close> (\<open>serial.c\<close>): the port takes the bytes in order, as many as it reports ready for.
  \<^item> \<open>Keyboard\<close> (\<open>keyboard.c\<close>): the blocking read is a pure decoder of scancodes.
  \<^item> \<open>Multiboot\<close> (\<open>multiboot2.h\<close>, the early parser of \<open>hal.c\<close>): the tag list and the choice of the console.
  \<^item> \<open>Console\<close> (\<open>hal.c\<close>): routing to the active console, numbers, panic, the memory map.
  \<^item> \<open>Pmm\<close> (\<open>pmm.c\<close>): the bitmap allocator is first fit on the set of free frames; the
    interface \<open>page_allocator\<close>.
  \<^item> \<open>Frames\<close>: whole sessions of page requests and releases, as reachable states of a step
    relation with a ledger of the blocks held; \<open>page_session\<close> extends \<open>page_allocator\<close>.
  \<^item> \<open>Heap\<close> (\<open>heap.c\<close>): the interface \<open>bump_allocator\<close>; \<open>heap_init\<close> is a client of the page allocator.
  \<^item> \<open>Elf\<close> (\<open>elf.c\<close>, \<open>elf_arch.h\<close>): the loader installs the segments of a good image,
    refuses a bad one, and stops on any image.
  \<^item> \<open>Elf_Safety\<close>: the loader on arbitrary images: what it can write and how it can end (\<open>tame\<close>, \<open>reaches\<close>),
    and the segment that overwrites its own header.
  \<^item> \<open>Idt\<close> (\<open>idt.c\<close>): gates, the task state segment, the exception handler and its hook.
  \<^item> \<open>Modules\<close>, \<open>Module_Table\<close> (\<open>modules.c\<close>, \<open>module_abi.h\<close>): the service table, registration, search,
    start; the interface \<open>module_code\<close> of the code the modules bring.
  \<^item> \<open>Boot\<close>, \<open>Boot_Waits\<close>, \<open>Boot_Stages\<close> (\<open>kernel.c\<close>, \<open>hal_arch_init\<close> of \<open>hal.c\<close>): the boot path,
    which devices it waits for (\<open>only_waits\<close> on the serial line, a keyboard that is not quiet), what
    each stage establishes, where it can get stuck (\<open>boot_stuck\<close>), and the start of the modules.
  \<^item> \<open>Services\<close>: the service table as its clients see it, the interfaces \<open>kernel_services\<close> and
    \<open>line_input\<close>, provided by the kernel's table: the second says which characters are read and
    what is put on the screen; \<open>off_display\<close> is what reading a line leaves alone.
  \<^item> \<open>Screen\<close>: the text a program puts on the display (\<open>shows_text\<close>), the screens of a panic and of an
    exception without a hook.
  \<^item> \<open>Kelf\<close> (\<open>transfer.c\<close>): the transfer protocol.
  \<^item> \<open>Shell\<close>, \<open>Shell_Loop\<close> (\<open>command_kern/main.c\<close>): the line reader, the commands, the loop, the
    recovery from exceptions.
  \<^item> \<open>Session\<close>: a reference for whole sessions at the display, from typed characters to the
    screen, and the proof that \<open>module_main\<close> follows it.
  \<^item> \<open>Power_On\<close>: from power on to the session: what the boot path leaves of the typed input and of the
    colours (\<open>steady\<close>, a frame for programs that return), modules that run to their end (\<open>polite\<close>), and
    the shell that is launched in between.
  \<^item> \<open>Load_Command\<close>: the command \<open>load\<close> from the prompt to the report, composed of the line reader, the
    transfer, the loader, the run of the program and the exception handler.
  \<^item> \<open>Newlib\<close> (\<open>newlib.c\<close>): the system call hooks of the C library.
  \<^item> \<open>Demos\<close>: the modules \<open>hello\<close> and \<open>exception_test\<close>; they interpret \<open>module_code\<close>.
  \<^item> \<open>Samples\<close>: concrete machines, boot information and images, on which the properties are
    instantiated.

  \<^bold>\<open>Interfaces.\<close> Where one part relies on another the operations and their laws are a locale,
  interpreted on the kernel's own definitions: \<open>char_device\<close> (three drivers),
  \<open>page_allocator\<close> and its extension \<open>page_session\<close>, \<open>bump_allocator\<close>, \<open>module_code\<close>, \<open>kernel_services\<close> and its extension
  \<open>shell_services\<close>, and \<open>line_input\<close>.

  \<^bold>\<open>Parameters.\<close> The code of modules and of loaded programs (\<open>entry\<close>, \<open>run\<close>, \<open>body\<close>), the
  addresses the linker chooses (\<open>layout\<close>), what the devices will deliver (\<open>port_in\<close>) and the
  initial memory.

  \<^bold>\<open>Bounds.\<close> Lines and tables have the sizes of the source: 64 regions, 16 modules, 131072
  frames, 1024 heap pages, 128 bytes of line, 2 MB of transfer. A received line or file of any length
  within them is covered. The mapped memory is the 128 MB of the boot page tables.

  \<^bold>\<open>Not modelled.\<close> The assembly files (\<open>boot.S\<close>, \<open>isr.S\<close>, \<open>crt.S\<close>, \<open>recover.S\<close>) are not
  C; what the C code relies on in them is written out where it is used (\<open>hosted\<close> for the
  gate and stub of an exception, \<open>iretq\<close> for the return to \<open>exc_restore\<close> with the flags and the stack of the frame, the register constraints of \<open>lgdt\<close>, \<open>ltr\<close>, \<open>lidt\<close>). Timing,
  the caches and asynchronous interrupts are left out: the kernel runs with one thread of
  control and installs no interrupt handler. The page tables are fixed at the identity map
  the boot code sets up, which maps address 0 too; a dereference of the constant null pointer is undefined all the same. The linker scripts and makefiles are data of the build.
\<close>

section \<open>The boot path\<close>

text \<open>C1. From power on, with well-formed Multiboot2 tags, \<open>kernel_main\<close> reaches the modules with the console of the command line and with the memory map, the module table, the free frames and the heap the tags describe, and goes on with running the modules, launching the shell and the final panic. It stops on the way only on the serial console in a wait for the line, on the display when the keyboard controller does not get quiet, and on either when the first run of 1024 usable frames is not right behind the kernel image, so that \<open>heap_init\<close> panics.\<close>

theorem boot_reaches_ready:
  fixes s :: "'z kernel_scheme"
  assumes "power_on m s" and "boot_addr \<noteq> 0"
    and "tag_chain m (boot_addr + 8) ts" and "\<forall>t\<in>set ts. tag_ok L m t"
    and "case find (\<lambda>t. read_le m t 4 = MB2_TAG_CMDLINE) ts of
        Some t \<Rightarrow> denotes m (Ptr (t + 8)) line | None \<Rightarrow> True"
    and "4096 \<le> unat (page_up (kernel_end lay))"
  shows "\<exists>t. (kernel_main False lay entry MULTIBOOT2_MAGIC boot_addr s \<in> {Some (Halt t), Some (Wait t)}
      \<and> boot_stuck (chosen_console m ts line) (keyboard_quiet s) (heap_room (kernel_end lay) (take 64 (all_regions m ts))) t)
    \<or> (kernel_ready (chosen_console m ts line) (kernel_end lay) (take 64 (all_regions m ts)) m (register_all L m ts []) t
       \<and> kernel_main False lay entry MULTIBOOT2_MAGIC boot_addr s
         = bind (modules_run_all entry) (\<lambda>_. bind (modules_launch_entry entry)
             (\<lambda>_. hal_panic (str ''kernel_main end reached.''))) t)"
  using kernel_main_boots [OF assms] by blast

theorem boot_reaches_ready_witness:
  "\<exists>t :: libc. kernel_ready HAL_CONSOLE_VGA 0x200000 [\<lparr>base = 0, length_of = 0x8000000, type_of = 1\<rparr>] boot_info
      [\<lparr>info_start = 0x300000, info_end = 0x301000, info_line = lit ''hello'', info_state = MODULE_STATE_LOADED, info_header = 0x300000\<rparr>] t
    \<and> kernel_main False sample_layout (shipped 0 0x300038) MULTIBOOT2_MAGIC 0x1000 (quiet_machine boot_info)
      = bind (modules_run_all (shipped 0 0x300038)) (\<lambda>_. bind (modules_launch_entry (shipped 0 0x300038))
          (\<lambda>_. hal_panic (str ''kernel_main end reached.''))) t"
  using boot_reaches_ready [OF quiet_machine_ok(1) _ sample_boot(1) boot_info_ok sample_boot(2,3), of "shipped 0 0x300038"]
  unfolding sample_boot(4-8) boot_stuck_def by (simp add: quiet_machine_ok(2) sample_heap_room del: lit_Cons)

text \<open>C2. With the display chosen, a quiet keyboard controller, room for the heap and modules that keep to the contract, the kernel starts the modules of the tags in order, all but the shells, then the shell the table names, and panics when that returns.\<close>

theorem boot_starts_modules:
  fixes s :: "'z kernel_scheme"
  assumes "power_on m s" and "boot_addr \<noteq> 0"
    and "tag_chain m (boot_addr + 8) ts" and "\<forall>t\<in>set ts. tag_ok L m t"
    and "case find (\<lambda>t. read_le m t 4 = MB2_TAG_CMDLINE) ts of
        Some t \<Rightarrow> denotes m (Ptr (t + 8)) line | None \<Rightarrow> True"
    and "4096 \<le> unat (page_up (kernel_end lay))"
    and "chosen_console m ts line = HAL_CONSOLE_VGA" and "keyboard_quiet s"
    and "heap_room (kernel_end lay) (take 64 (all_regions m ts))"
    and "module_code N entry" and "table_strings N m (register_all L m ts [])"
  shows "\<exists>t. kernel_ready HAL_CONSOLE_VGA (kernel_end lay) (take 64 (all_regions m ts)) m (register_all L m ts []) t
    \<and> kernel_main False lay entry MULTIBOOT2_MAGIC boot_addr s
      = bind (start_all N entry (loaded t)) (\<lambda>_. bind (start_shell N entry (loaded t))
          (\<lambda>_. hal_panic (str ''kernel_main end reached.''))) t"
  using kernel_main_starts [OF assms] by blast

theorem boot_starts_modules_witness:
  "\<exists>t :: libc. con_inv t \<and> loaded t \<noteq> []
    \<and> kernel_main False sample_layout (shipped 0 0x300038) MULTIBOOT2_MAGIC 0x1000 (quiet_machine boot_info)
      = bind (start_all module_names (shipped 0 0x300038) (loaded t))
          (\<lambda>_. bind (start_shell module_names (shipped 0 0x300038) (loaded t))
          (\<lambda>_. hal_panic (str ''kernel_main end reached.''))) t"
proof -
  from boot_starts_modules [OF quiet_machine_ok(1) _ sample_boot(1) boot_info_ok sample_boot(2,3,4) quiet_machine_ok(2) _
      shipped.module_code_axioms sample_table_strings, of "0" "0x300038"]
  obtain t :: libc where t: "kernel_ready HAL_CONSOLE_VGA 0x200000 [\<lparr>base = 0, length_of = 0x8000000, type_of = 1\<rparr>] boot_info
      (register_all (\<lambda>_. lit ''hello'') boot_info [0x1008, 0x1030] []) t"
    and run: "kernel_main False sample_layout (shipped 0 0x300038) MULTIBOOT2_MAGIC 0x1000 (quiet_machine boot_info)
      = bind (start_all module_names (shipped 0 0x300038) (loaded t))
          (\<lambda>_. bind (start_shell module_names (shipped 0 0x300038) (loaded t))
          (\<lambda>_. hal_panic (str ''kernel_main end reached.''))) t"
    unfolding sample_boot(5-8) using sample_heap_room by (auto simp del: lit_Cons)
  from t have "con_inv t" "infos t \<noteq> []"
    by (auto simp: kernel_ready_def con_and_def arch_ready_def sample_boot(7,8) simp del: lit_Cons)
  with run show ?thesis by (auto simp: infos_def)
qed

text \<open>C3. From power on to the session: with the display chosen, a quiet keyboard controller, room for the heap, a shell named \<open>COMMAND.KERN\<close> in the table and no trouble from the other modules, the kernel boots, runs them, launches the shell, and on the cleared screen the reference session takes place on what is typed once the controller has been drained: the kernel waits for more, has halted, or is about to run \<open>load\<close>, with memory as the loader left it.\<close>

theorem power_on_session:
  fixes s :: "'z shell_scheme"
  assumes "power_on m s" and "boot_addr \<noteq> 0"
    and "tag_chain m (boot_addr + 8) ts" and "\<forall>t\<in>set ts. tag_ok L m t"
    and "case find (\<lambda>t. read_le m t 4 = MB2_TAG_CMDLINE) ts of
        Some t \<Rightarrow> denotes m (Ptr (t + 8)) line | None \<Rightarrow> True"
    and "4096 \<le> unat (page_up (kernel_end lay))"
    and "chosen_console m ts line = HAL_CONSOLE_VGA" and "keyboard_quiet s"
    and "heap_room (kernel_end lay) (take 64 (all_regions m ts))"
    and "module_code N entry" and "table_strings N m (register_all L m ts [])"
    and "register_all L m ts [] = before @ sh # after"
    and "info_named N (lit ''COMMAND.KERN'') sh" and "info_header sh \<noteq> 0"
    and "\<forall>x\<in>set before. \<not> info_named N (lit ''COMMAND.KERN'') x"
    and "\<And>x. x \<in> set (before @ sh # after) \<Longrightarrow> \<forall>xs\<in>set SHELLS. \<not> info_named N xs x \<Longrightarrow> polite (entry (info_start x + HEADER_SIZE))"
    and "entry (info_start sh + HEADER_SIZE) = module_main kernel_kst run hook sp buf" and "length buf = LINE_MAX"
  shows "case session (typed (drained s)) (fold term_put banner_text blank_screen) of
      (Awaits_Input, rest, d) \<Rightarrow> \<exists>t. kernel_main False lay entry MULTIBOOT2_MAGIC boot_addr s = Some (Wait t)
        \<and> vga_abs t = d \<and> mem t = m
    | (Halted, rest, d) \<Rightarrow> \<exists>t. kernel_main False lay entry MULTIBOOT2_MAGIC boot_addr s = Some (Halt t)
        \<and> vga_abs t = d \<and> mem t = m \<and> \<not> intr_enabled t
    | (Starts_Load, rest, d) \<Rightarrow> \<exists>buf' t. kernel_main False lay entry MULTIBOOT2_MAGIC boot_addr s
          = bind (cmd_load kernel_kst run hook sp) (\<lambda>_. shell_loop kernel_kst (cmd_load kernel_kst run hook sp) buf') t
        \<and> length buf' = LINE_MAX \<and> on_display t \<and> typed t = rest \<and> vga_abs t = d \<and> mem t = m
        \<and> heap_inv t \<and> heap_cur t = page_up (kernel_end lay) \<and> com2_bytes t = com2_bytes s"
proof -
  from power_on_shell [OF assms(1-17)] obtain w where
    w: "kernel_main False lay entry MULTIBOOT2_MAGIC boot_addr s = module_main kernel_kst run hook sp buf w"
      "on_display w" "typed w = typed (drained s)" "term_clear (vga_abs w) = blank_screen"
      "mem w = m" "heap_inv w" "heap_cur w = page_up (kernel_end lay)" "com2_bytes w = com2_bytes s" .
  have bss: "mem (clear_bss w) = mem w" "heap_inv (clear_bss w) = heap_inv w" "heap_cur (clear_bss w) = heap_cur w"
    "com2_bytes (clear_bss w) = com2_bytes w"
    by (simp_all add: clear_bss_def heap_inv_def com2_bytes_def com2_line_def)
  note same = off_display_same [where s = "clear_bss w", unfolded bss w(5-8)]
  obtain e rest d where e: "session (typed (drained s)) (fold term_put banner_text blank_screen) = (e, rest, d)"
    by (rule prod_cases3)
  from module_main_follows [OF w(2) assms(18), of run hook sp] have "follows (cmd_load kernel_kst run hook sp) (clear_bss w) (e, rest, d)
      (kernel_main False lay entry MULTIBOOT2_MAGIC boot_addr s)"
    unfolding w(1,3,4) e .
  note run = this [unfolded follows_def, unfolded prod.case]
  show ?thesis
  proof (cases e)
    case Awaits_Input
    with run obtain t where t: "kernel_main False lay entry MULTIBOOT2_MAGIC boot_addr s = Some (Wait t)" "vga_abs t = d"
      "off_display t = off_display (clear_bss w)" by auto
    with same(1) [OF t(3)] show ?thesis by (simp add: e Awaits_Input)
  next
    case Halted
    with run show ?thesis by (simp add: e bss(1) w(5))
  next
    case Starts_Load
    with run obtain buf' t where t: "kernel_main False lay entry MULTIBOOT2_MAGIC boot_addr s
        = bind (cmd_load kernel_kst run hook sp) (\<lambda>_. shell_loop kernel_kst (cmd_load kernel_kst run hook sp) buf') t"
      "length buf' = LINE_MAX" "on_display t" "typed t = rest" "vga_abs t = d" "off_display t = off_display (clear_bss w)" by auto
    with same [OF t(6)] w(6) show ?thesis unfolding e Starts_Load by simp blast
  qed
qed

theorem power_on_session_witness:
  "\<exists>t. kernel_main False sample_layout system_entry MULTIBOOT2_MAGIC 0x1000 system_machine = Some (Wait t)
    \<and> vga_abs t = fold term_put (banner_text @ lit ''> help'' @ [0x0A] @ help_text @ lit ''> '') blank_screen"
proof -
  have e: "edit_line (LINE_MAX - 1) [] [104, 101, 108, 112, 10] = Some (lit ''help'', [])"
    and p: "prompt_text [104, 101, 108, 112, 10] = lit ''> help'' @ [0x0A]" "prompt_text [] = lit ''> ''"
    by (simp_all add: LINE_MAX_def prompt_text_def)
  have c: "parse_command (lit ''help'') \<notin> {Halt_System, Load}" "command_screen (lit ''help'') = fold term_put help_text"
    by (simp_all add: parse_command_def command_screen_def)
  have w: "edit_line (LINE_MAX - 1) [] [] = None" by simp
  have session: "session [104, 101, 108, 112, 10] d = (Awaits_Input, [], fold term_put (lit ''> help'' @ [0x0A] @ help_text @ lit ''> '') d)" for d
    unfolding session_line(3) [OF e c(1)] session_waits [OF w] p c(2) by (simp del: lit_Cons)
  have named: "info_named system_names (lit ''COMMAND.KERN'') shell_info" "info_header shell_info \<noteq> 0"
    "\<forall>x\<in>set [hello_info]. \<not> info_named system_names (lit ''COMMAND.KERN'') x"
    by (simp_all add: info_named_def shell_info_def hello_info_def system_names_def)
  have code: "system_entry (info_start shell_info + HEADER_SIZE) = module_main kernel_kst (\<lambda>_. undef) 1 2 (replicate 128 0)"
    "length (replicate 128 (0 :: u8)) = LINE_MAX"
    by (simp_all add: system_entry_def shell_info_def HEADER_SIZE_def LINE_MAX_def)
  have others: "polite (system_entry (info_start x + HEADER_SIZE))"
    if "x \<in> set ([hello_info] @ shell_info # [])" "\<forall>xs\<in>set SHELLS. \<not> info_named system_names xs x" for x
    using that polite_hello named(1) by (auto simp: system_entry_def hello_info_def HEADER_SIZE_def SHELLS_def simp del: lit_Cons)
  have line: "case find (\<lambda>t. read_le system_info t 4 = MB2_TAG_CMDLINE) [0x1008, 0x1030, 0x1048] of
      Some t \<Rightarrow> denotes system_info (Ptr (t + 8)) [] | None \<Rightarrow> True" by (simp only: system_boot(3) option.case)
  have room: "heap_room (kernel_end sample_layout) (take 64 (all_regions system_info [0x1008, 0x1030, 0x1048]))"
    unfolding sample_boot(5) system_boot(5) by (rule sample_heap_room)
  have strings: "table_strings system_names system_info (register_all system_lines system_info [0x1008, 0x1030, 0x1048] [])"
    unfolding system_boot(6) by (rule system_strings)
  have addr: "(0x1000 :: u64) \<noteq> 0" by simp
  from power_on_session [OF system_machine_ok(1) addr system_boot(1,2) line sample_boot(3) system_boot(4) system_machine_ok(2) room
      system_code strings system_boot(6) named others code] show ?thesis
    unfolding system_machine_ok(3) session prod.case finish.case by (simp only: fold_append comp_apply) blast
qed

text \<open>\<open>kernel_main\<close> never returns to the boot code, whatever the machine and the arguments.\<close>

theorem kernel_never_returns: "kernel_main debug lay entry boot_magic boot_addr s \<noteq> Some (Ok a t)"
  by (rule kernel_main_no_return)

section \<open>Physical memory\<close>

text \<open>C4. After \<open>pmm_init\<close> exactly the whole pages of the usable regions outside the kernel image and low memory are free.\<close>

theorem pmm_init_frees_usable:
  assumes "mem_map_inv s" and "bitmap_ok s"
  shows "\<exists>b tot. pmm_init kend s = Some (Ok () (s\<lparr>bitmap := b, total_frames := tot\<rparr>))
    \<and> length b = max_frames div 8
    \<and> unat tot = min max_frames (unat (page_frame (top_of (regions s))))
    \<and> free_frames (s\<lparr>bitmap := b, total_frames := tot\<rparr>) = (\<Union>r\<in>set (regions s). region_frames r)
        - page_frames 0 (unat (page_up kend) div 4096)"
  by (rule pmm_init_run [OF assms])

theorem pmm_init_frees_usable_witness:
  "\<exists>t. pmm_init 0x200000 mapped_machine = Some (Ok () t) \<and> free_frames t = {512..<32768}"
  using pmm_init_frees_usable [where kend = "0x200000", OF mapped_machine_ok(1,2)] mapped_machine_ok(3)
    sample_usable_frames by (auto simp: usable_frames_def)

text \<open>C5. \<open>pmm_alloc_pages\<close> is first fit: it answers the lowest run of free frames below the total and takes just that run, or 0 when there is none.\<close>

theorem alloc_is_first_fit:
  assumes "bitmap_ok s" and "unat (total_frames s) \<le> max_frames"
  shows "case (if n = 0 then None else first_fit (unat n) (free_frames s) (unat (total_frames s))) of
      None \<Rightarrow> pmm_alloc_pages n s = Some (Ok 0 s)
    | Some k \<Rightarrow> \<exists>t. pmm_alloc_pages n s = Some (Ok (word_of_nat (k * 4096)) t)
        \<and> pmm_frame s t \<and> free_frames t = free_frames s - {k..<k + unat n}"
  by (rule pmm_alloc_pages_run [OF assms])

theorem alloc_is_first_fit_witness:
  "\<exists>t. pmm_alloc_pages 3 framed_machine = Some (Ok 0x8000 t) \<and> free_frames t = {11..<16}"
proof -
  have "first_fit 3 {8..<16} 16 = Some 8" by (rule first_fit_SomeI) auto
  moreover have "{8..<16} - {8..<11} = {11..<16 :: nat}" by auto
  ultimately show ?thesis
    using alloc_is_first_fit [of framed_machine 3] framed_machine_ok framed_machine_frames
    by (auto simp: max_frames_def)
qed

text \<open>C6. In every session of page requests and releases, in any order, the blocks held are pairwise disjoint and were free at the start, and the free frames are exactly the others; the next request is answered, and every block held can be released.\<close>

theorem page_sessions_disjoint:
  assumes "pmm_inv s" and "(page_step hal_mem_alloc_pages hal_mem_free_pages)\<^sup>*\<^sup>* (s, []) (t, L)"
  shows "pmm_inv t \<and> sorted_wrt apart L \<and> held L \<subseteq> free_frames s \<and> free_frames t = free_frames s - held L
    \<and> (\<exists>a u. hal_mem_alloc_pages n t = Some (Ok a u))
    \<and> (\<forall>(a, k)\<in>set L. \<exists>u. hal_mem_free_pages a k t = Some (Ok () u))"
proof -
  have books: "in_books free_frames pmm_inv (free_frames s) (t, L)" by (rule frames.page_steps_books [OF assms(2,1)])
  then have t: "pmm_inv t" by (simp add: in_books_def)
  have "\<forall>(a, k)\<in>set L. \<exists>u. hal_mem_free_pages a k t = Some (Ok () u)"
    using frames.page_steps_progress(2) [OF books assms(1)] by blast
  moreover have "\<exists>a u. hal_mem_alloc_pages n t = Some (Ok a u)" using pages.alloc_total [OF t, of n] by blast
  ultimately show ?thesis using books by (simp add: in_books_def)
qed

theorem page_sessions_disjoint_witness:
  "\<exists>t. (page_step hal_mem_alloc_pages hal_mem_free_pages)\<^sup>*\<^sup>* (framed_machine, []) (t, [(0xB000, 2)])
    \<and> free_frames t = {8..<11} \<union> {13..<16}"
proof -
  let ?step = "page_step hal_mem_alloc_pages hal_mem_free_pages :: libc \<times> ledger \<Rightarrow> _"
  have "first_fit 3 {8..<16} 16 = Some 8" by (rule first_fit_SomeI) auto
  then obtain t where t: "hal_mem_alloc_pages 3 framed_machine = Some (Ok 0x8000 t)" "pmm_frame framed_machine t"
      "free_frames t = {8..<16} - {8..<11}"
    using pmm_alloc_pages_run [of framed_machine 3] framed_machine_ok framed_machine_frames
    by (auto simp: max_frames_def hal_mem_alloc_pages_def)
  have "{8..<16} - {8..<11} = {11..<16 :: nat}" by auto
  moreover have "first_fit 2 {11..<16} 16 = Some 11" by (rule first_fit_SomeI) auto
  ultimately obtain u where u: "hal_mem_alloc_pages 2 t = Some (Ok 0xB000 u)"
    using pmm_alloc_pages_run [of t 2] framed_machine_ok t(2,3)
    by (auto simp: max_frames_def hal_mem_alloc_pages_def pmm_frame_ok pmm_frame_total)
  have one: "?step (framed_machine, []) (t, [(0x8000, 3)])" by (rule granted, rule t(1), simp)
  have next_step: "?step (t, [(0x8000, 3)]) (u, [(0xB000, 2), (0x8000, 3)])" by (rule granted, rule u, simp)
  have two: "?step\<^sup>*\<^sup>* (framed_machine, []) (u, [(0xB000, 2), (0x8000, 3)])"
    by (rule converse_rtranclp_into_rtranclp [OF one r_into_rtranclp [of ?step, OF next_step]])
  from page_sessions_disjoint [OF framed_machine_ok(1) two, of 0] obtain v where v: "hal_mem_free_pages 0x8000 3 u = Some (Ok () v)" by auto
  have "?step (u, [(0xB000, 2)] @ (0x8000, 3) # []) (v, [(0xB000, 2)] @ [])" by (rule freed, rule v)
  with two have three: "?step\<^sup>*\<^sup>* (framed_machine, []) (v, [(0xB000, 2)])" by (simp add: rtranclp.rtrancl_into_rtrancl)
  have "held [(0xB000, 2)] = {11..<13}" by (auto simp: block_def)
  moreover have "{8..<16} - {11..<13} = {8..<11} \<union> {13..<16 :: nat}" by auto
  ultimately have "free_frames v = {8..<11} \<union> {13..<16}"
    using page_sessions_disjoint [OF framed_machine_ok(1) three, of 0] framed_machine_frames by simp
  with three show ?thesis by blast
qed

text \<open>C7. \<open>heap_init\<close> reserves the heap right behind the kernel image, and panics exactly when the allocator would put it elsewhere.\<close>

theorem heap_init_or_panic:
  assumes "pmm_inv s" and "con_inv s"
  shows "if heap_fits start s
    then \<exists>b. heap_init start s = Some (Ok () (heap_start start (s\<lparr>bitmap := b\<rparr>)))
      \<and> pmm_inv (s\<lparr>bitmap := b\<rparr>) \<and> heap_inv (heap_start start (s\<lparr>bitmap := b\<rparr>))
      \<and> free_frames (s\<lparr>bitmap := b\<rparr>) = free_frames s - block (page_up start) HEAP_PAGES
    else \<exists>t. (heap_init start s = Some (Halt t) \<or> heap_init start s = Some (Wait t)) \<and> con_inv t \<and> \<not> intr_enabled t"
  using heap_init_ok [OF assms(1)] heap_init_panics [OF assms] by simp

theorem heap_init_or_panic_witness:
  "\<exists>t. (heap_init 0x200000 framed_machine = Some (Halt t) \<or> heap_init 0x200000 framed_machine = Some (Wait t))
    \<and> con_inv t \<and> \<not> intr_enabled t"
proof -
  have con: "con_inv framed_machine" using machine_display(3) [of boot_info]
    by (simp add: framed_machine_def con_inv_def vga_inv_def on_serial_def)
  have "first_fit 1024 {8..<16} 16 = None" by (auto simp: first_fit_None)
  then have "\<not> heap_fits 0x200000 framed_machine"
    by (simp add: heap_fits_def framed_machine_frames framed_machine_ok(3))
  with heap_init_or_panic [where start = "0x200000", OF framed_machine_ok(1) con] show ?thesis by simp
qed

text \<open>C8. Whatever requests are made of \<open>heap_sbrk\<close>, each is answered and the memory handed out never overlaps.\<close>

theorem heap_blocks_disjoint:
  assumes "heap_inv s"
  shows "\<exists>bs t. sbrk_all heap_sbrk ns s = Some (Ok bs t) \<and> heap_inv t \<and> heap_limit t = heap_limit s
    \<and> map snd bs = ns \<and> (\<forall>b\<in>set bs. owned b \<subseteq> {unat (heap_cur s)..<unat (heap_cur t)})
    \<and> sorted_wrt (\<lambda>b c. owned b \<inter> owned c = {}) bs"
  using heap.sbrk_all_disjoint [OF assms, of ns] by (auto dest: injD [OF inj_unsigned])

theorem heap_blocks_disjoint_witness:
  "\<exists>bs t. sbrk_all heap_sbrk [16, 0, 0x500000, 8] (machine boot_info) = Some (Ok bs t) \<and> heap_inv t
    \<and> sorted_wrt (\<lambda>b c. owned b \<inter> owned c = {}) bs"
  using heap_blocks_disjoint [OF machine_heap, of "[16, 0, 0x500000, 8]" boot_info] by blast

section \<open>Programs\<close>

text \<open>C9. \<open>elf_load\<close> of an image with a good header and good segments returns its entry, with every segment copied and zero-filled in order and no other byte of memory changed. A good segment lies in the load window, off the image and off the resident addresses, those of the kernel's and the shell's own code, stack and static data.\<close>

theorem elf_load_installs:
  assumes "header_ok (mem s) data (unat sz)"
    and "\<forall>ph\<in>set (load_phdrs (mem s) data). segment_ok (resident s) (mem s) data (unat sz) ph"
  shows "\<exists>m. elf_load data sz s = Some (Ok (if load_phdrs (mem s) data = [] then 0 else entry_of (mem s) data) (s\<lparr>mem := m\<rparr>))
    \<and> m = fold (with_segment (mem s) data) (load_phdrs (mem s) data) (mem s)
    \<and> (\<forall>a. (\<forall>ph\<in>set (load_phdrs (mem s) data). unat a \<notin> span (vaddr_of (mem s) ph) (unat (memsz_of (mem s) ph)))
         \<longrightarrow> m a = mem s a)"
  using elf_load_run [OF assms] fold_with_segment_outside [of "load_phdrs (mem s) data" "resident s" "mem s" data "unat sz"] assms(2)
  by blast

theorem elf_load_installs_witness:
  "\<exists>t. elf_load 0x400000 124 (machine program) = Some (Ok 0x500000 t)
    \<and> mem t 0x500000 = 0xB8 \<and> mem t 0x500003 = 0xC3 \<and> mem t 0x500004 = 0 \<and> mem t 0x400000 = 0x7F"
proof -
  have "with_segment program 0x400000 0x400040 program 0x500000 = 0xB8 \<and> with_segment program 0x400000 0x400040 program 0x500003 = 0xC3
      \<and> with_segment program 0x400000 0x400040 program 0x500004 = 0 \<and> with_segment program 0x400000 0x400040 program 0x400000 = 0x7F"
    by (simp add: with_segment_def vaddr_of_def memsz_of_def filesz_of_def offset_of_def program_segment_fields span_def)
      (simp add: program_def)
  then show ?thesis
    using elf_load_installs [where s = "machine program" and data = "0x400000" and sz = "124"]
    by (simp add: program_header program_phdrs program_segment entry_of_def program_fields)
qed

text \<open>C10. \<open>elf_load\<close> ends on every image, however malformed: with a value, or in exception 13 or 14 of a memory access, and either way only memory has changed; it cannot halt or wait, and it is undefined only where there are resident addresses it could overwrite. As long as no segment lands on the headers, the outcome is bounded by the headers of the image: the value is 0 or the entry, not a byte outside the load window or at a resident address is written, an exception needs a header that escapes the window check (a start above the window, or a file part larger than the memory part), and an undefined run needs a segment over resident bytes.\<close>

theorem elf_load_stops:
  fixes s :: "'z hw_scheme"
  shows "(case elf_load data sz s of
      None \<Rightarrow> False
    | Some (Ok e t) \<Rightarrow> t = s\<lparr>mem := mem t\<rparr>
    | Some (Trap v t) \<Rightarrow> t = s\<lparr>mem := mem t\<rparr> \<and> v \<in> {13, 14}
    | Some Undef \<Rightarrow> \<exists>a. resident s a
    | Some r \<Rightarrow> False)
  \<and> (mapped data (unat sz) \<and> 56 \<le> unat data \<and> headers_apart (mem s) data (unat sz) \<longrightarrow>
     (case elf_load data sz s of
        Some (Ok e t) \<Rightarrow> e \<in> {0, entry_of (mem s) data}
          \<and> (\<forall>a. a < PROG_LOAD_MIN \<or> PROG_LOAD_MAX \<le> a \<or> resident s a \<longrightarrow> mem t a = mem s a)
      | Some (Trap v t) \<Rightarrow> (\<exists>ph\<in>set (load_phdrs (mem s) data). escapes (mem s) ph)
          \<and> (\<forall>a. a < PROG_LOAD_MIN \<or> PROG_LOAD_MAX \<le> a \<or> resident s a \<longrightarrow> mem t a = mem s a)
      | Some Undef \<Rightarrow> \<exists>ph\<in>set (load_phdrs (mem s) data).
          \<not> clear_of (resident s) (vaddr_of (mem s) ph) (extent_of (mem s) ph)
      | _ \<Rightarrow> False))"
proof (intro conjI impI)
  from stops_elf_load [of data sz] obtain r where r: "elf_load data sz s = Some r" unfolding stops_def by blast
  from tameD [OF tame_elf_load r] r show "case elf_load data sz s of
      None \<Rightarrow> False
    | Some (Ok e t) \<Rightarrow> t = s\<lparr>mem := mem t\<rparr>
    | Some (Trap v t) \<Rightarrow> t = s\<lparr>mem := mem t\<rparr> \<and> v \<in> {13, 14}
    | Some Undef \<Rightarrow> \<exists>a. resident s a
    | Some r \<Rightarrow> False" by (cases r) simp_all
next
  assume "mapped data (unat sz) \<and> 56 \<le> unat data \<and> headers_apart (mem s) data (unat sz)"
  then obtain r where r: "elf_load data sz s = Some r"
    "reaches (\<lambda>e t. e \<in> {0, entry_of (mem s) data}) (mem s) (set (load_phdrs (mem s) data)) s r"
    using elf_load_reach [of data sz s] by blast
  then show "case elf_load data sz s of
        Some (Ok e t) \<Rightarrow> e \<in> {0, entry_of (mem s) data}
          \<and> (\<forall>a. a < PROG_LOAD_MIN \<or> PROG_LOAD_MAX \<le> a \<or> resident s a \<longrightarrow> mem t a = mem s a)
      | Some (Trap v t) \<Rightarrow> (\<exists>ph\<in>set (load_phdrs (mem s) data). escapes (mem s) ph)
          \<and> (\<forall>a. a < PROG_LOAD_MIN \<or> PROG_LOAD_MAX \<le> a \<or> resident s a \<longrightarrow> mem t a = mem s a)
      | Some Undef \<Rightarrow> \<exists>ph\<in>set (load_phdrs (mem s) data).
          \<not> clear_of (resident s) (vaddr_of (mem s) ph) (extent_of (mem s) ph)
      | _ \<Rightarrow> False" by (cases r) (auto simp: inside_def)
qed

theorem elf_load_stops_witness:
  "\<exists>e t. elf_load 0x400000 180 (machine split_program) = Some (Ok e t) \<and> e \<in> {0, 0x500000}
    \<and> (\<forall>a. a < 0x200000 \<longrightarrow> mem t a = split_program a)"
proof -
  have map: "mapped 0x400000 (unat (180 :: u64)) \<and> 56 \<le> unat (0x400000 :: u64)
      \<and> headers_apart (mem (machine split_program)) 0x400000 (unat (180 :: u64))"
    using split_program_apart(1) by (simp add: mapped_def MAP_LIMIT_def)
  have hs: "set (load_phdrs split_program 0x400000) = {0x400040, 0x400078}" by (simp add: split_program_ok(2))
  have low: "a < PROG_LOAD_MIN \<or> resident (machine split_program) a" if "a < 0x200000" for a
    using that by (auto simp: machine_def PROG_LOAD_MIN_def)
  note run = mp [OF conjunct2 [OF elf_load_stops [where data = "0x400000" and sz = 180 and s = "machine split_program"]] map, unfolded machine_mem hs split_program_entry]
  show ?thesis
  proof (cases "elf_load 0x400000 180 (machine split_program)")
    case (Some r)
    with run show ?thesis
      using split_program_apart(2) split_program_apart(3) [of split_program] low by (cases r) auto
  qed (use run in simp)
qed

text \<open>C11. \<open>elf_load\<close> refuses an image that is too short or has a wrong header and leaves the machine as it was; at the first segment that fails a check it gives up with 0, and the segments before it stay in memory.\<close>

theorem elf_load_refuses:
  assumes "mapped data (unat sz)"
  shows "(unat sz < 64 \<or> header_bad (mem s) data \<longrightarrow> elf_load data sz s = Some (Ok 0 s))
    \<and> (header_ok (mem s) data (unat sz) \<and> load_phdrs (mem s) data = ps @ ph # qs
        \<and> (\<forall>p\<in>set ps. segment_ok (resident s) (mem s) data (unat sz) p) \<and> segment_refused (mem s) sz ph
      \<longrightarrow> elf_load data sz s = Some (Ok 0 (s\<lparr>mem := fold (with_segment (mem s) data) ps (mem s)\<rparr>)))"
  by (intro conjI impI elf_load_bad_header [OF assms] elf_load_refused [of s data sz ps ph qs]) simp_all

theorem elf_load_refuses_witness:
  "elf_load 0x400000 124 (machine boot_info) = Some (Ok 0 (machine boot_info))
    \<and> (\<exists>t. elf_load 0x400000 180 (machine split_program) = Some (Ok 0 t) \<and> mem t 0x500000 = 1)"
proof -
  have map: "mapped 0x400000 (unat (124 :: u64))" "mapped 0x400000 (unat (180 :: u64))"
    by (simp_all add: mapped_def MAP_LIMIT_def)
  have "header_bad boot_info 0x400000" by (simp add: header_bad_def boot_info_def)
  moreover have "with_segment split_program 0x400000 0x400040 split_program 0x500000 = 1"
    by (simp add: with_segment_def vaddr_of_def memsz_of_def filesz_of_def offset_of_def split_program_segments span_def)
      (simp add: split_program_def)
  ultimately show ?thesis
    using elf_load_refuses [OF map(1), of "machine boot_info"] split_program_ok
      elf_load_refuses [OF map(2), of "machine split_program" "[0x400040]" "0x400078" "[]"] by simp
qed

text \<open>C12. The overflow check of the loader is not safe: a segment that starts above the load window passes it, and its copy faults at its first byte: with exception 14 where the address is canonical, with 13 where it is not.\<close>

theorem high_segment_faults:
  assumes "mapped data (unat sz)" and "k + 56 \<le> unat sz" and "ph = data + of_nat k"
    and "PROG_LOAD_MAX < vaddr_of (mem s) ph"
    and "unat (memsz_of (mem s) ph) + (unat (vaddr_of (mem s) ph) - unat PROG_LOAD_MAX) \<le> 2 ^ 64"
    and "0 < unat (filesz_of (mem s) ph)" and "unat (offset_of (mem s) ph) + unat (filesz_of (mem s) ph) \<le> unat sz"
  shows "load_segment data sz ph s
    = Some (Trap (if canonical (vaddr_of (mem s) ph) then 14 else 13) s)"
  by (rule load_segment_high [OF assms, unfolded fault_vector_canonical])

theorem high_segment_faults_witness:
  "load_segment 0x400000 124 0x400040 (machine high_program) = Some (Trap 14 (machine high_program))"
proof -
  have "canonical (vaddr_of (mem (machine high_program)) 0x400040)"
    by (simp add: vaddr_of_def high_program_fields canonical_def)
  moreover have "load_segment 0x400000 124 0x400040 (machine high_program)
      = Some (Trap (if canonical (vaddr_of (mem (machine high_program)) 0x400040) then 14 else 13) (machine high_program))"
    by (rule high_segment_faults [where k = 64])
      (simp_all add: mapped_def MAP_LIMIT_def vaddr_of_def memsz_of_def filesz_of_def offset_of_def high_program_fields PROG_LOAD_MAX_def)
  ultimately show ?thesis by simp
qed

text \<open>C13. The loader reads the program header again for the fill. A segment that passes every check and whose copy lands on its own header makes \<open>load_segment\<close> clear the range the copied bytes name: no check is made of it, it may lie below the load window.\<close>

theorem header_overwrite_escapes:
  assumes "mapped data (unat sz)" and "k + 56 \<le> unat sz" and "ph = data + of_nat k"
    and "PROG_LOAD_MIN \<le> vaddr_of (mem s) ph" and "memsz_of (mem s) ph \<le> PROG_LOAD_MAX - vaddr_of (mem s) ph"
    and "unat (offset_of (mem s) ph) + unat (filesz_of (mem s) ph) \<le> unat sz"
    and "mapped (vaddr_of (mem s) ph) (unat (filesz_of (mem s) ph))"
    and "span (vaddr_of (mem s) ph) (unat (filesz_of (mem s) ph)) \<inter> span (data + offset_of (mem s) ph) (unat (filesz_of (mem s) ph)) = {}"
    and "clear_of (resident s) (vaddr_of (mem s) ph) (unat (filesz_of (mem s) ph))"
    and "c = copied (mem s) (data + offset_of (mem s) ph) (mem s) (vaddr_of (mem s) ph) (unat (filesz_of (mem s) ph))"
    and "filesz_of c ph < memsz_of c ph"
    and "mapped (vaddr_of c ph + filesz_of c ph) (unat (memsz_of c ph - filesz_of c ph))"
    and "clear_of (resident s) (vaddr_of c ph + filesz_of c ph) (unat (memsz_of c ph - filesz_of c ph))"
  shows "\<exists>m. load_segment data sz ph s = Some (Ok True (s\<lparr>mem := m\<rparr>))
    \<and> (\<forall>a. m a = (if unat a \<in> span (vaddr_of c ph + filesz_of c ph) (unat (memsz_of c ph - filesz_of c ph)) then 0 else c a))"
  using load_segment_rereads [OF assms] by (auto simp: filled_def)

theorem header_overwrite_escapes_witness:
  "\<exists>t. load_segment 0x400000 180 0x400040 (machine self_program) = Some (Ok True t)
    \<and> self_program 0x8000 = 0xAA \<and> mem t 0x8000 = 0 \<and> 0x8000 < PROG_LOAD_MIN"
proof -
  have map: "mapped 0x400000 (unat (180 :: u64))" "64 + 56 \<le> unat (180 :: u64)" "(0x400040 :: u64) = 0x400000 + of_nat 64"
    by (simp_all add: mapped_def MAP_LIMIT_def)
  have c: "copied self_program 0x400078 self_program 0x400040 56 = self_copied" by (simp add: self_copied_def)
  from header_overwrite_escapes [OF map, of "machine self_program" self_copied] obtain m where
    "load_segment 0x400000 180 0x400040 (machine self_program) = Some (Ok True ((machine self_program)\<lparr>mem := m\<rparr>))"
    "\<forall>a. m a = (if unat a \<in> span 0x8000 4096 then 0 else self_copied a)"
    using self_program_low [of self_program] machine_resident [of "0x400040" self_program 56]
    by (auto simp: self_program_fields c PROG_LOAD_MIN_def PROG_LOAD_MAX_def mapped_def MAP_LIMIT_def span_def)
  then show ?thesis by (auto simp: span_def PROG_LOAD_MIN_def self_program_def)
qed

text \<open>C14. An exception of a program run by the shell enters the handler with interrupts off, is recorded, and sends the frame to \<open>exc_restore\<close> with the stack of \<open>elf_exec\<close> and with flags that enable interrupts; \<open>elf_exec\<close> returns with the exception caught, the hook cleared and interrupts on, whatever the program had made of the interrupt flag.\<close>

theorem program_exception_recovered:
  assumes "body entry (started hook sp s) = Some (Trap v t)"
    and "exc_hook t = hook" and "hook \<noteq> 0" and "restore \<noteq> 0" and "call hook = exc_hook_fn restore"
  shows "exception_handler call (frame v t) (t\<lparr>intr_enabled := False\<rparr>)
      = Some (Ok ((frame v t)\<lparr>rip := restore, rsp := exc_restore_rsp t, rflags := 0x202\<rparr>)
          (t\<lparr>intr_enabled := False, exc_hook := 0, exc_vec := vector (frame v t), exc_rip := rip (frame v t),
             exc_err := error_code (frame v t)\<rparr>))
    \<and> elf_exec kernel_kst (hosted call restore frame body) hook sp entry s = Some (Ok ()
    (t\<lparr>intr_enabled := True, exc_hook := 0, exc_vec := vector (frame v t), exc_rip := rip (frame v t),
       exc_err := error_code (frame v t), exc_caught := True\<rparr>))"
proof
  have "exc_hook (t\<lparr>intr_enabled := False\<rparr>) = hook" using assms(2) by simp
  from exception_recovers [where call = call, OF this assms(3-5)]
  show "exception_handler call (frame v t) (t\<lparr>intr_enabled := False\<rparr>)
      = Some (Ok ((frame v t)\<lparr>rip := restore, rsp := exc_restore_rsp t, rflags := 0x202\<rparr>)
          (t\<lparr>intr_enabled := False, exc_hook := 0, exc_vec := vector (frame v t), exc_rip := rip (frame v t),
             exc_err := error_code (frame v t)\<rparr>))" by simp
qed (use elf_exec_recovers [where call = call and body = body, OF assms] in \<open>simp add: recovered_def\<close>)

theorem program_exception_recovered_witness:
  "\<exists>t. elf_exec kernel_kst (hosted (\<lambda>_. exc_hook_fn 0x310000) 0x310000 (\<lambda>_ _. sample_frame) (\<lambda>_. bind hal_cpu_disable_interrupts (\<lambda>_. raise 14)))
      0x320000 0x7FE000 0x500000 (machine program) = Some (Ok () t)
    \<and> exc_caught t \<and> exc_hook t = 0 \<and> exc_vec t = 14 \<and> exc_rip t = 0x500000 \<and> exc_err t = 2 \<and> intr_enabled t"
  using program_exception_recovered [where body = "\<lambda>_. bind hal_cpu_disable_interrupts (\<lambda>_. raise 14)" and entry = "0x500000" and hook = "0x320000"
      and sp = "0x7FE000" and s = "machine program" and v = "14"
      and t = "(started 0x320000 0x7FE000 (machine program))\<lparr>intr_enabled := False\<rparr>"
      and restore = "0x310000" and call = "\<lambda>_. exc_hook_fn 0x310000" and frame = "\<lambda>_ _. sample_frame"]
  by (simp add: bind_run hal_cpu_disable_interrupts_run raise_def started_def sample_frame_def)

text \<open>C15. Without a hook the exception handler never returns: it reports on the console and stops; on the display the name of the exception and the registers are on the screen.\<close>

theorem unhooked_exception_stops:
  fixes s :: "'z idts_scheme"
  assumes "con_inv s" and "exc_hook s = 0"
  shows "(\<exists>t. (exception_handler call f s = Some (Halt t) \<or> exception_handler call f s = Some (Wait t)) \<and> con_inv t)
    \<and> (on_display s \<longrightarrow> (\<exists>t. exception_handler call f s = Some (Halt t)
      \<and> vga_abs t = fold term_put (fault_text f) (alarm (vga_abs s)) \<and> mem t = mem s))"
  using exception_panics [OF assms] exception_display [OF _ assms(2)] by blast

theorem unhooked_exception_stops_witness:
  "\<exists>t. exception_handler (\<lambda>_ _ _ _. undef) sample_frame (machine program) = Some (Halt t)
    \<and> vga_abs t = fold term_put (fault_text sample_frame) (alarm (vga_abs (machine program)))"
proof -
  have "exc_hook (machine program) = 0" by (simp add: machine_def)
  from unhooked_exception_stops [OF machine_display(3) this] machine_display(2) show ?thesis by blast
qed

text \<open>C16. \<open>idt_init\<close> installs the 32 exception gates, the double fault alone with its own stack, and the descriptor of the task state segment, and loads the tables.\<close>

theorem idt_init_installs:
  assumes "tables_ok s"
  shows "\<exists>t. idt_init lay s = Some (Ok () t) \<and> tables_ok t
    \<and> (\<forall>i<32. gate_handler (idt t ! i) = isr_table lay ! i \<and> type_attr (idt t ! i) = IDT_INTERRUPT_GATE
         \<and> selector (idt t ! i) = 0x08 \<and> ist (idt t ! i) = (if i = 8 then 1 else 0))
    \<and> drop 32 (idt t) = drop 32 (idt s)
    \<and> idtr t = \<lparr>ptr_limit = 4095, ptr_base = idt_address lay\<rparr> \<and> gdtr t = \<lparr>ptr_limit = 39, ptr_base = gdt_address lay\<rparr>
    \<and> task_register t = 0x18 \<and> desc_base (kernel_gdt t ! 3) (kernel_gdt t ! 4) = tss_address lay
    \<and> desc_limit (kernel_gdt t ! 3) = 103 \<and> ist1 (kernel_tss t) = ist1_stack lay + IST1_SIZE"
proof (intro exI conjI)
  let ?t = "idt_state lay s"
  have len: "length (idt s) = 256" "length (kernel_gdt s) = 5" using assms by (simp_all add: tables_ok_def)
  show "idt_init lay s = Some (Ok () ?t)" by (rule idt_init_run [OF assms])
  show "tables_ok ?t" using len by (simp add: tables_ok_def idt_state_def)
  show "\<forall>i<32. gate_handler (idt ?t ! i) = isr_table lay ! i \<and> type_attr (idt ?t ! i) = IDT_INTERRUPT_GATE
         \<and> selector (idt ?t ! i) = 0x08 \<and> ist (idt ?t ! i) = (if i = 8 then 1 else 0)"
    by (auto simp: idt_state_def nth_append kernel_gate_def gate_handler_make [unfolded gate_handler_def]
        gate_handler_def) (simp_all add: make_gate_def)
  show "drop 32 (idt ?t) = drop 32 (idt s)" by (simp add: idt_state_def)
  show "desc_base (kernel_gdt ?t ! 3) (kernel_gdt ?t ! 4) = tss_address lay"
    using len by (simp add: idt_state_def desc_base_busy desc_base_tss)
  show "desc_limit (kernel_gdt ?t ! 3) = 103"
    using len by (simp add: idt_state_def desc_limit_busy desc_limit_tss sizeof_tss_def)
qed (simp_all add: idt_state_def)

theorem idt_init_installs_witness:
  "\<exists>t. idt_init sample_layout (machine boot_info) = Some (Ok () t)
    \<and> gate_handler (idt t ! 14) = 0x1100E0 \<and> ist (idt t ! 8) = 1"
proof -
  from idt_init_installs [OF machine_tables(1), of sample_layout boot_info] obtain t where
    "idt_init sample_layout (machine boot_info) = Some (Ok () t)"
    "\<forall>i<32. gate_handler (idt t ! i) = isr_table sample_layout ! i \<and> type_attr (idt t ! i) = IDT_INTERRUPT_GATE
         \<and> selector (idt t ! i) = 0x08 \<and> ist (idt t ! i) = (if i = 8 then 1 else 0)" by blast
  then show ?thesis by (auto simp: sample_layout_def)
qed

text \<open>C17. What the processor reads from a gate and from a task state segment descriptor is what they were made from.\<close>

theorem descriptors_roundtrip:
  assumes "l < 0x100000"
  shows "gate_handler (make_gate h ty) = h \<and> desc_base (tss_low b l) (tss_high b) = b
    \<and> desc_limit (tss_low b l) = ucast l \<and> drop_bit 40 (tss_low b l) AND 0xFF = 0x89"
  using gate_handler_make desc_base_tss desc_limit_tss [OF assms] tss_low_type by simp

theorem descriptors_roundtrip_witness:
  "gate_handler (make_gate 0x123456789ABCDEF0 0x8E) = 0x123456789ABCDEF0
    \<and> desc_base (tss_low 0xFEDCBA9876543210 103) (tss_high 0xFEDCBA9876543210) = 0xFEDCBA9876543210
    \<and> desc_limit (tss_low 0xFEDCBA9876543210 103) = 103"
  using descriptors_roundtrip [where l = "103" and h = "0x123456789ABCDEF0" and ty = "0x8E" and b = "0xFEDCBA9876543210"] by simp

section \<open>The shell\<close>

text \<open>C18. The shell never returns, and on finite input it does not run for ever when the programs it starts do not: it ends waiting for input, halted or in a fault.\<close>

theorem shell_never_returns:
  fixes s :: "'z shell_scheme"
  assumes "\<And>n entry. settles (within con_inv input_left n) (run entry)"
    and "length line = LINE_MAX" and "con_inv s"
  shows "module_main kernel_kst run hook sp line s \<noteq> None \<and> module_main kernel_kst run hook sp line s \<noteq> Some (Ok a t)"
  by (rule shell.module_main_ends [OF assms])

theorem shell_never_returns_witness:
  "module_main kernel_kst (\<lambda>_. ret Returned) 1 2 (replicate 128 0) keyed_machine \<noteq> None"
proof -
  have "settles (within con_inv input_left n) (ret Returned :: (run_end, libc) prog)" for n
    by (rule settles_basic)
  moreover have "con_inv keyed_machine" using keyed_machine_display by (simp add: on_display_def vga_inv_con_inv)
  moreover have "length (replicate 128 (0 :: u8)) = LINE_MAX" by (simp add: LINE_MAX_def)
  ultimately show ?thesis using shell_never_returns [of "\<lambda>_. ret Returned"] by blast
qed

text \<open>C19. The shell at the display is the reference session on the typed characters, screen and all: from the banner on it prompts, echoes and edits the lines and answers the commands until it waits for more input, halts in the panic of \<open>halt\<close>, or runs \<open>load\<close> with the rest of the input; nothing off the display changes on the way.\<close>

theorem shell_session:
  fixes s :: "'z shell_scheme"
  assumes "on_display s" and "length line = LINE_MAX"
  shows "case session (typed s) (fold term_put banner_text (term_clear (vga_abs s))) of
      (Awaits_Input, rest, d) \<Rightarrow> \<exists>t. module_main kernel_kst run hook sp line s = Some (Wait t)
        \<and> vga_abs t = d \<and> off_display t = off_display (clear_bss s)
    | (Halted, rest, d) \<Rightarrow> \<exists>t. module_main kernel_kst run hook sp line s = Some (Halt t)
        \<and> vga_abs t = d \<and> mem t = mem s \<and> \<not> intr_enabled t
    | (Starts_Load, rest, d) \<Rightarrow> \<exists>line' t. module_main kernel_kst run hook sp line s
          = bind (cmd_load kernel_kst run hook sp) (\<lambda>_. shell_loop kernel_kst (cmd_load kernel_kst run hook sp) line') t
        \<and> length line' = LINE_MAX \<and> on_display t \<and> typed t = rest \<and> vga_abs t = d \<and> off_display t = off_display (clear_bss s)"
proof -
  have "mem (clear_bss s) = mem s" by (simp add: clear_bss_def)
  with module_main_follows [OF assms, of run hook sp] show ?thesis by (simp only: follows_def)
qed

theorem shell_session_witness:
  "\<exists>t. module_main kernel_kst (\<lambda>_. undef) 1 2 (replicate 128 0) keyed_machine = Some (Wait t)
    \<and> vga_abs t = fold term_put (banner_text @ lit ''> help'' @ [0x0A] @ help_text @ lit ''> '') (term_clear (vga_abs keyed_machine))"
proof -
  have e: "edit_line (LINE_MAX - 1) [] (typed keyed_machine) = Some (lit ''help'', [])"
    and p: "prompt_text (typed keyed_machine) = lit ''> help'' @ [0x0A]" "prompt_text [] = lit ''> ''"
    by (simp_all add: keyed_machine_typed LINE_MAX_def prompt_text_def)
  have c: "parse_command (lit ''help'') \<notin> {Halt_System, Load}" "command_screen (lit ''help'') = fold term_put help_text"
    by (simp_all add: parse_command_def command_screen_def)
  have w: "edit_line (LINE_MAX - 1) [] [] = None" by simp
  have "session (typed keyed_machine) d = (Awaits_Input, [], fold term_put (lit ''> help'' @ [0x0A] @ help_text @ lit ''> '') d)" for d
    unfolding session_line(3) [OF e c(1)] session_waits [OF w] p c(2) by (simp del: lit_Cons)
  moreover have "length (replicate 128 (0 :: u8)) = LINE_MAX" by (simp add: LINE_MAX_def)
  ultimately show ?thesis
    using shell_session [OF keyed_machine_display, of "replicate 128 0" "\<lambda>_. undef" 1 2] by (auto simp del: lit_Cons)
qed

text \<open>One round of the shell on the display: the line is edited from the typed characters, and the command of that name is run with the rest of the input untouched.\<close>

theorem shell_runs_typed_command:
  fixes s :: "'z shell_scheme"
  assumes "on_display s" and "length line = LINE_MAX"
  shows "case edit_line (LINE_MAX - 1) [] (typed s) of
      None \<Rightarrow> \<exists>t. shell_round kernel_kst load_cmd line s = Some (Wait t)
        \<and> off_display t = off_display s \<and> vga_abs t = fold term_put (prompt_text (typed s)) (vga_abs s)
    | Some (l, rest) \<Rightarrow> \<exists>line' t. on_display t \<and> typed t = rest \<and> off_display t = off_display s
        \<and> vga_abs t = fold term_put (prompt_text (typed s)) (vga_abs s)
        \<and> length line' = LINE_MAX \<and> c_string line' = l
        \<and> shell_round kernel_kst load_cmd line s = bind (run_command kernel_kst load_cmd line') (\<lambda>_. ret line') t"
  by (rule shell_round_run [OF assms])

theorem shell_runs_typed_command_witness:
  "\<exists>line t. typed t = [] \<and> shell_round kernel_kst skip (replicate 128 0) keyed_machine
    = bind (cmd_help kernel_kst) (\<lambda>_. ret line) t"
proof -
  have e: "edit_line (LINE_MAX - 1) [] (typed keyed_machine) = Some (lit ''help'', [])"
    by (simp add: keyed_machine_typed LINE_MAX_def)
  have "length (replicate 128 (0 :: u8)) = LINE_MAX" by (simp add: LINE_MAX_def)
  from shell_runs_typed_command [OF keyed_machine_display this, of skip] obtain line' t where
    t: "typed t = []" "c_string line' = lit ''help''"
      "shell_round kernel_kst skip (replicate 128 0) keyed_machine = bind (run_command kernel_kst skip line') (\<lambda>_. ret line') t"
    unfolding e by auto
  have "run_command kernel_kst skip line' = cmd_help kernel_kst"
    using t(2) by (simp add: run_command_def parse_command_def)
  with t show ?thesis by metis
qed

text \<open>C20. The transfer over COM2 stores exactly the file that was framed on the line into fresh heap memory and takes nothing else from the ports; a bad magic, a bad size or an exhausted heap is refused without a change of memory.\<close>

theorem kelf_transfer:
  fixes s :: "'z shell_scheme"
  assumes "heap_inv s" and "unat (heap_limit s) \<le> unat MAP_LIMIT"
  shows "case kelf_receive (heap_room_left s) (com2_bytes s) of
      None \<Rightarrow> \<exists>t. transfer_recv_elf kernel_kst s = Some (Wait t)
    | Some None \<Rightarrow> \<exists>t. transfer_recv_elf kernel_kst s = Some (Ok None t) \<and> mem t = mem s \<and> heap_cur t = heap_cur s
        \<and> (\<forall>q. q \<noteq> COM2 \<and> q \<noteq> COM2 + 5 \<longrightarrow> port_in t q = port_in s q)
    | Some (Some content) \<Rightarrow> \<exists>t. transfer_recv_elf kernel_kst s = Some (Ok (Some (heap_cur s, of_nat (length content))) t)
        \<and> mem t = written (mem s) (heap_cur s) content \<and> heap_inv t
        \<and> unat (heap_cur t) = unat (heap_cur s) + length content
        \<and> com2_bytes t = drop (8 + length content) (com2_bytes s)
        \<and> (\<forall>q. q \<noteq> COM2 \<and> q \<noteq> COM2 + 5 \<longrightarrow> port_in t q = port_in s q)"
  by (rule transfer_recv_elf_cases [OF assms])

theorem kelf_transfer_witness:
  "\<exists>t. transfer_recv_elf kernel_kst sending_machine = Some (Ok (Some (0x200000, 3)) t)
    \<and> mem t = written boot_info 0x200000 [1, 2, 3] \<and> heap_cur t = 0x200003"
proof -
  have bytes: "com2_bytes sending_machine = kelf_encode [1, 2, 3]"
    by (simp add: com2_bytes_def com2_line_def sending_machine_def kelf_encode_def size_bytes_def)
  have s: "heap_inv sending_machine" "unat (heap_limit sending_machine) \<le> unat MAP_LIMIT"
    "heap_cur sending_machine = 0x200000" "heap_room_left sending_machine = 0x400000"
    "mem sending_machine = boot_info"
    by (simp_all add: sending_machine_def machine_def heap_inv_def MAP_LIMIT_def heap_room_left_def)
  have "kelf_receive 0x400000 (kelf_encode [1, 2, 3]) = Some (Some [1, 2, 3])"
    by (subst kelf_receive_encode [where rest = "[]", simplified]) simp_all
  with kelf_transfer [OF s(1,2)] bytes s obtain t where
    t: "transfer_recv_elf kernel_kst sending_machine = Some (Ok (Some (0x200000, 3)) t)"
    "mem t = written boot_info 0x200000 [1, 2, 3]" "unat (heap_cur t) = 0x200003" by auto
  then have "heap_cur t = 0x200003" by (simp add: word_unat_eq_iff)
  with t show ?thesis by blast
qed

text \<open>C21. A file framed by the protocol arrives byte for byte as it was sent, when it is not empty and within the bounds, and what follows it stays on the line.\<close>

theorem kelf_roundtrip:
  fixes s :: "'z shell_scheme"
  assumes "heap_inv s" and "unat (heap_limit s) \<le> unat MAP_LIMIT"
    and "com2_bytes s = kelf_encode bytes @ rest"
    and "bytes \<noteq> []" and "length bytes \<le> 2 * 1024 * 1024" and "length bytes \<le> heap_room_left s"
  shows "\<exists>t. transfer_recv_elf kernel_kst s = Some (Ok (Some (heap_cur s, of_nat (length bytes))) t)
    \<and> (\<forall>i<length bytes. mem t (heap_cur s + of_nat i) = bytes ! i) \<and> com2_bytes t = rest"
  by (rule transfer_framed [OF assms])

theorem kelf_roundtrip_witness:
  "\<exists>t. transfer_recv_elf kernel_kst (loading_machine (kelf_encode [0x7F, 0x45] @ [9])) = Some (Ok (Some (0x400000, 2)) t)
    \<and> mem t 0x400000 = 0x7F \<and> mem t 0x400001 = 0x45 \<and> com2_bytes t = [9]"
proof -
  have "\<exists>t. transfer_recv_elf kernel_kst (loading_machine (kelf_encode [0x7F, 0x45] @ [9]))
      = Some (Ok (Some (heap_cur (loading_machine (kelf_encode [0x7F, 0x45] @ [9])), of_nat (length [0x7F, 0x45 :: u8]))) t)
    \<and> (\<forall>i<length [0x7F, 0x45 :: u8]. mem t (heap_cur (loading_machine (kelf_encode [0x7F, 0x45] @ [9])) + of_nat i) = [0x7F, 0x45] ! i)
    \<and> com2_bytes t = [9]"
    by (rule kelf_roundtrip) (simp_all add: loading_machine_ok)
  then show ?thesis by (auto simp: loading_machine_ok less_Suc_eq)
qed

text \<open>C22. The command \<open>load\<close> typed at the prompt, with a program on the line: the file is stored, its segments are installed, and the program starts with the rest of the keyboard input untouched and the prompt, the echo and the progress on the screen; when it returns the hook is cleared and the end is reported, when it raises an exception the exception is reported, with interrupts on again, and in both cases the round of the shell ends and the next prompt follows.\<close>

theorem load_runs_program:
  fixes s :: "'z shell_scheme"
  assumes "on_display s" and "length line = LINE_MAX"
    and "edit_line (LINE_MAX - 1) [] (typed s) = Some (lit ''load'', rest)"
    and "heap_inv s" and "unat (heap_limit s) \<le> unat MAP_LIMIT"
    and "kelf_receive (heap_room_left s) (com2_bytes s) = Some (Some content)"
    and "m = written (mem s) (heap_cur s) content" and "program_ok (resident s) m (heap_cur s) (length content)"
    and "hook \<noteq> 0" and "restore \<noteq> 0" and "call hook = exc_hook_fn restore"
  shows "\<exists>t line'. on_display t \<and> typed t = rest \<and> length line' = LINE_MAX
    \<and> com2_bytes t = drop (8 + length content) (com2_bytes s)
    \<and> mem t = program_memory m (heap_cur s) \<and> heap_cur t = heap_cur s + of_nat (length content)
    \<and> vga_abs t = fold term_put (prompt_text (typed s) @ waiting_text @ received_text (length content)
        @ entry_text (entry_of m (heap_cur s))) (vga_abs s)
    \<and> (\<forall>v. body (entry_of m (heap_cur s)) (started hook sp t) = Some (Ok () v) \<and> on_display v \<and> \<not> exc_caught v \<longrightarrow>
        (\<exists>w. shell_round kernel_kst (cmd_load kernel_kst (hosted call restore frame body) hook sp) line s = Some (Ok line' w)
          \<and> shown finished_text (v\<lparr>exc_hook := 0\<rparr>) w))
    \<and> (\<forall>vec v. body (entry_of m (heap_cur s)) (started hook sp t) = Some (Trap vec v) \<and> on_display v \<and> exc_hook v = hook \<longrightarrow>
        (\<exists>w. shell_round kernel_kst (cmd_load kernel_kst (hosted call restore frame body) hook sp) line s = Some (Ok line' w)
          \<and> shown (exception_text (vector (frame vec v)) (rip (frame vec v)) (error_code (frame vec v)))
              (v\<lparr>intr_enabled := True, exc_hook := 0, exc_vec := vector (frame vec v), exc_rip := rip (frame vec v),
                 exc_err := error_code (frame vec v), exc_caught := True\<rparr>) w))"
proof -
  let ?load = "cmd_load kernel_kst (hosted call restore frame body) hook sp" and ?entry = "entry_of m (heap_cur s)"
  from typed_load [OF assms(1-3), of ?load] obtain line' u where
    u: "on_display u" "typed u = rest" "off_display u = off_display s" "length line' = LINE_MAX"
      "vga_abs u = fold term_put (prompt_text (typed s)) (vga_abs s)"
      "shell_round kernel_kst ?load line s = bind ?load (\<lambda>_. ret line') u" .
  note same = off_display_same [OF u(3)]
  from cmd_load_runs [where s = u and content = content and run = "hosted call restore frame body" and hook = hook and sp = sp] obtain t where
    t: "on_display t" "typed t = rest" "com2_bytes t = drop (8 + length content) (com2_bytes s)"
      "mem t = program_memory m (heap_cur s)" "heap_cur t = heap_cur s + of_nat (length content)"
      "vga_abs t = fold term_put (prompt_text (typed s) @ waiting_text @ received_text (length content) @ entry_text ?entry) (vga_abs s)"
      "?load u = bind (elf_exec kernel_kst (hosted call restore frame body) hook sp ?entry) (\<lambda>_. load_report kernel_kst) t"
    unfolding same u(2,5) assms(7) [symmetric] fold_append comp_apply using u(1) assms(4-6,8) by blast
  have round: "\<exists>w. shell_round kernel_kst ?load line s = Some (Ok line' w) \<and> P w"
    if "\<exists>w. bind (elf_exec kernel_kst (hosted call restore frame body) hook sp ?entry) (\<lambda>_. load_report kernel_kst) t = Some (Ok () w) \<and> P w" for P
    using that unfolding t(7) [symmetric] u(6) by (blast intro: round_returns)
  show ?thesis
    by (rule exI [of _ t], rule exI [of _ line'], intro conjI allI impI u(4) t(1-6) round)
      (elim conjE, rule load_finishes load_reports [where call = call and restore = restore, OF _ _ _ assms(9-11), unfolded recovered_def], assumption+)+
qed

theorem load_runs_program_witness:
  "\<exists>line w. shell_round kernel_kst (cmd_load kernel_kst (hosted (\<lambda>_. exc_hook_fn 0x310000) 0x310000 (\<lambda>_ _. sample_frame) (\<lambda>_. raise 14))
      0x320000 0x7FE000) (replicate 128 0) (loading_machine (kelf_encode image_bytes)) = Some (Ok line w)
    \<and> exc_caught w \<and> exc_hook w = 0 \<and> exc_vec w = 14 \<and> intr_enabled w \<and> mem w = program_memory program 0x400000"
proof -
  let ?s = "loading_machine (kelf_encode image_bytes)"
  have line: "length (replicate 128 (0 :: u8)) = LINE_MAX" by (simp add: LINE_MAX_def)
  have typed: "edit_line (LINE_MAX - 1) [] (typed ?s) = Some (lit ''load'', [])" by (simp add: loading_machine_typed LINE_MAX_def)
  have got: "kelf_receive (heap_room_left ?s) (com2_bytes ?s) = Some (Some image_bytes)"
    using kelf_receive_encode [of image_bytes "0x200000" "[]"] length_image by (auto simp: loading_machine_ok)
  have m: "program = written (mem ?s) (heap_cur ?s) image_bytes" by (simp add: loading_machine_ok image_written)
  have ok: "program_ok (resident ?s) program (heap_cur ?s) (length image_bytes)" by (simp add: loading_machine_ok length_image image_ok)
  have nonzero: "(0x320000 :: u64) \<noteq> 0" "(0x310000 :: u64) \<noteq> 0" by simp_all
  let ?load = "cmd_load kernel_kst (hosted (\<lambda>_. exc_hook_fn 0x310000) 0x310000 (\<lambda>_ _. sample_frame) (\<lambda>_. raise 14)) 0x320000 0x7FE000"
  note run = load_runs_program [where hook = "0x320000" and restore = "0x310000"
      and call = "\<lambda>_. exc_hook_fn 0x310000" and body = "\<lambda>_. raise 14" and sp = "0x7FE000" and frame = "\<lambda>_ _. sample_frame",
      OF loading_machine_ok(1) line typed loading_machine_ok(2,3) got m ok nonzero refl, unfolded loading_machine_ok(6)]
  then obtain t line' where t: "on_display t" "mem t = program_memory program 0x400000"
    and trap: "\<forall>vec v. (raise 14 :: (unit, libc) prog) (started 0x320000 0x7FE000 t) = Some (Trap vec v) \<and> on_display v \<and> exc_hook v = 0x320000 \<longrightarrow>
      (\<exists>w. shell_round kernel_kst ?load (replicate 128 0) ?s = Some (Ok line' w)
        \<and> shown (exception_text (vector sample_frame) (rip sample_frame) (error_code sample_frame))
            (v\<lparr>intr_enabled := True, exc_hook := 0, exc_vec := vector sample_frame, exc_rip := rip sample_frame, exc_err := error_code sample_frame, exc_caught := True\<rparr>) w)"
    by (elim exE conjE) (rule that; assumption)
  let ?v = "started 0x320000 0x7FE000 t"
  have "(raise 14 :: (unit, libc) prog) ?v = Some (Trap 14 ?v)" "on_display ?v" "exc_hook ?v = 0x320000"
    using t(1) by (simp_all add: raise_def started_def on_display_def vga_inv_def)
  with trap obtain w where w: "shell_round kernel_kst ?load (replicate 128 0) ?s = Some (Ok line' w)"
    and shown: "shown (exception_text (vector sample_frame) (rip sample_frame) (error_code sample_frame))
      (?v\<lparr>intr_enabled := True, exc_hook := 0, exc_vec := vector sample_frame, exc_rip := rip sample_frame, exc_err := error_code sample_frame, exc_caught := True\<rparr>) w" by blast
  have "exc_caught w" "exc_hook w = 0" "exc_vec w = 14" "intr_enabled w" "mem w = program_memory program 0x400000"
    using shown_local [OF shown, of intr_enabled] shown_local [OF shown, of exc_caught] shown_local [OF shown, of exc_hook] shown_local [OF shown, of exc_vec]
      shown_local [OF shown, of mem] t(2)
    by (simp_all add: vga_local_def sample_frame_def started_def)
  with w show ?thesis by blast
qed

text \<open>C23. The command \<open>load\<close> on the display reports a transfer that is refused and an image whose header is refused, and comes back with the screen, the keyboard input and the memory as stated; without enough bytes on the line it waits.\<close>

theorem load_refuses:
  fixes s :: "'z shell_scheme"
  assumes "on_display s" and "heap_inv s" and "unat (heap_limit s) \<le> unat MAP_LIMIT"
  shows "case kelf_receive (heap_room_left s) (com2_bytes s) of
      None \<Rightarrow> \<exists>t. cmd_load kernel_kst run hook sp s = Some (Wait t)
    | Some None \<Rightarrow> \<exists>t. cmd_load kernel_kst run hook sp s = Some (Ok () t) \<and> on_display t \<and> typed t = typed s
        \<and> mem t = mem s \<and> vga_abs t = fold term_put (waiting_text @ transfer_error_text) (vga_abs s)
    | Some (Some content) \<Rightarrow> length content < 64 \<or> header_bad (written (mem s) (heap_cur s) content) (heap_cur s) \<longrightarrow>
        (\<exists>t. cmd_load kernel_kst run hook sp s = Some (Ok () t) \<and> on_display t \<and> typed t = typed s
          \<and> mem t = written (mem s) (heap_cur s) content
          \<and> vga_abs t = fold term_put (waiting_text @ received_text (length content) @ load_failed_text) (vga_abs s))"
  using cmd_load_run [OF assms, of run hook sp] cmd_load_refused [OF assms]
  by (auto split: option.splits)

theorem load_refuses_witness:
  "\<exists>t. cmd_load kernel_kst (\<lambda>_. undef) 0x320000 0x7FE000 (loading_machine (kelf_encode [1, 2, 3])) = Some (Ok () t)
    \<and> vga_abs t = fold term_put (waiting_text @ received_text 3 @ load_failed_text) (vga_abs (loading_machine (kelf_encode [1, 2, 3])))"
proof -
  let ?s = "loading_machine (kelf_encode [1, 2, 3])"
  have "kelf_receive (heap_room_left ?s) (com2_bytes ?s) = Some (Some [1, 2, 3])"
    using kelf_receive_encode [of "[1, 2, 3]" "0x200000" "[]"] by (simp add: loading_machine_ok)
  with load_refuses [of ?s "\<lambda>_. undef" "0x320000" "0x7FE000", OF loading_machine_ok(1-3)]
  show ?thesis by (auto simp: numeral_3_eq_3)
qed

section \<open>Modules\<close>

text \<open>C24. \<open>modules_run_all\<close> runs, in order, the modules that are loaded, have a header and are not a shell, all known before the first of them runs.\<close>

theorem run_all_is_reference:
  assumes "module_code N entry" and "modules_inv s" and "headers_ok N (mem s) (loaded s)"
  shows "modules_run_all entry s = start_all N entry (loaded s) s"
  by (rule module_code.modules_run_all_run [OF assms])

theorem run_all_is_reference_witness:
  "modules_run_all (shipped 0 0x300038) module_machine
    = seq [announce module_names (loaded module_machine ! 0),
        upd_module 0 (\<lambda>m. m\<lparr>state := MODULE_STATE_RUNNING\<rparr>), hello_main kernel_kst] module_machine"
proof -
  have "\<not> is_shell module_names (loaded module_machine ! 0)"
    by (simp add: is_shell_def SHELLS_def named_def module_names_def module_machine_loaded c_string_def)
  then have "startable module_names (loaded module_machine ! 0)"
    by (simp add: startable_def module_machine_loaded)
  then show ?thesis
    using run_all_is_reference [OF shipped.module_code_axioms module_machine_ok(1) module_machine_headers]
    by (simp add: start_all_def module_machine_loaded start_as_def HEADER_SIZE_def shipped_def bind_assoc)
qed

text \<open>C25. Registering a module keeps the table well formed and appends its entry, or warns and drops it when the table is full.\<close>

theorem register_appends:
  fixes s :: "'z kernel_scheme"
  assumes "modules_inv s" and "con_inv s" and "denotes (mem s) name xs" and "mapped start 4"
  shows "\<exists>r. modules_register start stop name s = Some r
    \<and> good (\<lambda>_ t. con_inv t \<and> modules_inv t \<and> mem t = mem s \<and> infos t = registers start stop xs (mem s) (infos s))
        (\<lambda>t. con_inv t \<and> modules_inv t \<and> mem t = mem s) r"
  by (rule modules_register_spec [OF assms])

theorem register_appends_witness:
  "\<exists>r. modules_register 0x310000 0x320000 (str ''hello'') module_machine = Some r
    \<and> good (\<lambda>_ t. modules_inv t \<and> length (infos t) = 2) modules_inv r"
proof -
  have two: "length (registers 0x310000 0x320000 (lit ''hello'') m (infos module_machine)) = 2" for m
    by (simp add: registers_def infos_def module_machine_loaded)
  have "\<exists>r. modules_register 0x310000 0x320000 (str ''hello'') module_machine = Some r
    \<and> good (\<lambda>_ t. con_inv t \<and> modules_inv t \<and> mem t = mem module_machine
          \<and> infos t = registers 0x310000 0x320000 (lit ''hello'') (mem module_machine) (infos module_machine))
        (\<lambda>t. con_inv t \<and> modules_inv t \<and> mem t = mem module_machine) r"
    by (rule register_appends [OF module_machine_ok(1,2) denotes_Lit]) (simp_all add: mapped_def MAP_LIMIT_def)
  then obtain r where r: "modules_register 0x310000 0x320000 (str ''hello'') module_machine = Some r"
    "good (\<lambda>_ t. con_inv t \<and> modules_inv t \<and> mem t = mem module_machine
          \<and> infos t = registers 0x310000 0x320000 (lit ''hello'') (mem module_machine) (infos module_machine))
        (\<lambda>t. con_inv t \<and> modules_inv t \<and> mem t = mem module_machine) r" by blast
  then have "good (\<lambda>_ t. modules_inv t \<and> length (infos t) = 2) modules_inv r"
    using two by (cases r) simp_all
  with r(1) show ?thesis by blast
qed

text \<open>\<open>modules_find\<close> finds the first module with the name, by its command line or its header.\<close>

theorem find_is_first_match:
  assumes "modules_inv s" and "headers_ok N (mem s) (loaded s)" and "denotes (mem s) name xs"
  shows "modules_find name s = Some (Ok (first_index (named N xs) (loaded s)) s)"
  by (rule modules_find_run [OF assms])

theorem find_is_first_match_witness:
  "modules_find (str ''hello'') module_machine = Some (Ok (Some 0) module_machine)"
  using find_is_first_match [OF module_machine_ok(1) module_machine_headers, of "str ''hello''" "lit ''hello''"]
  by (simp add: denotes_Lit module_machine_loaded first_index_def named_def module_names_def c_string_def)

text \<open>C26. \<open>modules_launch_entry\<close> starts the shell the table names first, or reports that there is none.\<close>

theorem launch_picks_shell:
  assumes "modules_inv s" and "headers_ok N (mem s) (loaded s)"
  shows "modules_launch_entry entry s = (case shell_choice N (loaded s) of
      Some i \<Rightarrow> launch N entry i (loaded s ! i) s
    | None \<Rightarrow> hal_console_print (Lit (lit ''No entry executable found (COMMAND.KERN or command.com).'' @ [0x0A])) s)"
  by (rule modules_launch_entry_run [OF assms])

theorem launch_picks_shell_witness:
  "modules_launch_entry (shipped 0 0x300038) module_machine
    = hal_console_print (Lit (lit ''No entry executable found (COMMAND.KERN or command.com).'' @ [0x0A])) module_machine"
proof -
  have "shell_choice module_names (loaded module_machine) = None"
    by (simp add: shell_choice_def SHELLS_def List.map_filter_simps first_index_def named_def module_names_def
        module_machine_loaded c_string_def)
  with launch_picks_shell [OF module_machine_ok(1) module_machine_headers, of "shipped 0 0x300038"]
  show ?thesis by (simp del: lit_Cons)
qed

section \<open>Consoles\<close>

text \<open>C27. A character put on the display does to the screen what the abstract terminal says.\<close>

theorem putchar_is_terminal: "implements (term_put c) (vga_putchar c)"
  by (rule vga_putchar_implements)

text \<open>C28. The console is initialised in its invariant, every operation keeps it, and a read returns a byte.\<close>

theorem console_invariant:
  "spec (\<lambda>s. length (vram s) = VGA_ROWS * VGA_COLS) (hal_console_init ty) (\<lambda>_ s. con_inv s \<and> active_console s = ty) con_inv
   \<and> keeps con_inv (hal_console_putchar c) \<and> keeps con_inv (hal_console_print (Lit xs)) \<and> keeps con_inv (hal_console_print_hex v)
   \<and> keeps con_inv hal_console_clear \<and> keeps con_inv hal_console_panic_color
   \<and> spec con_inv hal_console_getchar (\<lambda>ch s. con_inv s \<and> 0 \<le> ch \<and> ch < 256) con_inv"
proof (intro conjI con_inv_keeps)
  show "spec (\<lambda>s. length (vram s) = VGA_ROWS * VGA_COLS) (hal_console_init ty) (\<lambda>_ s. con_inv s \<and> active_console s = ty) con_inv"
    using hal_console_init_spec [of "\<lambda>_. True" ty] by simp
  show "keeps con_inv hal_console_panic_color"
    unfolding con_and_True [symmetric] by (intro keeps_intros) simp
  show "spec con_inv hal_console_getchar (\<lambda>ch s. con_inv s \<and> 0 \<le> ch \<and> ch < 256) con_inv"
    using hal_console_getchar_spec [of "\<lambda>_. True"] by simp
qed

text \<open>C29. The blocking read returns the first character the decoder finds in the scancodes.\<close>

theorem keyboard_read_is_decoder:
  "case kbd_scan (kbd_flags s) (available s) of
     None \<Rightarrow> \<exists>t. keyboard_getchar s = Some (Wait t)
   | Some (ch, flags, rest) \<Rightarrow>
       \<exists>t. keyboard_getchar s = Some (Ok ch t) \<and> kbd_flags t = flags \<and> available t = rest"
  by (rule keyboard_getchar_scan)

text \<open>C30. The serial port transmits the bytes of a string in order, as many as it gets ready for.\<close>

theorem serial_print_in_order:
  assumes "denotes (mem s) c xs"
  shows "\<exists>t. serial_print c s = Some (if length xs \<le> n_ready s then Ok () t else Wait t)
    \<and> port_out t = port_out s @ map (Pair COM1) (take (n_ready s) xs)"
  using serial_for_each [of xs s] by (auto simp: serial_print_run [OF assms] split: if_splits)

theorem serial_print_in_order_witness:
  "\<exists>t. serial_print (str ''abc'') serial_machine = Some (Wait t) \<and> port_out t = [(COM1, 0x61), (COM1, 0x62)]"
proof -
  have "n_ready serial_machine = 2" by (simp add: n_ready_def is_ready_def serial_machine_def)
  moreover have "port_out serial_machine = []" by (simp add: serial_machine_def machine_def)
  ultimately show ?thesis
    using serial_print_in_order [of serial_machine "str ''abc''" "lit ''abc''"] by (simp add: denotes_Lit)
qed

text \<open>C31. A hexadecimal number is printed as 16 digits that denote it.\<close>

theorem print_hex_digits:
  "hal_console_print_hex v s = for_each (lit ''0x'' @ hex_buf 16 v) hal_console_putchar s
   \<and> length (hex_buf 16 v) = 16 \<and> hex_parse (hex_buf 16 v) = unat v"
proof -
  have "unat v mod 16 ^ 16 = unat v" using unsigned_less [of v, where 'a = nat] by simp
  then show ?thesis by (simp add: con_dev.print_hex_puts hex_parse_buf)
qed

text \<open>C32. A decimal number is printed as its digits, and one of 20 digits overruns the buffer.\<close>

theorem print_dec_digits:
  "hal_console_print_dec v s = (if unat v < 10 ^ 19
     then for_each (dec_str (unat v)) hal_console_putchar s else Some Undef)
   \<and> dec_parse (dec_str (unat v)) = unat v"
  by (simp add: hal_console_print_dec_run dec_parse_str)

text \<open>C33. A panic never returns, stops with the interrupts off, and leaves a working console; on the display it halts with its message on the screen in white on red.\<close>

theorem panic_stops:
  fixes s :: "'z hal_scheme"
  assumes "con_inv s"
  shows "(\<exists>t. ((hal_panic (Lit xs) :: ('a, 'z hal_scheme) prog) s = Some (Halt t)
      \<or> (hal_panic (Lit xs) :: ('a, 'z hal_scheme) prog) s = Some (Wait t)) \<and> con_inv t \<and> \<not> intr_enabled t)
    \<and> (on_display s \<and> 0 \<notin> set xs \<longrightarrow> (\<exists>t. (hal_panic (Lit xs) :: ('a, 'z hal_scheme) prog) s = Some (Halt t)
      \<and> vga_abs t = fold term_put (panic_text xs) (alarm (vga_abs s)) \<and> mem t = mem s \<and> \<not> intr_enabled t))"
  using hal_panic_lit [OF assms, of xs] hal_panic_display [of s xs] by blast

theorem panic_stops_witness:
  "(\<exists>t. ((hal_panic (str ''halt requested'') :: (unit, _) prog) serial_machine = Some (Halt t)
      \<or> (hal_panic (str ''halt requested'') :: (unit, _) prog) serial_machine = Some (Wait t)) \<and> \<not> intr_enabled t)
    \<and> (\<exists>t. (hal_panic (str ''halt requested'') :: (unit, _) prog) (machine boot_info) = Some (Halt t)
      \<and> vga_abs t = fold term_put (panic_text (lit ''halt requested'')) (alarm (vga_abs (machine boot_info))))"
proof -
  have "con_inv serial_machine" by (simp add: serial_machine_def con_inv_def on_serial_def)
  note serial = panic_stops [OF this, where 'a = unit and xs = "lit ''halt requested''"]
  have "0 \<notin> set (lit ''halt requested'')" by simp
  with panic_stops [OF machine_display(3), where 'a = unit and xs = "lit ''halt requested''"] machine_display(2) serial show ?thesis by blast
qed

text \<open>C34. The early parser of the boot information picks the serial console just when the command line asks for it.\<close>

theorem command_line_picks_console:
  assumes "tag_chain (mem s) a ts"
    and "case find (\<lambda>t. read_le (mem s) t 4 = MB2_TAG_CMDLINE) ts of
        Some t \<Rightarrow> denotes (mem s) (Ptr (t + 8)) line | None \<Rightarrow> True"
  shows "parse_console_tags a s =
    Some (Ok (if picks_serial (mem s) ts line then HAL_CONSOLE_SERIAL else HAL_CONSOLE_VGA) s)"
  by (rule parse_console_tags_run [OF assms])

theorem command_line_picks_console_witness:
  "parse_console_tags 0x1008 (machine serial_info) = Some (Ok HAL_CONSOLE_SERIAL (machine serial_info))"
proof -
  have "picks_serial serial_info [0x1008] (lit ''console=serial'')"
    by (simp add: picks_serial_def serial_info_fields mb2_tag_defs)
  then show ?thesis
    using command_line_picks_console [where s = "machine serial_info" and a = "0x1008" and ts = "[0x1008]" and line = "lit ''console=serial''"]
      serial_info_chain serial_info_line by (simp add: serial_info_fields mb2_tag_defs del: tag_chain.simps)
qed

text \<open>C35. A tag of size 0 keeps the early parser in its loop for ever.\<close>

theorem empty_tag_never_ends:
  assumes "mapped a 8" and "read_le (mem s) a 4 \<notin> {MB2_TAG_END, MB2_TAG_CMDLINE}"
    and "tag_step (read_le (mem s) (a + 4) 4) = 0"
  shows "parse_console_tags a s = None"
  by (rule parse_console_tags_loops [OF assms])

theorem empty_tag_never_ends_witness: "parse_console_tags 0x1008 (machine looping_info) = None"
  by (rule empty_tag_never_ends) (simp_all add: mapped_def MAP_LIMIT_def looping_info_fields mb2_tag_defs tag_step_def)

text \<open>C36. The memory map that was set is the one that is read back, cut to 64 regions.\<close>

theorem memory_map_roundtrip:
  fixes s :: "'z hal_scheme"
  assumes "length (mem_map s) = 64" and "unat count \<le> length rs" and "64 \<le> limit" and "unat limit \<le> length out"
  shows "\<exists>t n. hal_mem_set_map rs count s = Some (Ok () t) \<and> unat n = min (unat count) 64
    \<and> hal_mem_get_map out limit t = Some (Ok (n, take (unat n) rs @ drop (unat n) out) t)"
proof -
  from hal_mem_set_map_run [OF assms(1,2)] obtain t where t: "hal_mem_set_map rs count s = Some (Ok () t)"
    "mem_map_count t = (if count < 64 then count else 64)" by simp
  from regions_set_map [OF assms(1,2) t(1)] have r: "mem_map_inv t" "regions t = take (min (unat count) 64) rs" by simp_all
  have n: "unat (mem_map_count t) = min (unat count) 64"
    using t(2) by (simp add: word_less_nat_alt min_def)
  from hal_mem_get_map_run [OF r(1) assms(4,3)] t(1) n r(2) show ?thesis by auto
qed

theorem memory_map_roundtrip_witness:
  "\<exists>t. hal_mem_set_map [\<lparr>base = 0, length_of = 0x9F000, type_of = 1\<rparr>] 1 (machine boot_info) = Some (Ok () t)
    \<and> hal_mem_get_map (replicate 64 \<lparr>base = 9, length_of = 9, type_of = 9\<rparr>) 64 t
      = Some (Ok (1, \<lparr>base = 0, length_of = 0x9F000, type_of = 1\<rparr> # replicate 63 \<lparr>base = 9, length_of = 9, type_of = 9\<rparr>) t)"
proof -
  have "length (mem_map (machine boot_info)) = 64" by (simp add: machine_def)
  from memory_map_roundtrip [OF this, of 1 "[\<lparr>base = 0, length_of = 0x9F000, type_of = 1\<rparr>]" 64
      "replicate 64 \<lparr>base = 9, length_of = 9, type_of = 9\<rparr>"]
  obtain t n where "hal_mem_set_map [\<lparr>base = 0, length_of = 0x9F000, type_of = 1\<rparr>] 1 (machine boot_info) = Some (Ok () t)"
    "unat n = 1" "hal_mem_get_map (replicate 64 \<lparr>base = 9, length_of = 9, type_of = 9\<rparr>) 64 t
      = Some (Ok (n, take (unat n) [\<lparr>base = 0, length_of = 0x9F000, type_of = 1\<rparr>] @ drop (unat n) (replicate 64 \<lparr>base = 9, length_of = 9, type_of = 9\<rparr>)) t)"
    by auto
  moreover from this(2) have "n = 1" by (metis unat_1 word_unat_eq_iff)
  ultimately show ?thesis by auto
qed

text \<open>A wrong Multiboot2 magic stops the kernel in a panic.\<close>

theorem wrong_magic_stops:
  fixes s :: "'z kernel_scheme"
  assumes "con_inv s" and "boot_magic \<noteq> MULTIBOOT2_MAGIC"
  shows "\<exists>t. (hal_arch_init boot_magic boot_addr s = Some (Halt t) \<or> hal_arch_init boot_magic boot_addr s = Some (Wait t))
    \<and> con_inv t \<and> \<not> intr_enabled t"
  by (rule hal_arch_init_bad_magic [OF assms])

theorem wrong_magic_stops_witness:
  "\<exists>t. (hal_arch_init 0x2BADB002 0 (machine boot_info) = Some (Halt t) \<or> hal_arch_init 0x2BADB002 0 (machine boot_info) = Some (Wait t))
    \<and> con_inv t \<and> \<not> intr_enabled t"
  by (rule wrong_magic_stops [OF machine_display(3)]) (simp add: MULTIBOOT2_MAGIC_def)

section \<open>The C library and the shipped modules\<close>

text \<open>C37. A read of the standard input stores the edited line, its newline included, into the buffer, echoes it on the screen, changes nothing else but the keyboard, and returns its length.\<close>

theorem stdin_read_is_cooked:
  fixes s :: "'z libc_scheme"
  assumes "mapped dst (unat len)" and "on_display s" and "len \<noteq> 0"
  shows "case cooked (unat len) [] (typed s) of
      None \<Rightarrow> \<exists>t. read_fd (Some kernel_kst) 0 dst len s = Some (Wait t) \<and> wrote dst len s t
        \<and> vga_abs t = fold term_put (cooked_echo (unat len) [] (typed s)) (vga_abs s)
    | Some (l, rest) \<Rightarrow> \<exists>t. read_fd (Some kernel_kst) 0 dst len s = Some (Ok (int (length l)) t)
        \<and> on_display t \<and> typed t = rest \<and> stored (mem t) dst l \<and> length l \<le> unat len \<and> wrote dst len s t
        \<and> vga_abs t = fold term_put (cooked_echo (unat len) [] (typed s)) (vga_abs s)"
proof -
  have read: "read_fd (Some kernel_kst) 0 dst len s = read_line kernel_kst dst 0 len s"
    using assms(3) by (simp add: read_fd_def)
  have "line_at dst len 0 [] s" using assms(2) by (simp add: line_at_def)
  from read_line_run [OF assms(1) this] show ?thesis unfolding read .
qed

theorem stdin_read_is_cooked_witness:
  "\<exists>t. read_fd (Some kernel_kst) 0 0x500000 64 keyed_machine = Some (Ok 5 t)
    \<and> stored (mem t) 0x500000 (lit ''help'' @ [0x0A]) \<and> typed t = []
    \<and> vga_abs t = fold term_put (lit ''help'' @ [0x0A]) (vga_abs keyed_machine)"
proof -
  have c: "cooked 64 [] (typed keyed_machine) = Some (lit ''help'' @ [0x0A], [])"
    "cooked_echo 64 [] (typed keyed_machine) = lit ''help'' @ [0x0A]"
    by (simp_all add: keyed_machine_typed cooked.simps cooked_echo.simps)
  have n: "unat (64 :: u64) = 64" by simp
  have "mapped 0x500000 (unat (64 :: u64))" by (simp add: mapped_def MAP_LIMIT_def)
  from stdin_read_is_cooked [OF this keyed_machine_display] show ?thesis
    unfolding n c by auto
qed

text \<open>C38. A write to the standard output prints the bytes of the buffer in order and returns their number; at the display it returns with exactly those bytes put on the screen and nothing else changed.\<close>

theorem libc_write_prints:
  fixes s :: "'z libc_scheme"
  assumes "mapped buf (unat len)" and "fd = 1 \<or> fd = 2"
  shows "write_fd (Some kernel_kst) fd buf len s
      = bind (for_each (map (\<lambda>i. mem s (buf + of_nat i)) [0..<unat len]) hal_console_putchar) (\<lambda>_. ret (int (unat len))) s
    \<and> (on_display s \<longrightarrow> (\<exists>t. write_fd (Some kernel_kst) fd buf len s = Some (Ok (int (unat len)) t)
      \<and> vga_abs t = fold term_put (map (\<lambda>i. mem s (buf + of_nat i)) [0..<unat len]) (vga_abs s)
      \<and> on_display t \<and> typed t = typed s \<and> off_display t = off_display s))"
proof -
  let ?xs = "map (\<lambda>i. mem s (buf + of_nat i)) [0..<unat len]"
  have "write_fd (Some kernel_kst) fd buf len s
      = bind (bind (for_each ?xs hal_console_putchar) (\<lambda>_. ret (int (unat len)))) (\<lambda>r. if r < 0 then fail_with EIO (- 1) else ret r) s"
    using kst_write_run [OF assms, of s] by (simp add: write_fd_def bind_run)
  then have run: "write_fd (Some kernel_kst) fd buf len s
      = bind (for_each ?xs hal_console_putchar) (\<lambda>_. ret (int (unat len))) s" by (simp add: bind_assoc)
  moreover have "\<exists>t. write_fd (Some kernel_kst) fd buf len s = Some (Ok (int (unat len)) t)
      \<and> vga_abs t = fold term_put ?xs (vga_abs s) \<and> on_display t \<and> typed t = typed s \<and> off_display t = off_display s"
    if "on_display s"
    using display_for_each [OF that, of ?xs] unfolding run by (auto simp: bind_run ret_run)
  ultimately show ?thesis by blast
qed

theorem libc_write_prints_witness:
  "\<exists>t. write_fd (Some kernel_kst) 1 0x1040 5 (machine boot_info) = Some (Ok 5 t)
    \<and> vga_abs t = fold term_put (lit ''hello'') (vga_abs (machine boot_info))"
proof -
  have "map (\<lambda>i. boot_info (0x1040 + of_nat i)) [0..<5] = lit ''hello''"
    by (simp add: boot_info_def upt_rec)
  then have bytes: "map (\<lambda>i. mem (machine boot_info) (0x1040 + of_nat i)) [0..<unat (5 :: u64)] = lit ''hello''" by simp
  have "mapped 0x1040 (unat (5 :: u64))" by (simp add: mapped_def MAP_LIMIT_def)
  from conjunct2 [OF libc_write_prints [OF this disjI1 [OF refl], of "machine boot_info"]] machine_display(2) [of boot_info] show ?thesis
    unfolding bytes by (auto simp del: lit_Cons)
qed

text \<open>C39. Without the service table the calls fail with \<open>ENOSYS\<close>; with it, the ones that would need files or another stream fail with the error of their own, a request beyond the heap with \<open>ENOMEM\<close> and with nothing taken; a program that exits or aborts does not come back.\<close>

theorem libc_errors:
  "fails ENOSYS (write_fd None fd buf len) \<and> fails ENOSYS (read_fd None fd buf len)
   \<and> fails ENOSYS (open_fd None path flags mode) \<and> fails ENOSYS (close_fd None fd)
   \<and> fails ENOSYS (lseek None fd offset whence) \<and> fails ENOSYS (fstat None fd st)
   \<and> fails ENOENT (open_fd (Some kernel_kst) path flags mode) \<and> fails EBADF (close_fd (Some kernel_kst) fd)
   \<and> fails ESPIPE (lseek (Some kernel_kst) fd offset whence)
   \<and> (fd \<notin> {1, 2} \<longrightarrow> fails EIO (write_fd (Some kernel_kst) fd buf len))
   \<and> (fd \<noteq> 0 \<longrightarrow> fails EBADF (read_fd (Some kernel_kst) fd buf len))
   \<and> (heap_inv s \<and> 0 < sint incr \<and> unat (heap_limit s) < unat (heap_cur s) + unat incr
       \<longrightarrow> sbrk (Some kernel_kst) incr s = Some (Ok (- 1) (s\<lparr>errno := Some ENOMEM\<rparr>)))
   \<and> exit_program kst status s \<noteq> Some (Ok () t) \<and> kill (Some kernel_kst) pid 6 s \<noteq> Some (Ok r t)"
  by (intro conjI impI) (simp_all add: hooks_without_table hooks_without_files sbrk_full exit_no_return)

theorem libc_errors_witness:
  "fails EIO (write_fd (Some kernel_kst) 3 0x1000 5) \<and> fails EBADF (read_fd (Some kernel_kst) 3 0x1000 5)
    \<and> sbrk (Some kernel_kst) 0x500000 (machine boot_info) = Some (Ok (- 1) ((machine boot_info)\<lparr>errno := Some ENOMEM\<rparr>))"
proof -
  have "0 < sint (0x500000 :: u64)" "unat (heap_limit (machine boot_info)) < unat (heap_cur (machine boot_info)) + unat (0x500000 :: u64)"
    by (simp_all add: machine_def)
  then show ?thesis
    using libc_errors [where fd = 3 and buf = "0x1000" and len = 5 and incr = "0x500000" and s = "machine boot_info"] machine_heap [of boot_info]
    by simp blast
qed

text \<open>C40. Three of the exception tests raise the exception they announce, under the menu on the screen; without a hook the handler, entered with the frame of that vector, reports it there by its name and stops. The page fault test has no defined behaviour: it dereferences the null pointer, and the memory at address 0 is mapped, so that a load of it would not fault.\<close>

theorem exception_tests_trap:
  fixes s :: "'z kernel_scheme"
  assumes "on_display s"
  shows "(\<forall>v. test_vector test = Some v \<longrightarrow>
      (\<exists>t. exception_test_main test kernel_kst s = Some (Trap v t) \<and> shown (menu_text @ announced test) s t
        \<and> (\<forall>f. exc_hook s = 0 \<and> vector f = v \<longrightarrow> prefix (test_title test) (fault_text f)
          \<and> (\<exists>u. exception_handler call f t = Some (Halt u) \<and> mem u = mem s
            \<and> vga_abs u = fold term_put (fault_text f) (alarm (fold term_put (menu_text @ announced test) (vga_abs s)))))))
    \<and> exception_test_main 2 kernel_kst s = Some Undef \<and> load8 0 s = Some (Ok (mem s 0) s)"
proof (intro conjI allI impI)
  fix v assume v: "test_vector test = Some v"
  from exception_test_traps [OF assms v] obtain t where
    t: "exception_test_main test kernel_kst s = Some (Trap v t)" "shown (menu_text @ announced test) s t" by blast
  with exception_test_reported [OF t(2)] test_title_shown [OF v]
  show "\<exists>t. exception_test_main test kernel_kst s = Some (Trap v t) \<and> shown (menu_text @ announced test) s t
        \<and> (\<forall>f. exc_hook s = 0 \<and> vector f = v \<longrightarrow> prefix (test_title test) (fault_text f)
          \<and> (\<exists>u. exception_handler call f t = Some (Halt u) \<and> mem u = mem s
            \<and> vga_abs u = fold term_put (fault_text f) (alarm (fold term_put (menu_text @ announced test) (vga_abs s)))))" by blast
qed (simp_all add: page_fault_test_undefined [OF assms] load8_run MAP_LIMIT_def)

theorem exception_tests_trap_witness:
  "(\<exists>t u. exception_test_main 3 kernel_kst (machine boot_info) = Some (Trap 13 t)
      \<and> exception_handler (\<lambda>_. exc_hook_fn 0x310000) (sample_frame\<lparr>vector := 13\<rparr>) t = Some (Halt u)
      \<and> prefix ([0x0A, 0x0A] @ lit ''  EXCEPTION: #GP General Protection Fault'' @ [0x0A]) (fault_text (sample_frame\<lparr>vector := 13\<rparr>)))
    \<and> exception_test_main 2 kernel_kst (machine boot_info) = Some Undef"
proof -
  have v: "test_vector 3 = Some 13" and h: "exc_hook (machine boot_info) = 0" by (simp_all add: test_vector_def machine_def)
  have title: "[0x0A, 0x0A] @ lit ''  EXCEPTION: #GP General Protection Fault'' @ [0x0A] = test_title 3" by (simp add: test_title_def)
  have f: "vector (sample_frame\<lparr>vector := 13\<rparr>) = 13" by simp
  from exception_tests_trap [OF machine_display(2), of 3 boot_info "\<lambda>_. exc_hook_fn 0x310000"] v h f show ?thesis
    unfolding title by blast
qed

end
